(* ===== verification/Prelude.thy ===== *)
theory Prelude
  imports Main "HOL-Library.Word"
begin

text \<open>
  Shared vocabulary of the development: the machine integers of the Rust sources, byte strings
  and their little-endian and big-endian readings, the clock, and the generic lemmas on lists,
  options and words that the component theories use.
  \<^item> \<open>usize\<close> is 64 bits wide (the servers and clients are built for 64-bit targets).
  \<^item> A Rust \<open>String\<close> is the list of its UTF-8 bytes, a HOL \<open>string\<close>.
  \<^item> A point in time (\<open>std::time::Instant\<close>) is a number of nanoseconds. Subtraction on
    \<open>nat\<close> stops at zero, as \<open>Instant::elapsed\<close> does.
\<close>

unbundle bit_operations_syntax

section \<open>Types\<close>

type_synonym u8 = "8 word"
type_synonym u16 = "16 word"
type_synonym u32 = "32 word"
type_synonym u64 = "64 word"
type_synonym u128 = "128 word"
type_synonym usize = "64 word"
type_synonym bytes = "u8 list"
type_synonym instant = nat

named_theorems codec_simps \<open>unfolding rules of the wire formats\<close>
named_theorems step_simps \<open>unfolding rules of the server handlers\<close>

section \<open>Time\<close>

definition elapsed :: "instant \<Rightarrow> instant \<Rightarrow> nat" where
  "elapsed now t = now - t"

definition as_secs :: "nat \<Rightarrow> nat" where
  "as_secs d = d div 1000000000"

definition as_millis :: "nat \<Rightarrow> nat" where
  "as_millis d = d div 1000000"

definition elapsed_secs :: "instant \<Rightarrow> instant \<Rightarrow> nat" where
  "elapsed_secs now t = as_secs (elapsed now t)"

definition elapsed_millis :: "instant \<Rightarrow> instant \<Rightarrow> nat" where
  "elapsed_millis now t = as_millis (elapsed now t)"

lemma elapsed_self [simp]:
  "elapsed_secs t t = 0" "elapsed_millis t t = 0"
  by (simp_all add: elapsed_secs_def elapsed_millis_def elapsed_def as_secs_def as_millis_def)

lemma elapsed_secs_mono: "t \<le> u \<Longrightarrow> elapsed_secs now u \<le> elapsed_secs now t"
  by (simp add: elapsed_secs_def elapsed_def as_secs_def div_le_mono diff_le_mono2)

section \<open>Little-endian and big-endian byte strings\<close>

text \<open>\<open>to_le k w\<close> is the first \<open>k\<close> bytes of \<open>w.to_le_bytes()\<close>; \<open>of_le\<close> is
  \<open>from_le_bytes\<close> on a zero-padded array.\<close>

definition to_le :: "nat \<Rightarrow> 'a::len word \<Rightarrow> bytes" where
  "to_le k w = map (\<lambda>i. ucast (drop_bit (8 * i) w)) [0..<k]"

fun of_le :: "bytes \<Rightarrow> 'a::len word" where
  "of_le [] = 0"
| "of_le (b # bs) = ucast b OR push_bit 8 (of_le bs)"

definition to_be :: "nat \<Rightarrow> 'a::len word \<Rightarrow> bytes" where
  "to_be k w = rev (to_le k w)"

definition of_be :: "bytes \<Rightarrow> 'a::len word" where
  "of_be bs = of_le (rev bs)"

lemma length_to_le [simp]: "length (to_le k w) = k"
  by (simp add: to_le_def)

lemma length_to_be [simp]: "length (to_be k w) = k"
  by (simp add: to_be_def)

lemma to_le_nth [simp]: "i < k \<Longrightarrow> to_le k w ! i = ucast (drop_bit (8 * i) w)"
  by (simp add: to_le_def)

lemma bit_of_le:
  "bit (of_le bs :: 'a::len word) n \<longleftrightarrow>
     n < LENGTH('a) \<and> n div 8 < length bs \<and> bit (bs ! (n div 8)) (n mod 8)"
proof (induction bs arbitrary: n)
  case Nil
  then show ?case by simp
next
  case (Cons b bs)
  show ?case
  proof (cases "n < 8")
    case True
    then show ?thesis
      by (auto simp: bit_or_iff bit_push_bit_iff bit_ucast_iff dest: bit_imp_le_length)
  next
    case False
    then obtain m where m: "n = m + 8" by (metis add.commute le_Suc_ex not_less)
    have nb: "\<not> bit b n" using False bit_imp_le_length [of b n] by auto
    have "(m + 8) div 8 = Suc (m div 8)" by simp
    then show ?thesis
      using nb Cons.IH [of m] by (auto simp: bit_or_iff bit_push_bit_iff bit_ucast_iff m)
  qed
qed

lemma of_le_to_le:
  "(of_le (to_le k (w :: 'a::len word)) :: 'a word) = take_bit (8 * k) w"
proof (rule bit_eqI)
  fix n
  assume "possible_bit TYPE('a word) n"
  then have "n < LENGTH('a)" by simp
  then show "bit (of_le (to_le k w) :: 'a word) n = bit (take_bit (8 * k) w) n"
    by (cases "n div 8 < k")
      (auto simp: bit_of_le bit_take_bit_iff bit_ucast_iff bit_drop_bit_eq
        less_mult_imp_div_less mult.commute)
qed

lemma of_le_append_zeros:
  "of_le (bs @ replicate m 0) = of_le bs"
  by (rule bit_eqI) (auto simp: bit_of_le nth_append)

lemma of_le_to_le_full:
  "8 * k \<ge> LENGTH('a) \<Longrightarrow> (of_le (to_le k (w :: 'a::len word)) :: 'a word) = w"
  by (simp add: of_le_to_le take_bit_word_eq_self)

lemma of_be_to_be_full:
  "8 * k \<ge> LENGTH('a) \<Longrightarrow> (of_be (to_be k (w :: 'a::len word)) :: 'a word) = w"
  by (simp add: of_be_def to_be_def of_le_to_le_full)

lemma to_le_of_le:
  assumes "length bs = k" "8 * k \<le> LENGTH('a::len)"
  shows "to_le k (of_le bs :: 'a word) = bs"
proof (rule nth_equalityI)
  fix i
  assume "i < length (to_le k (of_le bs :: 'a word))"
  then have i: "i < k" by simp
  show "to_le k (of_le bs :: 'a word) ! i = bs ! i"
  proof (rule bit_eqI)
    fix n
    assume "possible_bit TYPE(8 word) n"
    then have n: "n < 8" by simp
    with i have "8 * i + n < 8 * k" by linarith
    with assms have "8 * i + n < LENGTH('a)" by linarith
    with i n assms(1) show "bit (to_le k (of_le bs :: 'a word) ! i) n = bit (bs ! i) n"
      by (simp add: bit_ucast_iff bit_drop_bit_eq bit_of_le)
  qed
qed (use assms in simp)

lemma to_be_of_be:
  "length bs = k \<Longrightarrow> 8 * k \<le> LENGTH('a::len) \<Longrightarrow> to_be k (of_be bs :: 'a word) = bs"
  by (simp add: to_be_def of_be_def to_le_of_le)

section \<open>Casts\<close>

lemma ucast_diff:
  "LENGTH('b) \<le> LENGTH('a) \<Longrightarrow> (ucast (a - b :: 'a::len word) :: 'b::len word) = ucast a - ucast b"
proof (transfer, goal_cases)
  case (1 a b)
  then show ?case
    by (simp add: take_bit_eq_mod) (metis le_imp_power_dvd mod_diff_eq mod_mod_cancel)
qed

lemma ucast_add:
  "LENGTH('b) \<le> LENGTH('a) \<Longrightarrow> (ucast (a + b :: 'a::len word) :: 'b::len word) = ucast a + ucast b"
proof (transfer, goal_cases)
  case (1 a b)
  then show ?case
    by (simp add: take_bit_eq_mod) (metis le_imp_power_dvd mod_add_eq mod_mod_cancel)
qed

lemma ucast_or: "(ucast (a OR b) :: 'b::len word) = ucast a OR ucast b"
  by (rule bit_eqI) (auto simp: bit_ucast_iff bit_or_iff)

lemma ucast_up_down:
  fixes w :: "'a::len word"
  assumes "LENGTH('a) \<le> LENGTH('b::len)"
  shows "(ucast (ucast w :: 'b word) :: 'a word) = w"
  by (rule bit_eqI) (use assms in \<open>auto simp: bit_ucast_iff\<close>)

lemma unat_ucast_less: "unat (ucast (w :: 'a::len word) :: 'b::len word) < 2 ^ LENGTH('a)"
  unfolding unsigned_ucast_eq
  by (rule le_less_trans [OF take_bit_nat_less_eq_self unsigned_less])

lemma bit_less_exp:
  fixes w :: "'a::len word"
  assumes "unat w < 2 ^ k" "bit w n"
  shows "n < k"
proof (rule ccontr)
  assume "\<not> n < k"
  moreover have "take_bit k (unat w) = unat w" using assms(1) by (rule take_bit_nat_eq_self)
  moreover have "bit (unat w) n" using assms(2) by (simp add: bit_unsigned_iff)
  ultimately show False by (metis bit_take_bit_iff)
qed

section \<open>Lists\<close>

lemma list_2_nth: "length xs = 2 \<Longrightarrow> xs = [xs ! 0, xs ! 1]"
  by (rule nth_equalityI) (auto simp: less_Suc_eq numeral_2_eq_2)

lemma list_3_nth: "length xs = 3 \<Longrightarrow> xs = [xs ! 0, xs ! 1, xs ! 2]"
  by (rule nth_equalityI) (auto simp: less_Suc_eq numeral_3_eq_3 numeral_2_eq_2)

lemma list_hd_mid_last:
  assumes "length xs = n + 2"
  shows "xs = xs ! 0 # take n (drop 1 xs) @ [xs ! (n + 1)]"
proof (rule nth_equalityI)
  fix i assume "i < length xs"
  then consider "i = 0" | "0 < i" "i < n + 1" | "i = n + 1"
    using assms by linarith
  then show "xs ! i = (xs ! 0 # take n (drop 1 xs) @ [xs ! (n + 1)]) ! i"
    by cases (use assms in \<open>auto simp: nth_Cons' nth_append\<close>)
qed (simp add: assms)

lemma find_append: "find P (xs @ ys) = (case find P xs of None \<Rightarrow> find P ys | Some x \<Rightarrow> Some x)"
  by (induction xs) auto

section \<open>Results\<close>

lemma map_sum_id_Inr [simp]: "map_sum id f x = Inr y \<longleftrightarrow> (\<exists>z. x = Inr z \<and> y = f z)"
  by (cases x) auto

lemma map_sum_id_Inl [simp]: "map_sum id f x = Inl e \<longleftrightarrow> x = Inl e"
  by (cases x) auto

text \<open>The operator \<open>?\<close>: an error ends the function.\<close>

definition bind_result :: "'e + 'a \<Rightarrow> ('a \<Rightarrow> 'e + 'b) \<Rightarrow> 'e + 'b" where
  "bind_result r f = (case r of Inl e \<Rightarrow> Inl e | Inr x \<Rightarrow> f x)"

lemma bind_result_Inr [simp]: "bind_result r f = Inr y \<longleftrightarrow> (\<exists>x. r = Inr x \<and> f x = Inr y)"
  by (simp add: bind_result_def split: sum.splits)

end
