(* ===== verification/Bytes_Codec.thy ===== *)
theory Bytes_Codec
  imports Prelude
begin

text \<open>
  The frame codec of every TCP connection (\<open>client/libs/hbb_common/src/bytes_codec.rs\<close>): a
  one- to four-byte little-endian header whose two low bits give the header's length and whose
  other bits give the payload's, then the payload. \<open>decode\<close> is called by the framing layer
  on a buffer that grows as bytes arrive; \<open>drain\<close> and \<open>feed\<close> are the calling pattern:
  decode until no item comes back, then wait for the next chunk.
\<close>

section \<open>Model\<close>

datatype codec_error = TooBigPacket | Overflow

datatype decode_state = Head | Data nat

record bytes_codec =
  bc_state :: decode_state
  bc_raw :: bool
  bc_max_packet_length :: nat

definition max_preallocated_payload_len :: nat where
  "max_preallocated_payload_len = 256 * 1024"

definition max_frame_length :: nat where
  "max_frame_length = 0x3FFFFFFF"

definition new_codec :: bytes_codec where
  "new_codec = \<lparr>bc_state = Head, bc_raw = False, bc_max_packet_length = 2 ^ 64 - 1\<rparr>"

definition codec_set_raw :: "bytes_codec \<Rightarrow> bytes_codec" where
  "codec_set_raw c = c\<lparr>bc_raw := True\<rparr>"

definition set_max_packet_length :: "nat \<Rightarrow> bytes_codec \<Rightarrow> bytes_codec" where
  "set_max_packet_length n c = c\<lparr>bc_max_packet_length := n\<rparr>"

text \<open>The header length and the payload length that the bytes at the front announce.\<close>

definition head_len :: "bytes \<Rightarrow> nat" where
  "head_len src = unat ((src ! 0 AND 3) + 1)"

definition head_value :: "bytes \<Rightarrow> usize" where
  "head_value src =
     (let n = ucast (src ! 0);
          n = (if head_len src > 1 then n OR push_bit 8 (ucast (src ! 1)) else n);
          n = (if head_len src > 2 then n OR push_bit 16 (ucast (src ! 2)) else n);
          n = (if head_len src > 3 then n OR push_bit 24 (ucast (src ! 3)) else n)
      in drop_bit 2 n)"

text \<open>\<open>decode_head\<close> returns the payload length and the extra capacity it reserves, with the
  rest of the buffer, or leaves the buffer alone.\<close>

definition decode_head :: "bytes_codec \<Rightarrow> bytes \<Rightarrow> codec_error + ((nat \<times> nat) option \<times> bytes)" where
  "decode_head c src =
     (if src = [] then Inr (None, src)
      else if length src < head_len src then Inr (None, src)
      else let n = unat (head_value src) in
        if n > bc_max_packet_length c then Inl TooBigPacket
        else let src' = drop (head_len src) src in
          Inr (Some (n, min (n - length src') max_preallocated_payload_len), src'))"

definition decode_data :: "nat \<Rightarrow> bytes \<Rightarrow> bytes option \<times> bytes" where
  "decode_data n src = (if length src < n then (None, src) else (Some (take n src), drop n src))"

definition decode_payload :: "bytes_codec \<Rightarrow> nat \<Rightarrow> bytes \<Rightarrow> bytes_codec \<times> bytes \<times> (codec_error + bytes option)" where
  "decode_payload c n src =
     (case decode_data n src of
        (Some data, rest) \<Rightarrow> (c\<lparr>bc_state := Head\<rparr>, rest, Inr (Some data))
      | (None, rest) \<Rightarrow> (c, rest, Inr None))"

definition decode :: "bytes_codec \<Rightarrow> bytes \<Rightarrow> bytes_codec \<times> bytes \<times> (codec_error + bytes option)" where
  "decode c src =
     (if bc_raw c then
        (if src \<noteq> [] then (c, [], Inr (Some src)) else (c, src, Inr None))
      else
        (case bc_state c of
           Head \<Rightarrow>
             (case decode_head c src of
                Inl e \<Rightarrow> (c, src, Inl e)
              | Inr (None, rest) \<Rightarrow> (c, rest, Inr None)
              | Inr (Some (n, _), rest) \<Rightarrow> decode_payload (c\<lparr>bc_state := Data n\<rparr>) n rest)
         | Data n \<Rightarrow> decode_payload c n src))"

definition encode :: "bytes_codec \<Rightarrow> bytes \<Rightarrow> bytes \<Rightarrow> codec_error + bytes" where
  "encode c data buf =
     (let len = of_nat (length data) :: usize in
      if bc_raw c then Inr (buf @ data)
      else if length data \<le> 0x3F then
        Inr (buf @ [ucast (push_bit 2 len)] @ data)
      else if length data \<le> 0x3FFF then
        Inr (buf @ to_le 2 ((ucast (push_bit 2 len) :: u16) OR 1) @ data)
      else if length data \<le> 0x3FFFFF then
        (let h = (ucast (push_bit 2 len) :: u32) OR 2
         in Inr (buf @ to_le 2 (ucast (h AND 0xFFFF) :: u16) @ [ucast (drop_bit 16 h)] @ data))
      else if length data \<le> max_frame_length then
        Inr (buf @ to_le 4 ((ucast (push_bit 2 len) :: u32) OR 3) @ data)
      else Inl Overflow)"

section \<open>Headers\<close>

text \<open>The four header layouts are one layout: \<open>k\<close> little-endian bytes of
  \<open>length << 2 | (k - 1)\<close>.\<close>

definition header_word :: "nat \<Rightarrow> nat \<Rightarrow> usize" where
  "header_word k len = push_bit 2 (of_nat len) OR of_nat (k - 1)"

definition header_size :: "nat \<Rightarrow> nat" where
  "header_size len = (if len \<le> 0x3F then 1 else if len \<le> 0x3FFF then 2
     else if len \<le> 0x3FFFFF then 3 else 4)"

definition header :: "nat \<Rightarrow> bytes" where
  "header len = to_le (header_size len) (header_word (header_size len) len)"

lemma header_size_range: "1 \<le> header_size len" "header_size len \<le> 4"
  by (simp_all add: header_size_def)

lemma length_header [simp]: "length (header len) = header_size len"
  by (simp add: header_def)

lemma to_le_1: "to_le (Suc 0) w = [ucast w]"
  by (simp add: to_le_def)

lemma to_le_2: "to_le 2 w = [ucast w, ucast (drop_bit 8 w)]"
  by (simp add: to_le_def eval_nat_numeral)

lemma to_le_3: "to_le 3 w = [ucast w, ucast (drop_bit 8 w), ucast (drop_bit 16 w)]"
  by (simp add: to_le_def eval_nat_numeral)

lemma to_le_4:
  "to_le 4 w = [ucast w, ucast (drop_bit 8 w), ucast (drop_bit 16 w), ucast (drop_bit 24 w)]"
  by (simp add: to_le_def eval_nat_numeral)

lemmas to_le_unfold = to_le_1 to_le_2 to_le_3 to_le_4

lemma to_le_ucast:
  fixes w :: "'a::len word"
  assumes "8 * k \<le> LENGTH('b::len)"
  shows "to_le k (ucast w :: 'b word) = to_le k w"
proof (rule nth_equalityI)
  fix i
  assume "i < length (to_le k (ucast w :: 'b word))"
  then have i: "i < k" by simp
  show "to_le k (ucast w :: 'b word) ! i = to_le k w ! i"
  proof (rule bit_eqI)
    fix n
    assume "possible_bit TYPE(8 word) n"
    then have "n < 8" by simp
    with i have "8 * i + n < 8 * k" by linarith
    with assms have "8 * i + n < LENGTH('b)" by linarith
    with i \<open>n < 8\<close> show "bit (to_le k (ucast w :: 'b word) ! i) n = bit (to_le k w ! i) n"
      by (simp add: bit_ucast_iff bit_drop_bit_eq)
  qed
qed simp

lemma header_3_bytes:
  fixes h :: u32
  shows "to_le 2 (ucast (h AND 0xFFFF) :: u16) @ [ucast (drop_bit 16 h)] = to_le 3 h"
proof -
  have mask: "h AND 0xFFFF = take_bit 16 h"
    by (simp add: take_bit_eq_mask mask_eq_exp_minus_1)
  have "(ucast (take_bit 16 h) :: u16) = ucast h"
    by (rule bit_eqI) (auto simp: bit_ucast_iff bit_take_bit_iff)
  moreover have "to_le 2 (ucast h :: u16) = to_le 2 h"
    by (rule to_le_ucast) simp
  ultimately show ?thesis
    unfolding mask by (simp add: to_le_2 to_le_3)
qed

lemma encode_header:
  assumes "\<not> bc_raw c" and "length data \<le> max_frame_length"
  shows "encode c data buf = Inr (buf @ header (length data) @ data)"
proof -
  let ?len = "of_nat (length data) :: usize"
  have h1: "[ucast (push_bit 2 ?len)] = to_le 1 (push_bit 2 ?len)"
    by (simp add: to_le_1)
  have h2: "to_le 2 ((ucast (push_bit 2 ?len) :: u16) OR 1) = to_le 2 (push_bit 2 ?len OR 1)"
    using to_le_ucast [where 'b = 16 and k = 2 and w = "push_bit 2 ?len OR 1"]
    by (simp add: ucast_or)
  have h3: "to_le 3 ((ucast (push_bit 2 ?len) :: u32) OR 2) = to_le 3 (push_bit 2 ?len OR 2)"
    using to_le_ucast [where 'b = 32 and k = 3 and w = "push_bit 2 ?len OR 2"]
    by (simp add: ucast_or)
  have h4: "to_le 4 ((ucast (push_bit 2 ?len) :: u32) OR 3) = to_le 4 (push_bit 2 ?len OR 3)"
    using to_le_ucast [where 'b = 32 and k = 4 and w = "push_bit 2 ?len OR 3"]
    by (simp add: ucast_or)
  consider "length data \<le> 0x3F" | "0x3F < length data" "length data \<le> 0x3FFF"
    | "0x3FFF < length data" "length data \<le> 0x3FFFFF"
    | "0x3FFFFF < length data" "length data \<le> max_frame_length"
    using assms(2) by linarith
  then show ?thesis
  proof cases
    case 1
    then show ?thesis using assms(1) h1
      by (simp add: encode_def header_def header_size_def header_word_def)
  next
    case 2
    then show ?thesis using assms(1) h2
      by (simp add: encode_def header_def header_size_def header_word_def Let_def)
  next
    case 3
    then show ?thesis using assms(1) h3
      by (simp add: encode_def header_def header_size_def header_word_def Let_def
          header_3_bytes [symmetric])
  next
    case 4
    then show ?thesis using assms(1) h4
      by (simp add: encode_def header_def header_size_def header_word_def Let_def)
  qed
qed


lemma header_low_bits:
  assumes "1 \<le> k" "k \<le> 4"
  shows "ucast (header_word k len) AND (3 :: u8) = of_nat (k - 1)"
proof -
  have "(3 :: u8) = mask 2" by (simp add: mask_eq_exp_minus_1)
  then have "ucast (header_word k len) AND (3 :: u8) = take_bit 2 (ucast (header_word k len) :: u8)"
    by (simp only: take_bit_eq_mask)
  also have "\<dots> = take_bit 2 (ucast (of_nat (k - 1) :: usize))"
    by (rule bit_eqI) (auto simp: header_word_def bit_take_bit_iff bit_ucast_iff bit_or_iff bit_push_bit_iff)
  also have "\<dots> = of_nat (k - 1)"
  proof -
    consider "k = 1" | "k = 2" | "k = 3" | "k = 4" using assms by linarith
    then show ?thesis by cases simp_all
  qed
  finally show ?thesis .
qed

lemma head_len_header [simp]: "head_len (header len @ rest) = header_size len"
proof -
  have k: "1 \<le> header_size len" "header_size len \<le> 4" by (rule header_size_range)+
  then have "(header len @ rest) ! 0 = ucast (header_word (header_size len) len)"
    by (simp add: header_def nth_append)
  then have "head_len (header len @ rest) = unat ((of_nat (header_size len - 1) :: u8) + 1)"
    by (simp add: head_len_def header_low_bits [OF k])
  also have "\<dots> = header_size len"
  proof -
    have "(of_nat (header_size len - 1) :: u8) + 1 = of_nat (header_size len)"
      using k(1) by (metis add.commute of_nat_1 of_nat_add ordered_cancel_comm_monoid_diff_class.add_diff_inverse)
    then show ?thesis using k by (simp add: unat_of_nat)
  qed
  finally show ?thesis .
qed

lemma head_len_range: "1 \<le> head_len src" "head_len src \<le> 4"
proof -
  have "unat (src ! 0 AND 3) \<le> unat (3 :: u8)"
    by (rule word_and_le1 [THEN word_le_nat_alt [THEN iffD1]])
  then have "unat (src ! 0 AND 3) \<le> 3" by simp
  then have "unat ((src ! 0 AND 3) + 1) = unat (src ! 0 AND 3) + 1"
    by (simp add: unat_word_ariths)
  then show "1 \<le> head_len src" "head_len src \<le> 4"
    using \<open>unat (src ! 0 AND 3) \<le> 3\<close> by (simp_all add: head_len_def)
qed

lemma head_value_of_le:
  assumes "head_len src \<le> length src"
  shows "head_value src = drop_bit 2 (of_le (take (head_len src) src))"
proof -
  consider "head_len src = 1" | "head_len src = 2" | "head_len src = 3" | "head_len src = 4"
    using head_len_range [of src] by linarith
  then show ?thesis
  proof cases
    case 1
    then show ?thesis using assms
      by (cases src) (auto simp: head_value_def)
  next
    case 2
    then show ?thesis using assms
      by (auto simp: head_value_def numeral_2_eq_2 Suc_le_length_iff)
  next
    case 3
    then show ?thesis using assms
      by (auto simp: head_value_def numeral_3_eq_3 Suc_le_length_iff push_bit_or or.assoc)
  next
    case 4
    then show ?thesis using assms
      by (auto simp: head_value_def eval_nat_numeral Suc_le_length_iff push_bit_or or.assoc)
  qed
qed


lemma header_value_bits:
  assumes "1 \<le> k" "k \<le> 4" "len < 2 ^ (8 * k - 2)"
  shows "drop_bit 2 (take_bit (8 * k) (header_word k len)) = of_nat len"
proof (rule bit_eqI)
  fix n
  assume "possible_bit TYPE(64 word) n"
  then have n: "n < 64" by simp
  have high: "\<not> bit (of_nat (k - 1) :: usize) (n + 2)"
  proof -
    have "k - 1 < 2 ^ 2" using assms(2) by simp
    then have "take_bit 2 (k - 1) = k - 1" by (rule take_bit_nat_eq_self)
    then have "bit (k - 1) (n + 2) = bit (take_bit 2 (k - 1)) (n + 2)" by simp
    then show ?thesis by (simp add: bit_take_bit_iff bit_of_nat_iff)
  qed
  have low: "n + 2 < 8 * k" if "bit len n"
  proof (rule ccontr)
    assume "\<not> n + 2 < 8 * k"
    then have "8 * k - 2 \<le> n" by linarith
    moreover have "take_bit (8 * k - 2) len = len" using assms(3) by (rule take_bit_nat_eq_self)
    ultimately show False using that by (metis bit_take_bit_iff not_less)
  qed
  show "bit (drop_bit 2 (take_bit (8 * k) (header_word k len))) n = bit (of_nat len :: usize) n"
    using n high low assms(2)
    by (auto simp: header_word_def bit_drop_bit_eq bit_take_bit_iff bit_or_iff bit_push_bit_iff
        bit_of_nat_iff add.commute)
qed

lemma header_size_fits:
  "len \<le> max_frame_length \<Longrightarrow> len < 2 ^ (8 * header_size len - 2)"
  by (auto simp: header_size_def max_frame_length_def)

lemma head_value_header [simp]:
  assumes "len \<le> max_frame_length"
  shows "head_value (header len @ rest) = of_nat len"
proof -
  let ?k = "header_size len"
  have "head_value (header len @ rest) = drop_bit 2 (of_le (header len))"
    by (simp add: head_value_of_le)
  also have "\<dots> = drop_bit 2 (take_bit (8 * ?k) (header_word ?k len))"
    by (simp add: header_def of_le_to_le)
  also have "\<dots> = of_nat len"
    by (rule header_value_bits [OF header_size_range header_size_fits [OF assms]])
  finally show ?thesis .
qed

lemma header_not_Nil [simp]: "header len \<noteq> []"
  using header_size_range(1) [of len] length_header [of len] by force

lemma decode_head_header:
  assumes "len \<le> max_frame_length" "len \<le> bc_max_packet_length c"
  shows "decode_head c (header len @ rest) =
    Inr (Some (len, min (len - length rest) max_preallocated_payload_len), rest)"
proof -
  have "unat (of_nat len :: usize) = len"
    using assms(1) by (simp add: unat_of_nat max_frame_length_def)
  then show ?thesis using assms by (simp add: decode_head_def Let_def)
qed

lemma decode_frame:
  assumes "\<not> bc_raw c" "bc_state c = Head"
    and "length data \<le> max_frame_length" "length data \<le> bc_max_packet_length c"
  shows "decode c (header (length data) @ data @ rest) = (c, rest, Inr (Some data))"
  using assms by (simp add: decode_def decode_head_header decode_payload_def decode_data_def)

section \<open>Driving the decoder\<close>

text \<open>What the framing layer does with the codec after each read: decode until no item is
  ready. The last component is the error that stopped it, if one did.\<close>

definition decode_measure :: "bytes_codec \<Rightarrow> bytes \<Rightarrow> nat" where
  "decode_measure c src = 2 * length src + (if bc_state c = Head then 0 else 1)"

lemma decode_progress:
  assumes "decode c src = (c', src', Inr (Some item))"
  shows "decode_measure c' src' < decode_measure c src"
  using assms head_len_range(1) [of src]
  by (auto simp: decode_measure_def decode_def decode_head_def decode_payload_def decode_data_def Let_def
      split: if_splits decode_state.splits sum.splits option.splits prod.splits)

function drain :: "bytes_codec \<Rightarrow> bytes \<Rightarrow> bytes_codec \<times> bytes \<times> bytes list \<times> codec_error option" where
  "drain c src =
     (case decode c src of
        (c', src', Inl e) \<Rightarrow> (c', src', [], Some e)
      | (c', src', Inr None) \<Rightarrow> (c', src', [], None)
      | (c', src', Inr (Some item)) \<Rightarrow>
          (case drain c' src' of (c'', src'', items, err) \<Rightarrow> (c'', src'', item # items, err)))"
  by pat_completeness auto
termination
  by (relation "measure (\<lambda>(c, src). decode_measure c src)") (auto intro: decode_progress [OF sym])

declare drain.simps [simp del]

text \<open>The chunks of a connection, in the order they arrive.\<close>

fun feed :: "bytes_codec \<Rightarrow> bytes \<Rightarrow> bytes list \<Rightarrow> bytes_codec \<times> bytes \<times> bytes list \<times> codec_error option" where
  "feed c buf [] = (c, buf, [], None)"
| "feed c buf (chunk # chunks) =
     (case drain c (buf @ chunk) of
        (c', buf', items, Some e) \<Rightarrow> (c', buf', items, Some e)
      | (c', buf', items, None) \<Rightarrow>
          (case feed c' buf' chunks of (c'', buf'', items', err) \<Rightarrow> (c'', buf'', items @ items', err)))"

text \<open>More bytes behind a buffer do not change an item or an error already found in it.\<close>

lemma decode_head_append:
  assumes "decode_head c src \<noteq> Inr (None, src)"
  shows "decode_head c (src @ ys) =
    (case decode_head c src of
       Inl e \<Rightarrow> Inl e
     | Inr (None, rest) \<Rightarrow> Inr (None, rest @ ys)
     | Inr (Some (n, _), rest) \<Rightarrow>
         Inr (Some (n, min (n - length (rest @ ys)) max_preallocated_payload_len), rest @ ys))"
proof -
  have ne: "src \<noteq> []" "head_len src \<le> length src"
    using assms by (auto simp: decode_head_def split: if_split_asm)
  have hl: "head_len (src @ ys) = head_len src"
    using ne(1) by (cases src) (simp_all add: head_len_def)
  have hv: "head_value (src @ ys) = head_value src"
    using ne(2) by (simp add: head_value_of_le hl)
  show ?thesis
    using ne by (simp add: decode_head_def hl hv Let_def)
qed

lemma decode_head_waits: "decode_head c src = Inr (None, rest) \<Longrightarrow> rest = src"
  by (auto simp: decode_head_def Let_def split: if_splits)

lemma decode_payload_append_item:
  "decode_payload c n src = (c', src', Inr (Some item)) \<Longrightarrow>
   decode_payload c n (src @ ys) = (c', src' @ ys, Inr (Some item))"
  by (auto simp: decode_payload_def decode_data_def split: if_splits)

lemma decode_payload_waits:
  "decode_payload c n src = (c', src', Inr None) \<Longrightarrow> c' = c \<and> src' = src"
  by (auto simp: decode_payload_def decode_data_def split: if_splits)

lemma decode_append_item:
  assumes "decode c src = (c', src', Inr (Some item))" "\<not> bc_raw c"
  shows "decode c (src @ ys) = (c', src' @ ys, Inr (Some item))"
proof (cases "bc_state c")
  case Head
  then obtain n r rest where h: "decode_head c src = Inr (Some (n, r), rest)"
    and p: "decode_payload (c\<lparr>bc_state := Data n\<rparr>) n rest = (c', src', Inr (Some item))"
    using assms by (auto simp: decode_def split: sum.splits option.splits prod.splits)
  have "decode_head c (src @ ys) =
      Inr (Some (n, min (n - length (rest @ ys)) max_preallocated_payload_len), rest @ ys)"
    using h by (simp add: decode_head_append)
  then show ?thesis
    using Head assms(2) decode_payload_append_item [OF p] by (simp add: decode_def)
next
  case (Data n)
  with assms show ?thesis by (simp add: decode_def decode_payload_append_item)
qed

text \<open>Where a frame is not complete yet, waiting for the rest is the same as having had it from
  the start.\<close>

lemma decode_append_wait:
  assumes "decode c src = (c', src', Inr None)" "\<not> bc_raw c"
  shows "decode c (src @ ys) = decode c' (src' @ ys)"
proof (cases "bc_state c")
  case Head
  show ?thesis
  proof (cases "decode_head c src = Inr (None, src)")
    case True
    with Head assms show ?thesis by (simp add: decode_def)
  next
    case False
    with Head assms obtain n r rest where h: "decode_head c src = Inr (Some (n, r), rest)"
      and p: "decode_payload (c\<lparr>bc_state := Data n\<rparr>) n rest = (c', src', Inr None)"
      by (auto simp: decode_def dest: decode_head_waits split: sum.splits option.splits prod.splits)
    have "decode_head c (src @ ys) =
        Inr (Some (n, min (n - length (rest @ ys)) max_preallocated_payload_len), rest @ ys)"
      using h by (simp add: decode_head_append)
    then show ?thesis
      using Head assms(2) decode_payload_waits [OF p] by (simp add: decode_def)
  qed
next
  case (Data n)
  with assms decode_payload_waits [of c n src c' src'] show ?thesis by (simp add: decode_def)
qed

lemma decode_raw_same: "decode c src = (c', src', r) \<Longrightarrow> bc_raw c' = bc_raw c"
  by (auto simp: decode_def decode_head_def decode_payload_def decode_data_def Let_def
      split: if_splits decode_state.splits sum.splits option.splits prod.splits)


lemma decode_append_error:
  assumes "decode c src = (c', src', Inl e)"
  shows "decode c (src @ ys) = (c', src' @ ys, Inl e)"
proof -
  from assms have st: "\<not> bc_raw c" "bc_state c = Head" and h: "decode_head c src = Inl e"
    and r: "c' = c" "src' = src"
    by (auto simp: decode_def decode_payload_def decode_data_def
        split: if_splits decode_state.splits sum.splits option.splits prod.splits)
  have "decode_head c (src @ ys) = Inl e"
    using h by (simp add: decode_head_append)
  then show ?thesis using st r by (simp add: decode_def)
qed

text \<open>Draining in two instalments is draining once.\<close>

lemma drain_append:
  assumes "drain c src = (c', src', items, None)" "\<not> bc_raw c"
  shows "drain c (src @ ys) =
    (case drain c' (src' @ ys) of (c'', src'', items', err) \<Rightarrow> (c'', src'', items @ items', err))"
  using assms
proof (induction c src arbitrary: c' src' items rule: drain.induct)
  case (1 c src)
  obtain c1 src1 r where d: "decode c src = (c1, src1, r)" by (cases "decode c src")
  show ?case
  proof (cases r)
    case (Inl e)
    with "1.prems" d show ?thesis by (simp add: drain.simps [of c src])
  next
    case r: (Inr o1)
    show ?thesis
    proof (cases o1)
      case None
      with r d "1.prems" have eq: "c' = c1" "src' = src1" "items = []"
        by (simp_all add: drain.simps [of c src])
      have "decode c (src @ ys) = decode c1 (src1 @ ys)"
        using d r None "1.prems"(2) by (intro decode_append_wait) simp_all
      then have "drain c (src @ ys) = drain c1 (src1 @ ys)"
        by (simp add: drain.simps [of c "src @ ys"] drain.simps [of c1 "src1 @ ys"])
      then show ?thesis by (simp add: eq split: prod.split)
    next
      case (Some item)
      with r d have d': "decode c src = (c1, src1, Inr (Some item))" by simp
      obtain items1 where dr: "drain c1 src1 = (c', src', items1, None)" and it: "items = item # items1"
        using "1.prems"(1) d' by (auto simp: drain.simps [of c src] split: prod.splits)
      have raw: "\<not> bc_raw c1" using decode_raw_same [OF d'] "1.prems"(2) by simp
      have "drain c1 (src1 @ ys) =
          (case drain c' (src' @ ys) of (c'', src'', items', err) \<Rightarrow> (c'', src'', items1 @ items', err))"
        using "1.IH" [OF d' [symmetric] refl refl refl dr raw] .
      then show ?thesis
        using decode_append_item [OF d' "1.prems"(2)]
        by (simp add: drain.simps [of c "src @ ys"] it split: prod.split)
    qed
  qed
qed

lemma drain_append_error:
  assumes "drain c src = (c', src', items, Some e)" "\<not> bc_raw c"
  shows "drain c (src @ ys) = (c', src' @ ys, items, Some e)"
  using assms
proof (induction c src arbitrary: c' src' items rule: drain.induct)
  case (1 c src)
  obtain c1 src1 r where d: "decode c src = (c1, src1, r)" by (cases "decode c src")
  show ?case
  proof (cases r)
    case (Inl e')
    with "1.prems" d show ?thesis
      using decode_append_error [of c src c1 src1 e' ys]
      by (simp add: drain.simps [of c src] drain.simps [of c "src @ ys"])
  next
    case r: (Inr o1)
    show ?thesis
    proof (cases o1)
      case None
      with r d "1.prems" show ?thesis by (simp add: drain.simps [of c src])
    next
      case (Some item)
      with r d have d': "decode c src = (c1, src1, Inr (Some item))" by simp
      obtain items1 where dr: "drain c1 src1 = (c', src', items1, Some e)" and it: "items = item # items1"
        using "1.prems"(1) d' by (auto simp: drain.simps [of c src] split: prod.splits)
      have raw: "\<not> bc_raw c1" using decode_raw_same [OF d'] "1.prems"(2) by simp
      show ?thesis
        using "1.IH" [OF d' [symmetric] refl refl refl dr raw] decode_append_item [OF d' "1.prems"(2)]
        by (simp add: drain.simps [of c "src @ ys"] it)
    qed
  qed
qed


lemma drain_idem:
  assumes "drain c src = (c', src', items, None)" "\<not> bc_raw c"
  shows "drain c' src' = (c', src', [], None)"
  using drain_append [OF assms, of "[]"] assms(1) by (auto split: prod.splits)

lemma drain_raw_same: "drain c src = (c', src', items, err) \<Longrightarrow> bc_raw c' = bc_raw c"
proof (induction c src arbitrary: c' src' items err rule: drain.induct)
  case (1 c src)
  obtain c1 src1 r where d: "decode c src = (c1, src1, r)" by (cases "decode c src")
  have raw: "bc_raw c1 = bc_raw c" using d by (rule decode_raw_same)
  consider (stop) "c' = c1" | (item) x s2 i2 where "r = Inr (Some x)" "drain c1 src1 = (c', s2, i2, err)"
    using "1.prems" d
    by (cases r) (auto simp: drain.simps [of c src] split: option.splits prod.splits)
  then show ?case
  proof cases
    case stop
    with raw show ?thesis by simp
  next
    case item
    then show ?thesis using "1.IH" [OF d [symmetric] refl item(1)] raw by simp
  qed
qed

lemma feed_drain:
  assumes "drain c buf = (c, buf, [], None)" "\<not> bc_raw c"
    and "drain c (buf @ concat chunks) = (c', buf', items, None)"
  shows "feed c buf chunks = (c', buf', items, None)"
  using assms
proof (induction chunks arbitrary: c buf items)
  case Nil
  then show ?case by simp
next
  case (Cons chunk chunks)
  obtain c1 b1 i1 e1 where d: "drain c (buf @ chunk) = (c1, b1, i1, e1)"
    by (cases "drain c (buf @ chunk)")
  have "e1 = None"
    using drain_append_error [of c "buf @ chunk" c1 b1 i1 _ "concat chunks"] d Cons.prems(2,3)
    by (cases e1) auto
  with d have d': "drain c (buf @ chunk) = (c1, b1, i1, None)" by simp
  obtain i2 where d2: "drain c1 (b1 @ concat chunks) = (c', buf', i2, None)" and i: "items = i1 @ i2"
    using drain_append [OF d' Cons.prems(2), of "concat chunks"] Cons.prems(3)
    by (auto split: prod.splits)
  have "feed c1 b1 chunks = (c', buf', i2, None)"
    by (rule Cons.IH [OF drain_idem [OF d' Cons.prems(2)] _ d2])
      (use drain_raw_same [OF d'] Cons.prems(2) in simp)
  then show ?case by (simp add: d' i)
qed

text \<open>The bytes a sender puts on the wire for a list of frames.\<close>

fun encode_frames :: "bytes_codec \<Rightarrow> bytes list \<Rightarrow> bytes \<Rightarrow> codec_error + bytes" where
  "encode_frames c [] buf = Inr buf"
| "encode_frames c (f # fs) buf =
     (case encode c f buf of Inl e \<Rightarrow> Inl e | Inr buf' \<Rightarrow> encode_frames c fs buf')"

lemma encode_frames_wire:
  assumes "\<not> bc_raw c" "\<forall>f \<in> set fs. length f \<le> max_frame_length"
  shows "encode_frames c fs buf = Inr (buf @ concat (map (\<lambda>f. header (length f) @ f) fs))"
  using assms by (induction fs arbitrary: buf) (simp_all add: encode_header)

lemma drain_item:
  "decode c src = (c', src', Inr (Some item)) \<Longrightarrow> drain c' src' = (c'', src'', items, err) \<Longrightarrow>
   drain c src = (c'', src'', item # items, err)"
  by (subst drain.simps) simp

lemma drain_wait: "decode c src = (c', src', Inr None) \<Longrightarrow> drain c src = (c', src', [], None)"
  by (subst drain.simps) simp

lemma drain_wire:
  assumes "\<not> bc_raw c" "bc_state c = Head"
    and "\<forall>f \<in> set fs. length f \<le> max_frame_length \<and> length f \<le> bc_max_packet_length c"
  shows "drain c (concat (map (\<lambda>f. header (length f) @ f) fs)) = (c, [], fs, None)"
  using assms(3)
proof (induction fs)
  case Nil
  have "decode c [] = (c, [], Inr None)"
    using assms(1,2) by (simp add: decode_def decode_head_def)
  then show ?case by (simp add: drain_wait)
next
  case (Cons f fs)
  let ?w = "concat (map (\<lambda>f. header (length f) @ f) fs)"
  have "decode c (header (length f) @ f @ ?w) = (c, ?w, Inr (Some f))"
    using Cons.prems assms(1,2) by (intro decode_frame) simp_all
  then have "drain c (header (length f) @ f @ ?w) = (c, [], f # fs, None)"
    by (rule drain_item) (use Cons in simp)
  then show ?case by simp
qed

section \<open>Properties\<close>

text \<open>C10. The codec delivers exactly what was sent. Whatever a sender encodes, and however the
  network cuts the bytes into chunks, the receiver's codec hands out the same frames in the same
  order, keeps no byte back, reports no error and ends ready for the next header. The frames have
  to fit the four-byte header and the receiver's limit.\<close>

theorem codec_stream_roundtrip:
  assumes "\<not> bc_raw tx" "\<not> bc_raw rx" "bc_state rx = Head"
    and "\<forall>f \<in> set frames. length f \<le> max_frame_length \<and> length f \<le> bc_max_packet_length rx"
    and "encode_frames tx frames [] = Inr wire"
    and "concat chunks = wire"
  shows "feed rx [] chunks = (rx, [], frames, None)"
proof -
  have "wire = concat (map (\<lambda>f. header (length f) @ f) frames)"
    using assms(1,4,5) by (simp add: encode_frames_wire)
  then have "drain rx ([] @ concat chunks) = (rx, [], frames, None)"
    using assms(2,3,4,6) by (simp add: drain_wire)
  moreover have "drain rx [] = (rx, [], [], None)"
    using assms(2,3) drain_wire [of rx "[]"] by simp
  ultimately show ?thesis
    using assms(2) by (intro feed_drain)
qed

theorem codec_stream_roundtrip_witness:
  "feed new_codec [] [[8, 7], [], [9, 0]] = (new_codec, [], [[7, 9], []], None)"
  by (rule codec_stream_roundtrip [where tx = new_codec and wire = "[8, 7, 9, 0]"])
    (simp_all add: new_codec_def max_frame_length_def encode_def)

text \<open>An untrusted header cannot make the receiver allocate. Where a header is accepted, the
  announced length is within the receiver's limit, the capacity reserved ahead of the payload is
  at most 256 KiB, and one to four bytes have been consumed; a larger announcement is an error
  that leaves the buffer as it was, whatever bytes follow it.\<close>

theorem decode_head_bounds:
  "(case decode_head c src of
      Inl e \<Rightarrow> (\<forall>ys. bc_state c = Head \<and> \<not> bc_raw c \<longrightarrow>
                 decode c (src @ ys) = (c, src @ ys, Inl TooBigPacket))
    | Inr (None, rest) \<Rightarrow> rest = src \<and> length src < 4
    | Inr (Some (n, reserve), rest) \<Rightarrow>
        n \<le> bc_max_packet_length c \<and> reserve \<le> 262144 \<and>
        length src - length rest \<in> {1..4} \<and> rest = drop (length src - length rest) src)"
proof (cases "decode_head c src")
  case (Inl e)
  then have e: "e = TooBigPacket" by (auto simp: decode_head_def Let_def split: if_splits)
  have "decode_head c (src @ ys) = Inl TooBigPacket" for ys
    using decode_head_append [of c src ys] Inl e by simp
  then show ?thesis using Inl by (simp add: decode_def)
next
  case (Inr p)
  then show ?thesis
    using head_len_range [of src]
    by (auto simp: decode_head_def Let_def max_preallocated_payload_len_def split: if_splits)
qed

theorem decode_head_bounds_witness:
  "decode (set_max_packet_length 1 new_codec) ([8] @ [1, 2]) =
     (set_max_packet_length 1 new_codec, [8, 1, 2], Inl TooBigPacket)"
proof -
  have "decode_head (set_max_packet_length 1 new_codec) [8] = Inl TooBigPacket"
    by (simp add: decode_head_def head_len_def head_value_def set_max_packet_length_def new_codec_def)
  then show ?thesis
    using decode_head_bounds [of "set_max_packet_length 1 new_codec" "[8]"]
    by (simp add: set_max_packet_length_def new_codec_def)
qed

end
