(* ===== verification/Net_Addr.thy ===== *)
theory Net_Addr
  imports Prelude
begin

text \<open>
  Addresses: the part of \<open>std::net\<close> the sources use, \<open>try_into_v4\<close> and
  \<open>AddrMangle\<close> (\<open>server/libs/hbb_common/src/lib.rs\<close>). An IPv4 address is the
  32-bit number \<open>u32::from(ip)\<close> and an IPv6 address the 128-bit \<open>u128::from(ip)\<close>, so that
  the octets are their big-endian bytes. A socket address of the V6 family carries its flow label
  and its scope id, as \<open>SocketAddrV6\<close> does, and they take part in equality.
\<close>

section \<open>Addresses\<close>

datatype ip_addr = IpV4 u32 | IpV6 u128

datatype socket_addr = SockV4 u32 u16 | SockV6 u128 u16 u32 u32

fun sa_ip :: "socket_addr \<Rightarrow> ip_addr" where
  "sa_ip (SockV4 a _) = IpV4 a"
| "sa_ip (SockV6 a _ _ _) = IpV6 a"

fun sa_port :: "socket_addr \<Rightarrow> u16" where
  "sa_port (SockV4 _ p) = p"
| "sa_port (SockV6 _ p _ _) = p"

fun new_socket_addr :: "ip_addr \<Rightarrow> u16 \<Rightarrow> socket_addr" where
  "new_socket_addr (IpV4 a) p = SockV4 a p"
| "new_socket_addr (IpV6 a) p = SockV6 a p 0 0"

definition ipv4_octets :: "u32 \<Rightarrow> bytes" where
  "ipv4_octets a = to_be 4 a"

definition ipv6_octets :: "u128 \<Rightarrow> bytes" where
  "ipv6_octets a = to_be 16 a"

fun is_loopback :: "ip_addr \<Rightarrow> bool" where
  "is_loopback (IpV4 a) \<longleftrightarrow> drop_bit 24 a = 127"
| "is_loopback (IpV6 a) \<longleftrightarrow> a = 1"

fun is_unspecified :: "ip_addr \<Rightarrow> bool" where
  "is_unspecified (IpV4 a) \<longleftrightarrow> a = 0"
| "is_unspecified (IpV6 a) \<longleftrightarrow> a = 0"

text \<open>\<open>Ipv6Addr::to_ipv4\<close>: the IPv4-compatible and the IPv4-mapped addresses.\<close>

definition to_ipv4 :: "u128 \<Rightarrow> u32 option" where
  "to_ipv4 a = (if drop_bit 32 a = 0 \<or> drop_bit 32 a = 0xFFFF then Some (ucast a) else None)"

definition localhost_v4 :: ip_addr where
  "localhost_v4 = IpV4 0x7F000001"

definition get_any_listen_addr :: "bool \<Rightarrow> socket_addr" where
  "get_any_listen_addr is_ipv4 =
     (if is_ipv4 then new_socket_addr (IpV4 0) 0 else new_socket_addr (IpV6 0) 0)"

fun try_into_v4 :: "socket_addr \<Rightarrow> socket_addr" where
  "try_into_v4 (SockV6 a p fl sc) =
     (if \<not> is_loopback (IpV6 a) then
        (case to_ipv4 a of Some v4 \<Rightarrow> SockV4 v4 p | None \<Rightarrow> SockV6 a p fl sc)
      else SockV6 a p fl sc)"
| "try_into_v4 (SockV4 a p) = SockV4 a p"

lemma try_into_v4_idem [simp]: "try_into_v4 (try_into_v4 a) = try_into_v4 a"
  by (cases a) (auto split: option.split)

lemma sa_port_try_into_v4 [simp]: "sa_port (try_into_v4 a) = sa_port a"
  by (cases a) (auto split: option.split)

section \<open>AddrMangle\<close>

text \<open>The clock enters as \<open>tm\<close>, the microseconds since the epoch truncated to 32 bits.\<close>

definition mangle_v4 :: "u32 \<Rightarrow> u32 \<Rightarrow> u16 \<Rightarrow> u128" where
  "mangle_v4 tm a p =
     (let tm = ucast tm :: u128;
          ip = ucast (of_le (ipv4_octets a) :: u32) :: u128;
          port = ucast p :: u128
      in push_bit 49 (ip + tm) OR push_bit 17 tm OR (port + (tm AND 0xFFFF)))"

definition strip_padding :: "bytes \<Rightarrow> bytes" where
  "strip_padding bs = take (length bs - length (takeWhile (\<lambda>b. b = 0) (rev bs))) bs"

definition addr_mangle_encode :: "u32 \<Rightarrow> socket_addr \<Rightarrow> bytes" where
  "addr_mangle_encode tm addr =
     (case try_into_v4 addr of
        SockV4 a p \<Rightarrow> strip_padding (to_le 16 (mangle_v4 tm a p))
      | SockV6 a p _ _ \<Rightarrow> ipv6_octets a @ to_le 2 p)"

text \<open>The two subtractions of \<open>decode\<close> wrap in the release profile. With overflow checks
  (the dev and test profiles) an underflow panics: \<open>decode_overflows\<close> says where.\<close>

definition decode_number :: "bytes \<Rightarrow> u128" where
  "decode_number bs = of_le (bs @ replicate (16 - length bs) 0)"

definition decode_tm :: "u128 \<Rightarrow> u128" where
  "decode_tm number = drop_bit 17 number AND 0xFFFFFFFF"

definition addr_mangle_decode :: "bytes \<Rightarrow> socket_addr" where
  "addr_mangle_decode bs =
     (if length bs > 16 then
        (if length bs \<noteq> 18 then get_any_listen_addr False
         else new_socket_addr (IpV6 (of_be (take 16 bs))) (of_le (drop 16 bs)))
      else
        (let number = decode_number bs;
             tm = decode_tm number;
             ip = to_le 4 (ucast (drop_bit 49 number - tm) :: u32);
             port = (number AND 0xFFFFFF) - (tm AND 0xFFFF)
         in SockV4 (of_be ip) (ucast port)))"

definition decode_overflows :: "bytes \<Rightarrow> bool" where
  "decode_overflows bs \<longleftrightarrow> length bs \<le> 16 \<and>
     (let number = decode_number bs; tm = decode_tm number
      in drop_bit 49 number < tm \<or> (number AND 0xFFFFFF) < (tm AND 0xFFFF))"

section \<open>The mangled number\<close>

lemma and_mask_u128:
  "(x :: u128) AND 0xFFFF = take_bit 16 x"
  "(x :: u128) AND 0xFFFFFF = take_bit 24 x"
  "(x :: u128) AND 0xFFFFFFFF = take_bit 32 x"
  by (simp_all add: take_bit_eq_mask mask_eq_exp_minus_1)

lemma mangle_fields:
  fixes S T P :: u128
  assumes "unat S < 2 ^ 33" "unat T < 2 ^ 32" "unat P < 2 ^ 17"
  defines "v \<equiv> push_bit 49 S OR push_bit 17 T OR P"
  shows "drop_bit 49 v = S" "take_bit 32 (drop_bit 17 v) = T" "take_bit 16 v = take_bit 16 P"
    "unat P \<le> unat (take_bit 24 v)"
proof -
  note S = bit_less_exp [OF assms(1)] and T = bit_less_exp [OF assms(2)]
    and P = bit_less_exp [OF assms(3)]
  show "drop_bit 49 v = S"
    by (rule bit_eqI)
      (auto simp: v_def bit_drop_bit_eq bit_or_iff bit_push_bit_iff dest: S T P)
  show "take_bit 32 (drop_bit 17 v) = T"
    by (rule bit_eqI)
      (auto simp: v_def bit_take_bit_iff bit_drop_bit_eq bit_or_iff bit_push_bit_iff dest: S T P)
  show "take_bit 16 v = take_bit 16 P"
    by (rule bit_eqI) (auto simp: v_def bit_take_bit_iff bit_or_iff bit_push_bit_iff)
  have "P AND take_bit 24 v = P"
    by (rule bit_eqI) (auto simp: v_def bit_and_iff bit_take_bit_iff bit_or_iff dest: P)
  then show "unat P \<le> unat (take_bit 24 v)"
    by (metis word_and_le1 word_le_nat_alt)
qed


lemma strip_padding_pad:
  "strip_padding bs @ replicate (length bs - length (strip_padding bs)) 0 = bs"
proof -
  let ?z = "takeWhile (\<lambda>b. b = 0) (rev bs)" and ?d = "dropWhile (\<lambda>b. b = 0) (rev bs)"
  have z: "rev ?z = replicate (length ?z) 0"
    by (metis (mono_tags, lifting) length_rev replicate_length_same rev_replicate set_rev set_takeWhileD)
  have bs: "bs = rev ?d @ rev ?z"
    by (metis rev_append rev_rev_ident takeWhile_dropWhile_id)
  then have len: "length bs = length ?d + length ?z"
    by (metis length_append length_rev)
  have "strip_padding bs = rev ?d"
    unfolding strip_padding_def
    using bs len by (metis add_diff_cancel_right' append_eq_conv_conj length_rev)
  then show ?thesis using bs len z by simp
qed

lemma length_strip_padding: "length (strip_padding bs) \<le> length bs"
  by (simp add: strip_padding_def)

lemma decode_number_strip: "decode_number (strip_padding (to_le 16 v)) = v"
proof -
  have "strip_padding (to_le 16 v) @ replicate (16 - length (strip_padding (to_le 16 v))) 0 = to_le 16 v"
    using strip_padding_pad [of "to_le 16 v"] by simp
  then show ?thesis by (simp add: decode_number_def of_le_to_le_full)
qed

lemma mangle_v4_parts:
  fixes tm a :: u32 and p :: u16
  defines "T \<equiv> (ucast tm :: u128)" and "I \<equiv> (ucast (of_le (ipv4_octets a) :: u32) :: u128)"
  defines "P \<equiv> (ucast p :: u128) + (T AND 0xFFFF)"
  shows "drop_bit 49 (mangle_v4 tm a p) = I + T"
    "decode_tm (mangle_v4 tm a p) = T"
    "take_bit 16 (mangle_v4 tm a p) = take_bit 16 P"
    "unat P \<le> unat (mangle_v4 tm a p AND 0xFFFFFF)"
    "unat I + unat T < 2 ^ 33" "unat (ucast p :: u128) + unat (T AND 0xFFFF) < 2 ^ 17"
proof -
  have T: "unat T < 2 ^ 32" and I: "unat I < 2 ^ 32"
    unfolding T_def I_def using unat_ucast_less [where 'a = 32 and 'b = 128] by simp_all
  have p: "unat (ucast p :: u128) < 2 ^ 16"
    using unat_ucast_less [where 'a = 16 and 'b = 128] by simp
  have t: "unat (T AND 0xFFFF) < 2 ^ 16"
    by (simp only: and_mask_u128 unsigned_take_bit_eq take_bit_nat_less_exp)
  show IT: "unat I + unat T < 2 ^ 33" using T I by simp
  show pt: "unat (ucast p :: u128) + unat (T AND 0xFFFF) < 2 ^ 17" using p t by simp
  have S': "unat (I + T) < 2 ^ 33" using IT by (simp add: unat_word_ariths)
  have P': "unat P < 2 ^ 17" using pt by (simp add: P_def unat_word_ariths)
  have v: "mangle_v4 tm a p = push_bit 49 (I + T) OR push_bit 17 T OR P"
    by (simp add: mangle_v4_def T_def I_def P_def Let_def)
  note F = mangle_fields [OF S' T P', folded v]
  show "drop_bit 49 (mangle_v4 tm a p) = I + T" by (rule F(1))
  show "decode_tm (mangle_v4 tm a p) = T" using F(2) by (simp only: decode_tm_def and_mask_u128)
  show "take_bit 16 (mangle_v4 tm a p) = take_bit 16 P" by (rule F(3))
  show "unat P \<le> unat (mangle_v4 tm a p AND 0xFFFFFF)" using F(4) by (simp only: and_mask_u128)
qed


lemma decode_v4:
  "addr_mangle_decode (strip_padding (to_le 16 (mangle_v4 tm a p))) = SockV4 a p"
  "\<not> decode_overflows (strip_padding (to_le 16 (mangle_v4 tm a p)))"
proof -
  let ?v = "mangle_v4 tm a p" and ?T = "ucast tm :: u128"
  let ?I = "ucast (of_le (ipv4_octets a) :: u32) :: u128"
  let ?P = "(ucast p :: u128) + (?T AND 0xFFFF)"
  note parts = mangle_v4_parts(1-4) [where tm = tm and a = a and p = p]
    mangle_v4_parts(5) [where tm = tm and a = a] mangle_v4_parts(6) [where tm = tm and p = p]
  have len: "length (strip_padding (to_le 16 ?v)) \<le> 16"
    using length_strip_padding [of "to_le 16 ?v"] by simp
  have ip: "of_be (to_le 4 (ucast (drop_bit 49 ?v - decode_tm ?v) :: u32)) = a"
    unfolding parts(1,2)
    by (simp add: ucast_up_down to_le_of_le ipv4_octets_def of_be_to_be_full)
  have port: "(ucast ((?v AND 0xFFFFFF) - (?T AND 0xFFFF)) :: u16) = p"
  proof -
    have "(ucast (?v AND 0xFFFFFF) :: u16) = ucast (take_bit 16 ?v)"
      unfolding and_mask_u128
      by (rule bit_eqI) (auto simp: bit_ucast_iff bit_take_bit_iff)
    also have "\<dots> = ucast ?P"
      unfolding parts(3) by (rule bit_eqI) (auto simp: bit_ucast_iff bit_take_bit_iff)
    finally show ?thesis by (simp add: ucast_diff ucast_add ucast_up_down)
  qed
  show "addr_mangle_decode (strip_padding (to_le 16 ?v)) = SockV4 a p"
    using len ip port
    by (simp add: addr_mangle_decode_def decode_number_strip Let_def parts(2))
  have "unat (drop_bit 49 ?v) \<ge> unat ?T"
    unfolding parts(1) using parts(5) by (simp add: unat_word_ariths)
  moreover have "unat (?T AND 0xFFFF) \<le> unat ?P"
    using parts(6) by (simp add: unat_word_ariths)
  ultimately show "\<not> decode_overflows (strip_padding (to_le 16 ?v))"
    using parts(4) by (simp add: decode_overflows_def decode_number_strip Let_def parts(2) word_less_nat_alt)
qed

lemma decode_v6:
  "addr_mangle_decode (ipv6_octets a @ to_le 2 p) = SockV6 a p 0 0"
  by (simp add: addr_mangle_decode_def ipv6_octets_def of_be_to_be_full of_le_to_le_full)

lemma decode_encode:
  "addr_mangle_decode (addr_mangle_encode tm addr) =
     (case try_into_v4 addr of SockV4 a p \<Rightarrow> SockV4 a p | SockV6 a p _ _ \<Rightarrow> SockV6 a p 0 0)"
  using decode_v4(1) decode_v6 by (cases "try_into_v4 addr") (simp_all add: addr_mangle_encode_def)

text \<open>Addresses without flow label and scope id, and what is left of the others.\<close>

fun unscoped :: "socket_addr \<Rightarrow> bool" where
  "unscoped (SockV4 _ _) \<longleftrightarrow> True"
| "unscoped (SockV6 _ _ fl sc) \<longleftrightarrow> fl = 0 \<and> sc = 0"

lemma decode_encode_unscoped:
  assumes "unscoped addr"
  shows "addr_mangle_decode (addr_mangle_encode tm addr) = try_into_v4 addr"
  using assms by (cases addr) (auto simp: decode_encode split: option.splits)

section \<open>Properties\<close>

text \<open>C34. Mangling an address loses nothing that it should keep. Decoding the mangled form, at
  whatever time it was made, gives back the address with its port, a V6 address that embeds an
  IPv4 one as that IPv4 address, and a V6 address without its flow label and scope id. This includes
  the V6 loopback address, although a comment in \<open>encode\<close> says that it does not work with it. The form
  is at most 18 bytes long and the subtractions of the decoder do not underflow on it, so the
  result is the same in a build with overflow checks.\<close>

theorem addr_mangle_roundtrip:
  "addr_mangle_decode (addr_mangle_encode tm addr) =
     (case try_into_v4 addr of SockV4 a p \<Rightarrow> SockV4 a p | SockV6 a p _ _ \<Rightarrow> SockV6 a p 0 0)
   \<and> length (addr_mangle_encode tm addr) \<le> 18
   \<and> \<not> decode_overflows (addr_mangle_encode tm addr)"
proof (cases "try_into_v4 addr")
  case (SockV4 a p)
  then show ?thesis
    using decode_v4(2) [of tm a p] decode_encode [of tm addr] length_strip_padding [of "to_le 16 (mangle_v4 tm a p)"]
    by (simp add: addr_mangle_encode_def)
next
  case (SockV6 a p fl sc)
  then show ?thesis
    using decode_encode [of tm addr]
    by (simp add: addr_mangle_encode_def decode_overflows_def ipv6_octets_def)
qed

end
