(* ===== verification/Rust_Str.thy ===== *)
theory Rust_Str
  imports Net_Addr
begin

text \<open>
  The string operations of the Rust standard library that the sources call: \<open>trim\<close>,
  \<open>split\<close>, \<open>rsplit_once\<close>, case mapping, integer parsing and printing, and the parsers and
  printers of \<open>std::net\<close>. Strings are byte strings; white space and case mapping are those of
  ASCII, which is what the protocol, the environment variables and the console carry.
\<close>

section \<open>Splitting and trimming\<close>

definition is_space :: "char \<Rightarrow> bool" where
  "is_space c \<longleftrightarrow> of_char c \<in> {9, 10, 11, 12, 13, 32 :: nat}"

definition str_trim :: "string \<Rightarrow> string" where
  "str_trim s = rev (dropWhile is_space (rev (dropWhile is_space s)))"

text \<open>\<open>s.split(c)\<close>: never empty, and the separators are dropped.\<close>

fun split_on :: "char \<Rightarrow> string \<Rightarrow> string list" where
  "split_on c [] = [[]]"
| "split_on c (x # xs) =
     (if x = c then [] # split_on c xs
      else (case split_on c xs of [] \<Rightarrow> [[x]] | y # ys \<Rightarrow> (x # y) # ys))"

fun join_with :: "char \<Rightarrow> string list \<Rightarrow> string" where
  "join_with c [] = []"
| "join_with c [x] = x"
| "join_with c (x # y # ys) = x @ c # join_with c (y # ys)"

definition as_bytes :: "string \<Rightarrow> bytes" where
  "as_bytes s = map of_char s"

lemma unat_of_char: "unat (of_char c :: u8) = of_char c"
proof -
  have "unat (of_nat (of_char c) :: u8) = of_char c"
    using nat_of_char_less_256 [of c] by (simp only: unat_of_nat) (simp add: take_bit_nat_eq_self)
  moreover have "of_nat (of_char c) = (of_char c :: u8)" by (rule of_nat_of_char)
  ultimately show ?thesis by simp
qed

lemma as_bytes_eq_iff: "as_bytes s = as_bytes t \<longleftrightarrow> s = t"
proof -
  have "inj (of_char :: char \<Rightarrow> u8)"
  proof (rule injI)
    fix c d
    assume "(of_char c :: u8) = of_char d"
    then have "(of_char c :: nat) = of_char d" by (simp only: unat_of_char [symmetric])
    then show "c = d" by simp
  qed
  then show ?thesis by (simp add: as_bytes_def inj_map_eq_map)
qed

definition rsplit_once :: "char \<Rightarrow> string \<Rightarrow> (string \<times> string) option" where
  "rsplit_once c s =
     (if c \<in> set s then
        Some (rev (tl (dropWhile (\<lambda>x. x \<noteq> c) (rev s))), rev (takeWhile (\<lambda>x. x \<noteq> c) (rev s)))
      else None)"

definition trim_matches :: "char set \<Rightarrow> string \<Rightarrow> string" where
  "trim_matches cs s = rev (dropWhile (\<lambda>c. c \<in> cs) (rev (dropWhile (\<lambda>c. c \<in> cs) s)))"

definition upper_char :: "char \<Rightarrow> char" where
  "upper_char c = (let n = of_char c :: nat in if 97 \<le> n \<and> n \<le> 122 then char_of (n - 32) else c)"

definition lower_char :: "char \<Rightarrow> char" where
  "lower_char c = (let n = of_char c :: nat in if 65 \<le> n \<and> n \<le> 90 then char_of (n + 32) else c)"

definition to_uppercase :: "string \<Rightarrow> string" where
  "to_uppercase = map upper_char"

definition to_lowercase :: "string \<Rightarrow> string" where
  "to_lowercase = map lower_char"

definition replace_char :: "char \<Rightarrow> char \<Rightarrow> string \<Rightarrow> string" where
  "replace_char a b = map (\<lambda>c. if c = a then b else c)"

lemma split_on_not_Nil [simp]: "split_on c s \<noteq> []"
  by (cases s) (auto split: list.split)

lemma split_on_no_sep: "x \<in> set (split_on c s) \<Longrightarrow> c \<notin> set x"
proof (induction s arbitrary: x)
  case Nil
  then show ?case by simp
next
  case (Cons a s)
  then show ?case by (cases "split_on c s") (auto split: if_splits)
qed

lemma join_split: "join_with c (split_on c s) = s"
proof (induction s)
  case Nil
  then show ?case by simp
next
  case (Cons a s)
  then show ?case
    by (cases "split_on c s"; cases "tl (split_on c s)") auto
qed

lemma split_on_absent: "c \<notin> set s \<Longrightarrow> split_on c s = [s]"
  by (induction s) auto

lemma split_on_append:
  "c \<notin> set s \<Longrightarrow> split_on c (s @ c # t) = s # split_on c t"
  by (induction s) auto

lemma split_join:
  assumes "xs \<noteq> []" "\<forall>x \<in> set xs. c \<notin> set x"
  shows "split_on c (join_with c xs) = xs"
  using assms
  by (induction c xs rule: join_with.induct) (auto simp: split_on_absent split_on_append)

lemma rsplit_once_join:
  "rsplit_once c s = Some (a, b) \<Longrightarrow> s = a @ c # b \<and> c \<notin> set b"
proof -
  assume r: "rsplit_once c s = Some (a, b)"
  then have c: "c \<in> set (rev s)"
    and a: "a = rev (tl (dropWhile (\<lambda>x. x \<noteq> c) (rev s)))"
    and b: "b = rev (takeWhile (\<lambda>x. x \<noteq> c) (rev s))"
    by (auto simp: rsplit_once_def split: if_splits)
  obtain u v where uv: "rev s = u @ c # v" "c \<notin> set u"
    using split_list_first [OF c] by blast
  then have "takeWhile (\<lambda>x. x \<noteq> c) (rev s) = u" "dropWhile (\<lambda>x. x \<noteq> c) (rev s) = c # v"
    by (auto simp: takeWhile_append dropWhile_append)
  then have "a = rev v" "b = rev u" using a b by simp_all
  moreover have "s = rev v @ c # rev u" using uv(1) by (metis rev_append rev_rev_ident rev.simps(2) append.assoc append_Cons append_Nil)
  ultimately show ?thesis using uv(2) by simp
qed

lemma rsplit_once_append: "c \<notin> set b \<Longrightarrow> rsplit_once c (a @ c # b) = Some (a, b)"
  by (auto simp: rsplit_once_def takeWhile_append dropWhile_append dropWhile_eq_Nil_conv takeWhile_eq_all_conv)

section \<open>Numbers\<close>

definition digit_val :: "char \<Rightarrow> nat option" where
  "digit_val c =
     (let n = of_char c :: nat in
      if 48 \<le> n \<and> n \<le> 57 then Some (n - 48)
      else if 97 \<le> n \<and> n \<le> 102 then Some (n - 87)
      else if 65 \<le> n \<and> n \<le> 70 then Some (n - 55) else None)"

definition to_digit :: "nat \<Rightarrow> char \<Rightarrow> nat option" where
  "to_digit radix c =
     (case digit_val c of Some d \<Rightarrow> if d < radix then Some d else None | None \<Rightarrow> None)"

fun digits_value :: "nat \<Rightarrow> nat \<Rightarrow> string \<Rightarrow> nat option" where
  "digits_value radix acc [] = Some acc"
| "digits_value radix acc (c # cs) =
     (case to_digit radix c of Some d \<Rightarrow> digits_value radix (acc * radix + d) cs | None \<Rightarrow> None)"

text \<open>\<open>str::parse\<close> for an unsigned type with maximum \<open>m\<close> and for \<open>i32\<close>: an optional
  sign, then at least one digit, and the value has to fit.\<close>

definition parse_unsigned :: "nat \<Rightarrow> string \<Rightarrow> nat option" where
  "parse_unsigned m s =
     (let ds = (case s of c # t \<Rightarrow> if c = CHR ''+'' then t else s | [] \<Rightarrow> s) in
      if ds = [] then None
      else (case digits_value 10 0 ds of Some n \<Rightarrow> if n \<le> m then Some n else None | None \<Rightarrow> None))"

definition parse_i32 :: "string \<Rightarrow> int option" where
  "parse_i32 s =
     (case s of
        c # t \<Rightarrow>
          (if c = CHR ''-'' then
             (if t = [] then None
              else (case digits_value 10 0 t of
                      Some n \<Rightarrow> if n \<le> 2 ^ 31 then Some (- int n) else None | None \<Rightarrow> None))
           else map_option int (parse_unsigned (2 ^ 31 - 1) s))
      | [] \<Rightarrow> None)"

definition parse_u16 :: "string \<Rightarrow> u16 option" where
  "parse_u16 s = map_option of_nat (parse_unsigned 65535 s)"

fun show_digits :: "nat \<Rightarrow> nat \<Rightarrow> string" where
  "show_digits radix n =
     (let d = (\<lambda>k. char_of (if k < 10 then 48 + k else 87 + k) :: char) in
      if radix < 2 \<or> n < radix then [d n]
      else show_digits radix (n div radix) @ [d (n mod radix)])"

declare show_digits.simps [simp del]

definition show_nat :: "nat \<Rightarrow> string" where
  "show_nat n = show_digits 10 n"


lemma to_digit_char:
  "k < 10 \<Longrightarrow> to_digit 10 (char_of (48 + k)) = Some k"
  by (simp add: to_digit_def digit_val_def)

lemma digits_value_append:
  "digits_value r acc (xs @ ys) =
     (case digits_value r acc xs of Some a \<Rightarrow> digits_value r a ys | None \<Rightarrow> None)"
  by (induction xs arbitrary: acc) (auto split: option.split)

lemma show_nat_unfold:
  "show_nat n = (if n < 10 then [char_of (48 + n)] else show_nat (n div 10) @ [char_of (48 + n mod 10)])"
  unfolding show_nat_def by (subst show_digits.simps) simp

lemma show_nat_not_Nil [simp]: "show_nat n \<noteq> []"
  by (subst show_nat_unfold) simp

lemma digits_value_show: "digits_value 10 0 (show_nat n) = Some n"
proof (induction n rule: less_induct)
  case (less n)
  show ?case
  proof (cases "n < 10")
    case True
    then show ?thesis by (subst show_nat_unfold) (simp add: to_digit_char)
  next
    case False
    then have "digits_value 10 0 (show_nat (n div 10)) = Some (n div 10)"
      using less.IH by simp
    with False show ?thesis
      by (subst show_nat_unfold) (simp add: digits_value_append to_digit_char)
  qed
qed

lemma show_nat_digits: "c \<in> set (show_nat n) \<Longrightarrow> 48 \<le> (of_char c :: nat) \<and> (of_char c :: nat) \<le> 57"
proof (induction n rule: less_induct)
  case (less n)
  show ?case
  proof (cases "n < 10")
    case True
    with less.prems show ?thesis by (subst (asm) show_nat_unfold) simp
  next
    case False
    have m: "n mod 10 < 10" by simp
    from False less.prems consider "c \<in> set (show_nat (n div 10))" | "c = char_of (48 + n mod 10)"
      by (subst (asm) show_nat_unfold) auto
    then show ?thesis
      using less.IH [of "n div 10"] False m by cases auto
  qed
qed

lemma parse_show_unsigned: "n \<le> m \<Longrightarrow> parse_unsigned m (show_nat n) = Some n"
proof -
  assume "n \<le> m"
  obtain c cs where s: "show_nat n = c # cs" by (cases "show_nat n") auto
  have "c \<noteq> CHR ''+''" using show_nat_digits [of c n] s by auto
  then have "(case show_nat n of c # t \<Rightarrow> if c = CHR ''+'' then t else show_nat n | [] \<Rightarrow> show_nat n) = show_nat n"
    by (simp add: s)
  with \<open>n \<le> m\<close> show ?thesis by (simp add: parse_unsigned_def digits_value_show)
qed

lemma parse_show_u16: "parse_u16 (show_nat (unat p)) = Some p"
proof -
  have "unat p < 2 ^ 16" using unsigned_less [of p] by simp
  then have "unat p \<le> 65535" by simp
  then show ?thesis by (simp add: parse_u16_def parse_show_unsigned)
qed

section \<open>Address parsers and printers\<close>

text \<open>The recursive-descent parser of \<open>std::net\<close>: a parser takes the input and returns its
  result with the rest of the input.\<close>

type_synonym 'a parser = "string \<Rightarrow> ('a \<times> string) option"

definition read_given_char :: "char \<Rightarrow> unit parser" where
  "read_given_char c s = (case s of x # xs \<Rightarrow> if x = c then Some ((), xs) else None | [] \<Rightarrow> None)"

definition read_number :: "nat \<Rightarrow> nat option \<Rightarrow> bool \<Rightarrow> nat \<Rightarrow> nat parser" where
  "read_number radix max_digits allow_zero_prefix m s =
     (let ds = takeWhile (\<lambda>c. to_digit radix c \<noteq> None) s; rest = drop (length ds) s in
      if ds = [] then None
      else if (case max_digits of Some k \<Rightarrow> length ds > k | None \<Rightarrow> False) then None
      else if \<not> allow_zero_prefix \<and> hd ds = CHR ''0'' \<and> length ds > 1 then None
      else (case digits_value radix 0 ds of
              Some n \<Rightarrow> if n \<le> m then Some (n, rest) else None | None \<Rightarrow> None))"

definition read_separator :: "char \<Rightarrow> nat \<Rightarrow> 'a parser \<Rightarrow> 'a parser" where
  "read_separator c i p s =
     (if i > 0 then (case read_given_char c s of Some (_, s') \<Rightarrow> p s' | None \<Rightarrow> None) else p s)"

definition read_octet :: "nat \<Rightarrow> nat parser" where
  "read_octet i = read_separator (CHR ''.'') i (read_number 10 (Some 3) False 255)"

definition read_ipv4_addr :: "u32 parser" where
  "read_ipv4_addr s =
     (case read_octet 0 s of None \<Rightarrow> None | Some (a, s) \<Rightarrow>
      (case read_octet 1 s of None \<Rightarrow> None | Some (b, s) \<Rightarrow>
       (case read_octet 2 s of None \<Rightarrow> None | Some (c, s) \<Rightarrow>
        (case read_octet 3 s of None \<Rightarrow> None | Some (d, s) \<Rightarrow>
          Some (of_be [of_nat a, of_nat b, of_nat c, of_nat d], s)))))"

text \<open>\<open>read_groups limit i s\<close>: the groups from index \<open>i\<close> on, whether the last two came from
  an embedded IPv4 address, and the rest of the input.\<close>

function read_groups :: "nat \<Rightarrow> nat \<Rightarrow> string \<Rightarrow> u16 list \<times> bool \<times> string" where
  "read_groups limit i s =
     (if i < limit then
        (case (if i < limit - 1 then read_separator (CHR '':'') i read_ipv4_addr s else None) of
           Some (v4, s') \<Rightarrow> ([ucast (drop_bit 16 v4), ucast v4], True, s')
         | None \<Rightarrow>
             (case read_separator (CHR '':'') i (read_number 16 (Some 4) True 65535) s of
                Some (g, s') \<Rightarrow>
                  (case read_groups limit (Suc i) s' of (gs, v4, s'') \<Rightarrow> (of_nat g # gs, v4, s''))
              | None \<Rightarrow> ([], False, s)))
      else ([], False, s))"
  by pat_completeness auto
termination
  by (relation "measure (\<lambda>(limit, i, s). limit - i)") auto

declare read_groups.simps [simp del]

fun of_segments :: "u16 list \<Rightarrow> u128" where
  "of_segments gs = fold (\<lambda>g acc. push_bit 16 acc OR ucast g) gs 0"

definition read_ipv6_addr :: "u128 parser" where
  "read_ipv6_addr s =
     (case read_groups 8 0 s of
        (head, head_ipv4, s1) \<Rightarrow>
          if length head = 8 then Some (of_segments head, s1)
          else if head_ipv4 then None
          else (case read_given_char (CHR '':'') s1 of None \<Rightarrow> None | Some (_, s2) \<Rightarrow>
                (case read_given_char (CHR '':'') s2 of None \<Rightarrow> None | Some (_, s3) \<Rightarrow>
                  (case read_groups (8 - (length head + 1)) 0 s3 of
                     (tail, _, s4) \<Rightarrow>
                       Some (of_segments (head @ replicate (8 - length head - length tail) 0 @ tail), s4)))))"

definition read_port :: "u16 parser" where
  "read_port s =
     (case read_given_char (CHR '':'') s of None \<Rightarrow> None
      | Some (_, s') \<Rightarrow> map_option (\<lambda>(n, r). (of_nat n, r)) (read_number 10 None True 65535 s'))"

definition read_socket_addr_v4 :: "socket_addr parser" where
  "read_socket_addr_v4 s =
     (case read_ipv4_addr s of None \<Rightarrow> None
      | Some (a, s') \<Rightarrow> map_option (\<lambda>(p, r). (SockV4 a p, r)) (read_port s'))"

definition read_scope_id :: "u32 parser" where
  "read_scope_id s =
     (case read_given_char (CHR ''%'') s of None \<Rightarrow> None
      | Some (_, s') \<Rightarrow> map_option (\<lambda>(n, r). (of_nat n, r)) (read_number 10 None True (2 ^ 32 - 1) s'))"

definition read_socket_addr_v6 :: "socket_addr parser" where
  "read_socket_addr_v6 s =
     (case read_given_char (CHR ''['') s of None \<Rightarrow> None | Some (_, s1) \<Rightarrow>
      (case read_ipv6_addr s1 of None \<Rightarrow> None | Some (a, s2) \<Rightarrow>
       (let (scope, s3) = (case read_scope_id s2 of Some (sc, r) \<Rightarrow> (sc, r) | None \<Rightarrow> (0, s2)) in
        (case read_given_char (CHR '']'') s3 of None \<Rightarrow> None
         | Some (_, s4) \<Rightarrow> map_option (\<lambda>(p, r). (SockV6 a p 0 scope, r)) (read_port s4)))))"

definition parse_with :: "'a parser \<Rightarrow> string \<Rightarrow> 'a option" where
  "parse_with p s = (case p s of Some (x, []) \<Rightarrow> Some x | _ \<Rightarrow> None)"

definition read_ip_addr :: "ip_addr parser" where
  "read_ip_addr s =
     (case read_ipv4_addr s of
        Some (a, r) \<Rightarrow> Some (IpV4 a, r)
      | None \<Rightarrow> map_option (\<lambda>(a, r). (IpV6 a, r)) (read_ipv6_addr s))"

definition read_socket_addr :: "socket_addr parser" where
  "read_socket_addr s =
     (case read_socket_addr_v4 s of Some r \<Rightarrow> Some r | None \<Rightarrow> read_socket_addr_v6 s)"

definition parse_ip_addr :: "string \<Rightarrow> ip_addr option" where
  "parse_ip_addr = parse_with read_ip_addr"

definition parse_socket_addr :: "string \<Rightarrow> socket_addr option" where
  "parse_socket_addr = parse_with read_socket_addr"


lemmas addr_eval =
  parse_socket_addr_def parse_ip_addr_def parse_with_def read_socket_addr_def read_ip_addr_def
  read_socket_addr_v4_def read_socket_addr_v6_def read_ipv4_addr_def read_ipv6_addr_def
  read_octet_def read_port_def read_scope_id_def read_number_def read_separator_def
  read_given_char_def read_groups.simps of_be_def to_digit_def digit_val_def

text \<open>\<open>Display\<close> for addresses. An IPv6 address is written with its first longest run of two or
  more zero segments as a double colon, an IPv4-mapped one with its IPv4 part dotted.\<close>

definition show_ipv4 :: "u32 \<Rightarrow> string" where
  "show_ipv4 a = join_with (CHR ''.'') (map (\<lambda>b. show_nat (unat b)) (ipv4_octets a))"

definition segments :: "u128 \<Rightarrow> u16 list" where
  "segments a = map (\<lambda>i. ucast (drop_bit (16 * (7 - i)) a)) [0..<8]"

text \<open>The spans are (start, length); \<open>i\<close> is the index of the segment at the front.\<close>

fun longest_zero_span :: "nat \<Rightarrow> u16 list \<Rightarrow> nat \<times> nat \<Rightarrow> nat \<times> nat \<Rightarrow> nat \<times> nat" where
  "longest_zero_span i [] longest current = longest"
| "longest_zero_span i (g # gs) longest current =
     (if g = 0 then
        (let current = (if snd current = 0 then i else fst current, Suc (snd current));
             longest = (if snd current > snd longest then current else longest)
         in longest_zero_span (Suc i) gs longest current)
      else longest_zero_span (Suc i) gs longest (0, 0))"

definition show_segments :: "u16 list \<Rightarrow> string" where
  "show_segments gs = join_with (CHR '':'') (map (\<lambda>g. show_digits 16 (unat g)) gs)"

definition show_ipv6 :: "u128 \<Rightarrow> string" where
  "show_ipv6 a =
     (if drop_bit 32 a = 0xFFFF then ''::ffff:'' @ show_ipv4 (ucast a)
      else (let gs = segments a; (start, len) = longest_zero_span 0 gs (0, 0) (0, 0) in
        if len > 1 then show_segments (take start gs) @ ''::'' @ show_segments (drop (start + len) gs)
        else show_segments gs))"

fun ip_to_string :: "ip_addr \<Rightarrow> string" where
  "ip_to_string (IpV4 a) = show_ipv4 a"
| "ip_to_string (IpV6 a) = show_ipv6 a"

end
