(* ===== verification/Vless_Wire.thy ===== *)
theory Vless_Wire
  imports Rust_Str
begin

text \<open>
  The VLESS wire protocol, both ends of it.
  \<^item> \<open>client/libs/hbb_common/src/vless.rs\<close>: \<open>split_target\<close>, the request that
    \<open>connect\<close> builds, and \<open>VlessResponseStream\<close>, the reader that strips the response
    header from whatever fragments the transport delivers.
  \<^item> \<open>server/src/vless.rs\<close>: \<open>read_request\<close>.
  The transport under \<open>VlessResponseStream\<close> is a list of read events, in the order in which
  polls meet them: bytes that have arrived, a poll that finds nothing yet, or an I/O error. The end
  of the list is the end of the stream. \<open>uuid::Uuid::parse_str\<close> is the parameter
  \<open>parse_uuid\<close>; a UUID is the list of its 16 bytes.
\<close>

section \<open>The request\<close>

datatype target_error = MissingPort | InvalidPort

definition split_target :: "string \<Rightarrow> target_error + string \<times> u16" where
  "split_target target =
     (case parse_socket_addr target of
        Some address \<Rightarrow> Inr (ip_to_string (sa_ip address), sa_port address)
      | None \<Rightarrow>
          (case rsplit_once (CHR '':'') target of
             None \<Rightarrow> Inl MissingPort
           | Some (host, port) \<Rightarrow>
               (case parse_u16 port of
                  None \<Rightarrow> Inl InvalidPort
                | Some port \<Rightarrow> Inr (trim_matches {CHR ''['', CHR '']''} host, port))))"

datatype request_error = BadTarget target_error | BadUuid | HostTooLong

definition vless_address :: "string \<Rightarrow> request_error + bytes" where
  "vless_address host =
     (case parse_ip_addr host of
        Some (IpV4 a) \<Rightarrow> Inr (1 # ipv4_octets a)
      | Some (IpV6 a) \<Rightarrow> Inr (3 # ipv6_octets a)
      | None \<Rightarrow>
          (let host = as_bytes host in
           if length host > 255 then Inl HostTooLong
           else Inr (2 # of_nat (length host) # host)))"

definition vless_request ::
    "(string \<Rightarrow> bytes option) \<Rightarrow> string \<Rightarrow> string \<Rightarrow> request_error + bytes" where
  "vless_request parse_uuid uuid target =
     (case split_target target of
        Inl e \<Rightarrow> Inl (BadTarget e)
      | Inr (host, port) \<Rightarrow>
          (case parse_uuid uuid of
             None \<Rightarrow> Inl BadUuid
           | Some uuid \<Rightarrow>
               (case vless_address host of
                  Inl e \<Rightarrow> Inl e
                | Inr address \<Rightarrow> Inr ([0] @ uuid @ [0, 1] @ to_be 2 port @ address))))"

section \<open>The gateway's reader\<close>

datatype vless_error =
  UnexpectedEof | InvalidCredential | OnlyTcp | UnsupportedAddress

definition read_exact :: "nat \<Rightarrow> bytes \<Rightarrow> vless_error + bytes \<times> bytes" where
  "read_exact n stream =
     (if length stream < n then Inl UnexpectedEof else Inr (take n stream, drop n stream))"

definition read_address :: "bytes \<Rightarrow> vless_error + bytes" where
  "read_address stream =
     (case read_exact 1 stream of
        Inl e \<Rightarrow> Inl e
      | Inr (address_type, stream) \<Rightarrow>
          (case (if address_type = [1] then Inr (4, stream)
                 else if address_type = [2] then
                   (case read_exact 1 stream of
                      Inl e \<Rightarrow> Inl e
                    | Inr (len, stream) \<Rightarrow> Inr (unat (len ! 0), stream))
                 else if address_type = [3] then Inr (16, stream)
                 else Inl UnsupportedAddress) of
             Inl e \<Rightarrow> Inl e
           | Inr (address_len, stream) \<Rightarrow> map_sum id snd (read_exact address_len stream)))"

definition read_command :: "bytes \<Rightarrow> vless_error + u16 \<times> bytes" where
  "read_command stream =
     (case read_exact 3 stream of
        Inl e \<Rightarrow> Inl e
      | Inr (command, stream) \<Rightarrow>
          if command ! 0 \<noteq> 1 then Inl OnlyTcp
          else map_sum id (\<lambda>stream. (of_be [command ! 1, command ! 2], stream)) (read_address stream))"

definition read_request :: "bytes \<Rightarrow> bytes \<Rightarrow> vless_error + u16 \<times> bytes" where
  "read_request expected_uuid stream =
     (case read_exact 18 stream of
        Inl e \<Rightarrow> Inl e
      | Inr (header, stream) \<Rightarrow>
          if header ! 0 \<noteq> 0 \<or> take 16 (drop 1 header) \<noteq> expected_uuid then Inl InvalidCredential
          else
            (case read_exact (unat (header ! 17)) stream of
               Inl e \<Rightarrow> Inl e
             | Inr (_, stream) \<Rightarrow> read_command stream))"

section \<open>The response stream of the client\<close>

datatype io_kind = EofKind | InvalidData | OtherKind nat

datatype read_event = Chunk bytes | NotReady | IoFail io_kind

datatype poll_result = Pending | ReadErr io_kind | ReadOk bytes

text \<open>\<open>poll_read\<close> of the transport into a buffer with \<open>cap\<close> free bytes.\<close>

fun inner_read :: "nat \<Rightarrow> read_event list \<Rightarrow> poll_result \<times> read_event list" where
  "inner_read cap [] = (ReadOk [], [])"
| "inner_read cap (NotReady # es) = (Pending, es)"
| "inner_read cap (IoFail k # es) = (ReadErr k, es)"
| "inner_read cap (Chunk bs # es) =
     (if length bs \<le> cap then (ReadOk bs, es) else (ReadOk (take cap bs), Chunk (drop cap bs) # es))"

record vless_stream =
  vs_inner :: "read_event list"
  vs_header :: "u8 \<times> u8"
  vs_header_read :: nat
  vs_addons_remaining :: nat
  vs_header_done :: bool
  vs_failed :: "io_kind option"

definition new_response_stream :: "read_event list \<Rightarrow> vless_stream" where
  "new_response_stream inner =
     \<lparr>vs_inner = inner, vs_header = (0, 0), vs_header_read = 0, vs_addons_remaining = 0,
      vs_header_done = False, vs_failed = None\<rparr>"

definition reject :: "io_kind \<Rightarrow> vless_stream \<Rightarrow> poll_result \<times> vless_stream" where
  "reject k s = (ReadErr k, s\<lparr>vs_failed := Some k\<rparr>)"

text \<open>The bytes that a read of the header stores from position \<open>i\<close> on.\<close>

definition fill_header :: "u8 \<times> u8 \<Rightarrow> nat \<Rightarrow> bytes \<Rightarrow> u8 \<times> u8" where
  "fill_header h i bs =
     (let xs = take i [fst h, snd h] @ bs @ drop (i + length bs) [fst h, snd h] in (xs ! 0, xs ! 1))"

lemma inner_read_length: "inner_read cap es = (ReadOk bs, es') \<Longrightarrow> length bs \<le> cap"
  by (cases "(cap, es)" rule: inner_read.cases) (auto split: if_splits)

text \<open>The two loops; \<open>None\<close> where the loop ends and \<open>poll_read\<close> goes on.\<close>

function read_header :: "vless_stream \<Rightarrow> poll_result option \<times> vless_stream" where
  "read_header s =
     (if vs_header_read s \<ge> 2 then (None, s)
      else
        (case inner_read (2 - vs_header_read s) (vs_inner s) of
           (Pending, inner) \<Rightarrow> (Some Pending, s\<lparr>vs_inner := inner\<rparr>)
         | (ReadErr k, inner) \<Rightarrow> map_prod Some id (reject k (s\<lparr>vs_inner := inner\<rparr>))
         | (ReadOk bs, inner) \<Rightarrow>
             if bs = [] then map_prod Some id (reject EofKind (s\<lparr>vs_inner := inner\<rparr>))
             else
               (let s = s\<lparr>vs_inner := inner,
                          vs_header := fill_header (vs_header s) (vs_header_read s) bs,
                          vs_header_read := vs_header_read s + length bs\<rparr>
                in if fst (vs_header s) \<noteq> 0 then map_prod Some id (reject InvalidData s)
                   else read_header s)))"
  by auto
termination
  by (relation "measure (\<lambda>s. 2 - vs_header_read s)") (auto simp: Let_def neq_Nil_conv)

function drop_addons :: "vless_stream \<Rightarrow> poll_result option \<times> vless_stream" where
  "drop_addons s =
     (if vs_addons_remaining s = 0 then (None, s)
      else
        (case inner_read (vs_addons_remaining s) (vs_inner s) of
           (Pending, inner) \<Rightarrow> (Some Pending, s\<lparr>vs_inner := inner\<rparr>)
         | (ReadErr k, inner) \<Rightarrow> map_prod Some id (reject k (s\<lparr>vs_inner := inner\<rparr>))
         | (ReadOk bs, inner) \<Rightarrow>
             if bs = [] then map_prod Some id (reject EofKind (s\<lparr>vs_inner := inner\<rparr>))
             else drop_addons (s\<lparr>vs_inner := inner,
                                 vs_addons_remaining := vs_addons_remaining s - length bs\<rparr>)))"
  by auto
termination
  by (relation "measure vs_addons_remaining") (auto simp: neq_Nil_conv)

declare read_header.simps [simp del] drop_addons.simps [simp del]

definition poll_payload :: "nat \<Rightarrow> vless_stream \<Rightarrow> poll_result \<times> vless_stream" where
  "poll_payload cap s =
     (case drop_addons s of
        (Some r, s) \<Rightarrow> (r, s)
      | (None, s) \<Rightarrow>
          (case inner_read cap (vs_inner s) of (r, inner) \<Rightarrow> (r, s\<lparr>vs_inner := inner\<rparr>)))"

definition vless_poll_read :: "nat \<Rightarrow> vless_stream \<Rightarrow> poll_result \<times> vless_stream" where
  "vless_poll_read cap s =
     (if cap = 0 then (ReadOk [], s)
      else
        (case vs_failed s of
           Some k \<Rightarrow> (ReadErr k, s)
         | None \<Rightarrow>
             if vs_header_done s then poll_payload cap s
             else
               (case read_header s of
                  (Some r, s) \<Rightarrow> (r, s)
                | (None, s) \<Rightarrow>
                    poll_payload cap
                      (s\<lparr>vs_addons_remaining := unat (snd (vs_header s)), vs_header_done := True\<rparr>))))"

text \<open>A sequence of polls, each with the room the caller's buffer has left.\<close>

fun vless_polls :: "nat list \<Rightarrow> vless_stream \<Rightarrow> poll_result list \<times> vless_stream" where
  "vless_polls [] s = ([], s)"
| "vless_polls (cap # caps) s =
     (let (r, s) = vless_poll_read cap s; (rs, s) = vless_polls caps s in (r # rs, s))"

section \<open>Request lemmas\<close>

lemma read_header_done [simp]: "2 \<le> vs_header_read s \<Longrightarrow> read_header s = (None, s)"
  by (simp add: read_header.simps)

lemma drop_addons_done [simp]: "vs_addons_remaining s = 0 \<Longrightarrow> drop_addons s = (None, s)"
  by (simp add: drop_addons.simps)

lemma read_exact_append [simp]: "length a = n \<Longrightarrow> read_exact n (a @ b) = Inr (a, b)"
  by (simp add: read_exact_def)

lemma read_exact_Inr: "read_exact n s = Inr (a, b) \<longleftrightarrow> s = a @ b \<and> length a = n"
  by (auto simp: read_exact_def)

lemma read_exact_1 [simp]: "read_exact (Suc 0) (x # b) = Inr ([x], b)"
  using read_exact_append [of "[x]" 1 b] by simp

lemma length_octets [simp]: "length (ipv4_octets a) = 4" "length (ipv6_octets b) = 16"
  by (simp_all add: ipv4_octets_def ipv6_octets_def)

lemma read_vless_address:
  assumes "vless_address host = Inr address"
  shows "read_address (address @ rest) = Inr rest"
  using assms
  by (auto simp: vless_address_def read_address_def as_bytes_def Let_def unat_of_nat take_bit_nat_eq_self
      split: option.splits ip_addr.splits if_splits)

lemma to_be_2: "to_be 2 (p :: u16) = [to_be 2 p ! 0, to_be 2 p ! 1]"
  by (rule list_2_nth) simp

lemma read_command_ok:
  assumes "read_address s = Inr rest"
  shows "read_command (1 # to_be 2 port @ s) = Inr (port, rest)"
proof -
  have "read_exact 3 (1 # to_be 2 port @ s) = Inr (1 # to_be 2 port, s)"
    using read_exact_append [of "1 # to_be 2 port" 3 s] by simp
  moreover have "of_be [to_be 2 port ! 0, to_be 2 port ! 1] = port"
    using of_be_to_be_full [of 2 port] to_be_2 [of port] by simp
  ultimately show ?thesis using assms by (simp add: read_command_def)
qed

lemma read_exact_header:
  assumes "length u = 16"
  shows "read_exact 18 ((0 :: u8) # u @ n # s) = Inr (0 # u @ [n], s)"
  using read_exact_append [of "0 # u @ [n]" 18 s] assms by simp

text \<open>Every request that is accepted carries the expected credential and asks for TCP.\<close>

lemma read_address_suffix:
  assumes "read_address s = Inr rest"
  obtains address where "s = address @ rest"
proof -
  from assms obtain t n s1 s2 a where "s = t @ s1" "s1 = n @ s2" "s2 = a @ rest"
    by (fastforce simp: read_address_def read_exact_Inr split: sum.splits prod.splits if_splits)
  then show thesis by (intro that [of "t @ n @ a"]) simp
qed

lemma read_command_accepts:
  assumes "read_command s = Inr (port, rest)"
  obtains p1 p2 address where "s = 1 # p1 # p2 # address @ rest" "port = of_be [p1, p2]"
proof -
  from assms obtain command s' where
      k: "s = command @ s'" "length command = 3" "command ! 0 = 1"
      "port = of_be [command ! 1, command ! 2]" "read_address s' = Inr rest"
    by (auto simp: read_command_def read_exact_Inr split: sum.splits prod.splits if_splits)
  moreover from k(5) obtain address where "s' = address @ rest" by (rule read_address_suffix)
  moreover have "command = [command ! 0, command ! 1, command ! 2]" using k(2) by (rule list_3_nth)
  ultimately show thesis
    by (intro that [of "command ! 1" "command ! 2" address]) (metis append_Cons append_Nil, simp)
qed

lemma read_request_accepts:
  assumes "read_request u s = Inr (port, rest)"
  shows "\<exists>n addons p1 p2 address. s = 0 # u @ n # addons @ 1 # p1 # p2 # address @ rest
           \<and> length u = 16 \<and> length addons = unat n \<and> port = of_be [p1, p2]"
proof -
  from assms obtain header s1 addons s2 where
      h: "s = header @ s1" "length header = 18" "header ! 0 = 0" "take 16 (drop 1 header) = u"
    and a: "s1 = addons @ s2" "length addons = unat (header ! 17)"
    and c: "read_command s2 = Inr (port, rest)"
    by (auto simp: read_request_def read_exact_Inr split: sum.splits prod.splits if_splits)
  have "header = 0 # u @ [header ! 17]"
    using list_hd_mid_last [of header 16] h by simp
  then have "s = 0 # u @ header ! 17 # addons @ s2" using h(1) a(1) by simp
  moreover from c obtain p1 p2 address where
    "s2 = 1 # p1 # p2 # address @ rest" "port = of_be [p1, p2]" by (rule read_command_accepts)
  moreover have "length u = 16" using h by auto
  ultimately show ?thesis using a(2) by blast
qed

section \<open>Response stream invariant\<close>

fun event_data :: "read_event \<Rightarrow> bytes" where
  "event_data (Chunk bs) = bs"
| "event_data _ = []"

definition stream_data :: "read_event list \<Rightarrow> bytes" where
  "stream_data es = concat (map event_data es)"

fun read_data :: "poll_result \<Rightarrow> bytes" where
  "read_data (ReadOk bs) = bs"
| "read_data _ = []"

definition delivered :: "poll_result list \<Rightarrow> bytes" where
  "delivered rs = concat (map read_data rs)"

text \<open>A transport that neither fails nor ends before the list does, and the number of polls that
  exhaust it at the latest.\<close>

fun clean_event :: "read_event \<Rightarrow> bool" where
  "clean_event (Chunk bs) = (bs \<noteq> [])"
| "clean_event NotReady = True"
| "clean_event (IoFail _) = False"

fun event_weight :: "read_event \<Rightarrow> nat" where
  "event_weight (Chunk bs) = length bs"
| "event_weight _ = 1"

definition stream_weight :: "read_event list \<Rightarrow> nat" where
  "stream_weight es = sum_list (map event_weight es)"

lemma inner_read_data:
  "inner_read cap es = (r, es') \<Longrightarrow> stream_data es = read_data r @ stream_data es'"
  by (cases "(cap, es)" rule: inner_read.cases) (auto simp: stream_data_def split: if_splits)

lemma inner_read_clean:
  assumes "inner_read cap es = (r, es')" "list_all clean_event es" "0 < cap"
  shows "list_all clean_event es'" "\<And>k. r \<noteq> ReadErr k" "r = ReadOk [] \<longleftrightarrow> es = []"
    "es \<noteq> [] \<Longrightarrow> stream_weight es' < stream_weight es" "stream_weight es' \<le> stream_weight es"
  using assms
  by (cases "(cap, es)" rule: inner_read.cases; auto simp: stream_weight_def split: if_splits)+

text \<open>\<open>data\<close> is all that the transport has delivered or will deliver and \<open>out\<close> what the
  caller has received. Before the header is complete the reader holds the bytes it has seen of it;
  afterwards the output follows the header and its add-ons in \<open>data\<close> without a gap.\<close>

definition resp_inv :: "bytes \<Rightarrow> bytes \<Rightarrow> vless_stream \<Rightarrow> bool" where
  "resp_inv data out s \<longleftrightarrow>
     (vs_failed s \<noteq> None \<longrightarrow> out = []) \<and>
     (if vs_header_done s then
        \<exists>addons. data = 0 # snd (vs_header s) # addons @ out @ stream_data (vs_inner s) \<and>
          length addons + vs_addons_remaining s = unat (snd (vs_header s)) \<and>
          (0 < vs_addons_remaining s \<longrightarrow> out = [])
      else
        out = [] \<and> vs_header_read s \<le> 2 \<and>
        (vs_failed s = None \<longrightarrow> fst (vs_header s) = 0) \<and>
        data = take (vs_header_read s) [fst (vs_header s), snd (vs_header s)] @ stream_data (vs_inner s))"

lemma fill_header_take:
  assumes "bs \<noteq> []" "i < 2" "length bs \<le> 2 - i"
  shows "take (i + length bs) [fst (fill_header h i bs), snd (fill_header h i bs)] =
         take i [fst h, snd h] @ bs"
proof -
  have "0 < length bs" using assms(1) by simp
  then have "length bs = 1 \<or> length bs = 2" using assms(3) by linarith
  moreover have "i = 0 \<or> i = 1" using assms(2) by auto
  ultimately show ?thesis
    using assms(3) by (auto simp: fill_header_def Let_def length_Suc_conv numeral_2_eq_2)
qed

definition header_filled :: "bytes \<Rightarrow> read_event list \<Rightarrow> vless_stream \<Rightarrow> vless_stream" where
  "header_filled bs inner s =
     s\<lparr>vs_inner := inner, vs_header := fill_header (vs_header s) (vs_header_read s) bs,
       vs_header_read := vs_header_read s + length bs\<rparr>"

lemma read_header_filled:
  assumes "vs_header_read s < 2" "inner_read (2 - vs_header_read s) (vs_inner s) = (ReadOk bs, inner)" "bs \<noteq> []"
  shows "read_header s =
     (if fst (vs_header (header_filled bs inner s)) \<noteq> 0
      then (Some (ReadErr InvalidData), header_filled bs inner s\<lparr>vs_failed := Some InvalidData\<rparr>)
      else read_header (header_filled bs inner s))"
  using assms by (simp add: read_header.simps [of s] header_filled_def Let_def reject_def)

lemma header_filled_inv:
  assumes "vs_header_read s < 2" "inner_read (2 - vs_header_read s) (vs_inner s) = (ReadOk bs, inner)" "bs \<noteq> []"
    and "\<not> vs_header_done s" "resp_inv data [] s"
  defines "t \<equiv> header_filled bs inner s"
  shows "resp_inv data [] (if fst (vs_header t) \<noteq> 0 then t\<lparr>vs_failed := Some InvalidData\<rparr> else t)"
proof -
  have len: "length bs \<le> 2 - vs_header_read s" using assms(2) by (rule inner_read_length)
  have "take (vs_header_read t) [fst (vs_header t), snd (vs_header t)] =
        take (vs_header_read s) [fst (vs_header s), snd (vs_header s)] @ bs"
    using fill_header_take [OF assms(3,1) len] by (simp add: t_def header_filled_def)
  moreover have "vs_header_read t \<le> 2" "vs_inner t = inner" "\<not> vs_header_done t"
    using len assms(1,4) by (simp_all add: t_def header_filled_def)
  ultimately show ?thesis
    using assms(4,5) inner_read_data [OF assms(2)] by (auto simp: resp_inv_def)
qed

lemma read_header_inv:
  assumes "\<not> vs_header_done s" "vs_failed s = None" "resp_inv data [] s" "read_header s = (r, s')"
  shows "resp_inv data [] s' \<and> \<not> vs_header_done s' \<and>
     (case r of
        None \<Rightarrow> vs_failed s' = None \<and> vs_header_read s' = 2
      | Some x \<Rightarrow> read_data x = [] \<and> (\<forall>k. x = ReadErr k \<longleftrightarrow> vs_failed s' = Some k))"
  using assms
proof (induction "2 - vs_header_read s" arbitrary: s r s' rule: less_induct)
  case less
  obtain x inner where x: "inner_read (2 - vs_header_read s) (vs_inner s) = (x, inner)"
    by (cases "inner_read (2 - vs_header_read s) (vs_inner s)")
  show ?case
  proof (cases "vs_header_read s < 2 \<and> (\<exists>bs. x = ReadOk bs \<and> bs \<noteq> [])")
    case True
    then obtain bs where bs: "x = ReadOk bs" "bs \<noteq> []" "vs_header_read s < 2" by auto
    let ?t = "header_filled bs inner s"
    note step = bs(3) x [unfolded bs(1)] bs(2)
    note inv = header_filled_inv [OF step less.prems(1,3)]
    have frame: "\<not> vs_header_done ?t" "vs_failed ?t = None" "vs_header_read s < vs_header_read ?t"
      using less.prems(1,2) bs(2) by (simp_all add: header_filled_def)
    show ?thesis
    proof (cases "fst (vs_header ?t) = 0")
      case True
      then show ?thesis
        using less.hyps [of ?t r s'] inv frame bs(3) less.prems(4) read_header_filled [OF step]
        by (simp add: diff_less_mono2)
    qed (use inv frame less.prems(4) read_header_filled [OF step] in auto)
  next
    case False
    then show ?thesis
      using less.prems x inner_read_data [OF x]
      by (cases x) (auto simp: read_header.simps [of s] reject_def resp_inv_def split: if_splits)
  qed
qed

lemma drop_addons_step:
  assumes "0 < vs_addons_remaining s" "inner_read (vs_addons_remaining s) (vs_inner s) = (ReadOk bs, inner)" "bs \<noteq> []"
  shows "drop_addons s = drop_addons (s\<lparr>vs_inner := inner, vs_addons_remaining := vs_addons_remaining s - length bs\<rparr>)"
  using assms by (simp add: drop_addons.simps [of s])

lemma drop_addons_inv:
  assumes "vs_header_done s" "vs_failed s = None" "resp_inv data out s" "drop_addons s = (r, s')"
  shows "resp_inv data out s' \<and> vs_header_done s' \<and>
     (case r of
        None \<Rightarrow> vs_failed s' = None \<and> vs_addons_remaining s' = 0
      | Some x \<Rightarrow> read_data x = [] \<and> (\<forall>k. x = ReadErr k \<longleftrightarrow> vs_failed s' = Some k))"
  using assms
proof (induction "vs_addons_remaining s" arbitrary: s r s' rule: less_induct)
  case less
  obtain x inner where x: "inner_read (vs_addons_remaining s) (vs_inner s) = (x, inner)"
    by (cases "inner_read (vs_addons_remaining s) (vs_inner s)")
  show ?case
  proof (cases "0 < vs_addons_remaining s \<and> (\<exists>bs. x = ReadOk bs \<and> bs \<noteq> [])")
    case True
    then obtain bs where bs: "x = ReadOk bs" "bs \<noteq> []" "0 < vs_addons_remaining s" by auto
    let ?t = "s\<lparr>vs_inner := inner, vs_addons_remaining := vs_addons_remaining s - length bs\<rparr>"
    note step = bs(3) x [unfolded bs(1)] bs(2)
    obtain addons where "data = 0 # snd (vs_header s) # addons @ bs @ stream_data inner" "out = []"
        "length addons + vs_addons_remaining s = unat (snd (vs_header s))"
      using less.prems(1,3) bs(3) inner_read_data [OF step(2)] by (auto simp: resp_inv_def)
    then have "resp_inv data out ?t"
      using less.prems(1,2) inner_read_length [OF step(2)]
      by (auto simp: resp_inv_def intro!: exI [of _ "addons @ bs"])
    then show ?thesis
      using less.hyps [of ?t r s'] less.prems drop_addons_step [OF step] bs(2,3)
      by (simp add: diff_less)
  next
    case False
    then show ?thesis
      using less.prems x inner_read_data [OF x]
      by (cases x) (auto simp: drop_addons.simps [of s] reject_def resp_inv_def split: if_splits)
  qed
qed

lemma poll_payload_inv:
  assumes "vs_header_done s" "vs_failed s = None" "resp_inv data out s" "poll_payload cap s = (r, s')"
  shows "resp_inv data (out @ read_data r) s'"
proof -
  obtain q t where q: "drop_addons s = (q, t)" by (cases "drop_addons s")
  note inv = drop_addons_inv [OF assms(1-3) q]
  show ?thesis
  proof (cases q)
    case None
    obtain x inner where x: "inner_read cap (vs_inner t) = (x, inner)"
      by (cases "inner_read cap (vs_inner t)")
    then show ?thesis
      using assms(4) q None inv inner_read_data [OF x] by (auto simp: poll_payload_def resp_inv_def)
  qed (use assms(4) q inv in \<open>auto simp: poll_payload_def\<close>)
qed

lemma header_complete_inv:
  assumes "resp_inv data [] s" "\<not> vs_header_done s" "vs_failed s = None" "vs_header_read s = 2"
  shows "resp_inv data [] (s\<lparr>vs_addons_remaining := unat (snd (vs_header s)), vs_header_done := True\<rparr>)"
  using assms by (auto simp: resp_inv_def)

lemma vless_poll_read_inv:
  assumes "resp_inv data out s" "vless_poll_read cap s = (r, s')"
  shows "resp_inv data (out @ read_data r) s'"
proof (cases "cap = 0 \<or> vs_failed s \<noteq> None \<or> vs_header_done s")
  case True
  then show ?thesis
    using assms poll_payload_inv [of s data out cap r s']
    by (auto simp: vless_poll_read_def split: option.splits if_splits)
next
  case False
  obtain q t where q: "read_header s = (q, t)" by (cases "read_header s")
  have out: "out = []" using False assms(1) by (simp add: resp_inv_def)
  have inv: "resp_inv data [] t \<and> \<not> vs_header_done t \<and>
     (case q of None \<Rightarrow> vs_failed t = None \<and> vs_header_read t = 2
      | Some x \<Rightarrow> read_data x = [] \<and> (\<forall>k. x = ReadErr k \<longleftrightarrow> vs_failed t = Some k))"
    using read_header_inv [OF _ _ _ q] False assms(1) out by auto
  show ?thesis
  proof (cases q)
    case None
    then show ?thesis
      using assms(2) q inv out False
        poll_payload_inv [OF _ _ header_complete_inv [of data t], of cap r s']
      by (auto simp: vless_poll_read_def)
  qed (use assms(2) q inv out False in \<open>auto simp: vless_poll_read_def\<close>)
qed

lemma vless_polls_inv:
  assumes "resp_inv data out s" "vless_polls caps s = (rs, s')"
  shows "resp_inv data (out @ delivered rs) s'"
  using assms
proof (induction caps arbitrary: s rs out)
  case (Cons cap caps)
  obtain r t where r: "vless_poll_read cap s = (r, t)" by (cases "vless_poll_read cap s")
  obtain rs' where "vless_polls caps t = (rs', s')" "rs = r # rs'"
    using Cons.prems(2) r by (auto split: prod.splits)
  then show ?case
    using Cons.IH [OF vless_poll_read_inv [OF Cons.prems(1) r]] by (simp add: delivered_def)
qed (simp add: delivered_def)

section \<open>Response stream progress\<close>

definition stream_live :: "vless_stream \<Rightarrow> bool" where
  "stream_live s \<longleftrightarrow> list_all clean_event (vs_inner s) \<and> vs_failed s = None"

abbreviation progress :: "vless_stream \<Rightarrow> vless_stream \<Rightarrow> bool" where
  "progress s s' \<equiv> stream_weight (vs_inner s') < stream_weight (vs_inner s) \<or> vs_inner s = [] \<and> vs_inner s' = []"

lemma clean_empty_iff: "list_all clean_event es \<Longrightarrow> stream_weight es = 0 \<longleftrightarrow> es = []"
  by (cases es; cases "hd es") (auto simp: stream_weight_def)

lemma read_header_live:
  assumes "stream_live s" "vs_header_read s < 2" "read_header s = (r, s')"
  shows "list_all clean_event (vs_inner s') \<and> progress s s' \<and>
     (vs_failed s' = None \<or> vs_inner s' = [] \<and> vs_header_read s' < 2 \<or>
      fst (vs_header s') \<noteq> 0 \<and> 0 < vs_header_read s')"
  using assms
proof (induction "2 - vs_header_read s" arbitrary: s r s' rule: less_induct)
  case less
  obtain x inner where x: "inner_read (2 - vs_header_read s) (vs_inner s) = (x, inner)"
    by (cases "inner_read (2 - vs_header_read s) (vs_inner s)")
  have cap: "0 < 2 - vs_header_read s" using less.prems(2) by simp
  have clean: "list_all clean_event (vs_inner s)" "vs_failed s = None"
    using less.prems(1) by (simp_all add: stream_live_def)
  note read = inner_read_clean [OF x clean(1) cap]
  show ?case
  proof (cases "\<exists>bs. x = ReadOk bs \<and> bs \<noteq> []")
    case True
    then obtain bs where bs: "x = ReadOk bs" "bs \<noteq> []" by auto
    let ?t = "header_filled bs inner s"
    note step = less.prems(2) x [unfolded bs(1)] bs(2)
    have t: "stream_live ?t" "vs_inner ?t = inner" "vs_header_read ?t = vs_header_read s + length bs"
      using read(1) clean(2) by (simp_all add: stream_live_def header_filled_def)
    have w: "stream_weight inner < stream_weight (vs_inner s)" using read(3,4) bs by auto
    have dec: "2 - vs_header_read ?t < 2 - vs_header_read s"
      using less.prems(2) bs(2) t(3) by (simp add: diff_less_mono2)
    show ?thesis
    proof (cases "fst (vs_header ?t) = 0 \<and> vs_header_read ?t < 2")
      case True
      then show ?thesis
        using less.hyps [of ?t r s', OF dec] t w less.prems(3) read_header_filled [OF step]
        by auto
    next
      case False
      then show ?thesis
        using t w bs(2) less.prems(3) read_header_filled [OF step] clean(2)
        by (auto simp: stream_live_def not_less split: if_splits)
    qed
  next
    case False
    then show ?thesis
      using less.prems x read clean by (cases x) (auto simp: read_header.simps [of s] reject_def)
  qed
qed

lemma drop_addons_live:
  assumes "stream_live s" "0 < vs_addons_remaining s" "drop_addons s = (r, s')"
  shows "list_all clean_event (vs_inner s') \<and> progress s s' \<and>
     (vs_failed s' = None \<or> vs_inner s' = [] \<and> 0 < vs_addons_remaining s')"
  using assms
proof (induction "vs_addons_remaining s" arbitrary: s r s' rule: less_induct)
  case less
  obtain x inner where x: "inner_read (vs_addons_remaining s) (vs_inner s) = (x, inner)"
    by (cases "inner_read (vs_addons_remaining s) (vs_inner s)")
  have clean: "list_all clean_event (vs_inner s)" "vs_failed s = None"
    using less.prems(1) by (simp_all add: stream_live_def)
  note read = inner_read_clean [OF x clean(1) less.prems(2)]
  show ?case
  proof (cases "\<exists>bs. x = ReadOk bs \<and> bs \<noteq> []")
    case True
    then obtain bs where bs: "x = ReadOk bs" "bs \<noteq> []" by auto
    let ?t = "s\<lparr>vs_inner := inner, vs_addons_remaining := vs_addons_remaining s - length bs\<rparr>"
    note step = less.prems(2) x [unfolded bs(1)] bs(2)
    have t: "stream_live ?t" using read(1) clean(2) by (simp add: stream_live_def)
    have w: "stream_weight inner < stream_weight (vs_inner s)" using read(3,4) bs by auto
    show ?thesis
    proof (cases "0 < vs_addons_remaining ?t")
      case True
      then show ?thesis
        using less.hyps [of ?t r s'] t w bs(2) less.prems(3) drop_addons_step [OF step]
        by auto
    next
      case False
      then show ?thesis
        using t w less.prems(3) drop_addons_step [OF step]
        by (auto simp: stream_live_def)
    qed
  next
    case False
    then show ?thesis
      using less.prems x read clean by (cases x) (auto simp: drop_addons.simps [of s] reject_def)
  qed
qed

text \<open>The transport delivers a well-formed response: version 0, the add-ons that the length byte
  announces, and the payload.\<close>

definition well_formed_response :: "bytes \<Rightarrow> bytes \<Rightarrow> bool" where
  "well_formed_response data payload \<longleftrightarrow>
     (\<exists>n addons. data = 0 # n # addons @ payload \<and> length addons = unat n)"

lemma header_not_failed:
  assumes "well_formed_response data payload" "resp_inv data [] s" "\<not> vs_header_done s"
  shows "\<not> (vs_inner s = [] \<and> vs_header_read s < 2)" "fst (vs_header s) \<noteq> 0 \<Longrightarrow> vs_header_read s = 0"
  using assms by (auto simp: well_formed_response_def resp_inv_def stream_data_def take_Cons split: nat.splits)

lemma addons_not_failed:
  assumes "well_formed_response data payload" "resp_inv data out s" "vs_header_done s"
  shows "\<not> (vs_inner s = [] \<and> 0 < vs_addons_remaining s)"
proof
  assume *: "vs_inner s = [] \<and> 0 < vs_addons_remaining s"
  with assms obtain addons where
    "data = 0 # snd (vs_header s) # addons" "length addons < unat (snd (vs_header s))"
    by (auto simp: resp_inv_def stream_data_def)
  with assms(1) show False by (auto simp: well_formed_response_def)
qed

lemma poll_payload_live:
  assumes "well_formed_response data payload" "resp_inv data out s" "vs_header_done s" "stream_live s"
    and "0 < cap" "poll_payload cap s = (r, s')"
  shows "stream_live s' \<and> (\<forall>k. r \<noteq> ReadErr k) \<and> progress s s' \<and> vs_header_done s'"
proof -
  obtain q t where q: "drop_addons s = (q, t)" by (cases "drop_addons s")
  have failed: "vs_failed s = None" using assms(4) by (simp add: stream_live_def)
  note inv = drop_addons_inv [OF assms(3) failed assms(2) q]
  have live: "stream_live t" and prog: "t = s \<and> q = None \<or> progress s t"
  proof -
    consider "vs_addons_remaining s = 0" | "0 < vs_addons_remaining s" by auto
    then have "stream_live t \<and> (t = s \<and> q = None \<or> progress s t)"
    proof cases
      case 2
      then show ?thesis
        using drop_addons_live [OF assms(4) 2 q] inv addons_not_failed [OF assms(1), of out t]
        by (auto simp: stream_live_def)
    qed (use q assms(4) in auto)
    then show "stream_live t" "t = s \<and> q = None \<or> progress s t" by auto
  qed
  obtain x inner where x: "inner_read cap (vs_inner t) = (x, inner)"
    by (cases "inner_read cap (vs_inner t)")
  have "list_all clean_event (vs_inner t)" using live by (simp add: stream_live_def)
  note read = inner_read_clean [OF x this assms(5)]
  have "progress t (t\<lparr>vs_inner := inner\<rparr>)"
    using read(3,4) x by (cases "vs_inner t") auto
  then show ?thesis
    using assms(6) q x live prog read inv failed
    by (cases q) (auto simp: poll_payload_def stream_live_def)
qed

lemma vless_poll_read_live:
  assumes "well_formed_response data payload" "resp_inv data out s" "stream_live s"
    and "0 < cap" "vless_poll_read cap s = (r, s')"
  shows "stream_live s' \<and> (\<forall>k. r \<noteq> ReadErr k) \<and> progress s s'"
proof (cases "vs_header_done s")
  case True
  then show ?thesis
    using assms poll_payload_live [OF assms(1,2) True assms(3,4)]
    by (simp add: vless_poll_read_def stream_live_def)
next
  case False
  have failed: "vs_failed s = None" using assms(3) by (simp add: stream_live_def)
  have out: "out = []" "vs_header_read s \<le> 2" using assms(2) False by (simp_all add: resp_inv_def)
  obtain q t where q: "read_header s = (q, t)" by (cases "read_header s")
  note inv = read_header_inv [OF False failed assms(2) [unfolded out(1)] q]
  have t: "stream_live t \<and> (t = s \<and> q = None \<or> progress s t)"
  proof (cases "vs_header_read s < 2")
    case True
    show ?thesis
      using read_header_live [OF assms(3) True q] inv header_not_failed [OF assms(1), of t]
      by (auto simp: stream_live_def)
  qed (use q assms(3) in auto)
  show ?thesis
  proof (cases q)
    case None
    let ?u = "t\<lparr>vs_addons_remaining := unat (snd (vs_header t)), vs_header_done := True\<rparr>"
    have u: "resp_inv data [] ?u" "stream_live ?u"
      using header_complete_inv [of data t] inv None t by (simp_all add: stream_live_def)
    have "poll_payload cap ?u = (r, s')"
      using assms(4,5) q None False failed by (simp add: vless_poll_read_def)
    from poll_payload_live [OF assms(1) u(1) _ u(2) assms(4) this] t show ?thesis by auto
  next
    case (Some x)
    then have "r = x" "s' = t"
      using assms(4,5) q False failed by (auto simp: vless_poll_read_def)
    then show ?thesis using inv t Some by (auto simp: stream_live_def)
  qed
qed

lemma vless_polls_live:
  assumes "well_formed_response data payload" "resp_inv data out s" "stream_live s"
    and "list_all (\<lambda>cap. 0 < cap) caps" "vless_polls caps s = (rs, s')"
  shows "stream_live s' \<and> (\<forall>k. ReadErr k \<notin> set rs) \<and>
    stream_weight (vs_inner s') \<le> stream_weight (vs_inner s) - length caps"
  using assms(2-)
proof (induction caps arbitrary: s rs out)
  case (Cons cap caps)
  obtain r t where r: "vless_poll_read cap s = (r, t)" by (cases "vless_poll_read cap s")
  obtain rs' where rs: "vless_polls caps t = (rs', s')" "rs = r # rs'"
    using Cons.prems(4) r by (auto split: prod.splits)
  have cap: "0 < cap" "list_all (\<lambda>cap. 0 < cap) caps" using Cons.prems(3) by simp_all
  note t = vless_poll_read_live [OF assms(1) Cons.prems(1,2) cap(1) r]
  have "stream_weight (vs_inner t) \<le> stream_weight (vs_inner s) - 1"
    using t by (auto simp: stream_weight_def)
  then show ?case
    using Cons.IH [OF vless_poll_read_inv [OF Cons.prems(1) r] _ cap(2) rs(1)] t rs(2) by force
qed simp

lemma exhausted_payload:
  assumes "well_formed_response data payload" "resp_inv data out s" "vs_inner s = []"
  shows "out = payload"
proof (cases "vs_header_done s")
  case True
  then have "vs_addons_remaining s = 0" using addons_not_failed [OF assms(1,2)] assms(3) by simp
  then show ?thesis
    using True assms by (auto simp: resp_inv_def well_formed_response_def stream_data_def)
next
  case False
  then have "out = []" "length data \<le> 2"
    using assms(2,3) by (auto simp: resp_inv_def stream_data_def)
  with assms(1) show ?thesis by (auto simp: well_formed_response_def)
qed

lemma new_response_stream_inv: "resp_inv (stream_data es) [] (new_response_stream es)"
  by (simp add: resp_inv_def new_response_stream_def)

lemma read_request_of_request:
  assumes "vless_request parse_uuid uuid target = Inr request"
    and "parse_uuid uuid = Some u" and "length u = 16"
  shows "\<exists>host port. split_target target = Inr (host, port) \<and>
    read_request u (request @ rest) = Inr (port, rest) \<and>
    (\<forall>u'. u' \<noteq> u \<longrightarrow> read_request u' (request @ rest) = Inl InvalidCredential)"
proof -
  from assms obtain host port address where t: "split_target target = Inr (host, port)"
      "vless_address host = Inr address" "request = [0] @ u @ [0, 1] @ to_be 2 port @ address"
    by (auto simp: vless_request_def split: sum.splits)
  have req: "request @ rest = 0 # u @ 0 # 1 # to_be 2 port @ address @ rest" using t(3) by simp
  have head: "(0 # u @ [0]) ! 17 = 0" using assms(3) by (simp add: nth_append)
  show ?thesis
    using t(1) read_exact_header [OF assms(3)] head assms(3)
      read_command_ok [OF read_vless_address [OF t(2)]]
    unfolding req by (simp add: read_request_def read_exact_def)
qed

lemma polls_deliver:
  assumes "well_formed_response (stream_data es) payload" and "list_all clean_event es"
    and "list_all (\<lambda>cap. 0 < cap) caps" and "stream_weight es \<le> length caps"
  shows "delivered (fst (vless_polls caps (new_response_stream es))) = payload"
    "\<And>k. ReadErr k \<notin> set (fst (vless_polls caps (new_response_stream es)))"
proof -
  obtain rs s where p: "vless_polls caps (new_response_stream es) = (rs, s)"
    by (cases "vless_polls caps (new_response_stream es)")
  have live: "stream_live (new_response_stream es)" "vs_inner (new_response_stream es) = es"
    using assms(2) by (simp_all add: stream_live_def new_response_stream_def)
  note l = vless_polls_live [OF assms(1) new_response_stream_inv live(1) assms(3) p]
  then have "vs_inner s = []"
    using live(2) assms(4) clean_empty_iff [of "vs_inner s"] by (simp add: stream_live_def)
  with exhausted_payload [OF assms(1) vless_polls_inv [OF new_response_stream_inv p]] p l
  show "delivered (fst (vless_polls caps (new_response_stream es))) = payload"
    "\<And>k. ReadErr k \<notin> set (fst (vless_polls caps (new_response_stream es)))" by simp_all
qed

section \<open>Properties\<close>

text \<open>C26. Client and gateway agree on the request format. The request that the client's
  \<open>connect\<close> builds for a target, followed by any tunnel data, is read by the gateway that has
  the same UUID as a request for the port of that target, with exactly the tunnel data left; a
  gateway with any other UUID rejects it as an invalid credential.\<close>

theorem vless_request_roundtrip:
  assumes "vless_request parse_uuid uuid target = Inr request"
    and "parse_uuid uuid = Some u" and "length u = 16"
  shows "\<exists>host port. split_target target = Inr (host, port) \<and>
    read_request u (request @ rest) = Inr (port, rest) \<and>
    (\<forall>u'. u' \<noteq> u \<longrightarrow> read_request u' (request @ rest) = Inl InvalidCredential)"
  using assms by (rule read_request_of_request)

theorem vless_request_roundtrip_witness:
  "\<exists>request. vless_request (\<lambda>_. Some (replicate 16 7)) ''id'' ''a:443'' = Inr request \<and>
     read_request (replicate 16 7) (request @ [9]) = Inr (443, [9])"
proof -
  have split: "split_target ''a:443'' = Inr (''a'', 443)"
    by (simp add: split_target_def addr_eval rsplit_once_def trim_matches_def parse_u16_def
        parse_unsigned_def)
  have "vless_address ''a'' = Inr [2, 1, 97]"
    by (simp add: vless_address_def addr_eval as_bytes_def)
  with split obtain request where r: "vless_request (\<lambda>_. Some (replicate 16 7)) ''id'' ''a:443'' = Inr request"
    by (simp add: vless_request_def)
  from vless_request_roundtrip [OF this, of "replicate 16 7" "[9]"] split r show ?thesis by auto
qed

text \<open>C25. The response header never becomes payload. Whatever the transport delivers, in whatever
  fragments, and whatever the sizes of the reads: what the reads return is empty or follows, in
  the bytes of the transport, a version byte 0, a length byte and that many add-on bytes; and once
  the header or its add-ons have failed, nothing has been returned and every later read reports the
  same error.\<close>

theorem vless_response_sound:
  assumes "vless_polls caps (new_response_stream es) = (rs, s)"
  shows "(delivered rs \<noteq> [] \<longrightarrow> (\<exists>rest. well_formed_response (stream_data es) (delivered rs @ rest)))
    \<and> (\<forall>k. vs_failed s = Some k \<longrightarrow>
         delivered rs = [] \<and> (\<forall>cap > 0. vless_poll_read cap s = (ReadErr k, s)))"
proof -
  have inv: "resp_inv (stream_data es) (delivered rs) s"
    using vless_polls_inv [OF new_response_stream_inv assms] by simp
  then have "delivered rs \<noteq> [] \<Longrightarrow> \<exists>rest. well_formed_response (stream_data es) (delivered rs @ rest)"
    unfolding resp_inv_def well_formed_response_def by (auto split: if_splits) blast
  with inv show ?thesis by (auto simp: resp_inv_def vless_poll_read_def)
qed

theorem vless_response_sound_witness:
  "\<exists>s. vless_polls [4] (new_response_stream [Chunk [1, 0, 5]]) = ([ReadErr InvalidData], s) \<and>
     vless_poll_read 9 s = (ReadErr InvalidData, s)"
proof -
  let ?p = "vless_polls [4] (new_response_stream [Chunk [1, 0, 5]])"
  have run: "fst ?p = [ReadErr InvalidData]" "vs_failed (snd ?p) = Some InvalidData"
    by (simp_all add: new_response_stream_def vless_poll_read_def read_header_filled fill_header_def
        header_filled_def)
  then show ?thesis
    using vless_response_sound [of "[4]" "[Chunk [1, 0, 5]]" "fst ?p" "snd ?p"]
    by (intro exI [of _ "snd ?p"]) (auto simp: prod_eq_iff)
qed

text \<open>C24. The response stream loses nothing. If the transport carries a well-formed response and
  does not fail, then no read fails, and as many non-empty reads as the transport has bytes and
  not-ready polls return the whole payload, however it is fragmented.\<close>

theorem vless_response_complete:
  assumes "well_formed_response (stream_data es) payload" and "list_all clean_event es"
    and "list_all (\<lambda>cap. 0 < cap) caps" and "stream_weight es \<le> length caps"
  shows "\<exists>rs s. vless_polls caps (new_response_stream es) = (rs, s) \<and>
    delivered rs = payload \<and> (\<forall>k. ReadErr k \<notin> set rs)"
  using polls_deliver [OF assms] by (cases "vless_polls caps (new_response_stream es)") simp

theorem vless_response_complete_witness:
  "\<exists>rs s. vless_polls (replicate 8 3) (new_response_stream
       [Chunk [0], NotReady, Chunk [2, 8], Chunk [8, 5], NotReady, Chunk [6]]) = (rs, s) \<and>
     delivered rs = [5, 6]"
proof -
  let ?es = "[Chunk [0], NotReady, Chunk [2, 8], Chunk [8, 5], NotReady, Chunk [6]]"
  have "well_formed_response (stream_data ?es) [5, 6]"
    by (auto simp: well_formed_response_def stream_data_def intro!: exI [of _ "[8, 8]"])
  moreover have "list_all clean_event ?es" "list_all (\<lambda>cap. 0 < cap) (replicate 8 (3 :: nat))"
      "stream_weight ?es \<le> length (replicate 8 3)"
    by (simp_all add: stream_weight_def list_all_iff)
  ultimately show ?thesis
    using vless_response_complete [of ?es "[5, 6]" "replicate 8 3"] by blast
qed

end
