(* ===== verification/Server_Common.thy ===== *)
theory Server_Common
  imports Rust_Str "HOL-Library.List_Lexorder" "HOL-Library.Char_ord"
begin

text \<open>
  The helpers both servers share (\<open>server/src/common.rs\<close>): command-line and environment
  arguments under their aliases, server lists, the bind and console addresses, the initial
  "expired" time of a peer and the server key. The process environment is an association list
  with distinct keys. What the code asks of the network and of the cryptographic libraries is a
  parameter: \<open>resolves host\<close> (name resolution gives at least one address) and the base64 pair.
\<close>

section \<open>Addresses\<close>

definition parse_bind_address :: "string \<Rightarrow> string + ip_addr option" where
  "parse_bind_address value =
     (let value = str_trim value in
      if value = [] then Inr None
      else (case parse_ip_addr value of
              Some ip \<Rightarrow> Inr (Some ip) | None \<Rightarrow> Inl (''Invalid bind address: '' @ value)))"

definition console_addr :: "ip_addr option \<Rightarrow> u16 \<Rightarrow> socket_addr option" where
  "console_addr bind_addr port =
     (case bind_addr of None \<Rightarrow> None
      | Some bind_addr \<Rightarrow>
          if is_unspecified bind_addr \<or> bind_addr = localhost_v4 then None
          else Some (new_socket_addr localhost_v4 port))"

text \<open>\<open>listen_console\<close>: \<open>bind\<close> is the listening call of the operating system.\<close>

definition listen_console ::
    "(socket_addr \<Rightarrow> 'e + 'l) \<Rightarrow> ip_addr option \<Rightarrow> u16 \<Rightarrow> 'e + 'l option" where
  "listen_console bind bind_addr port =
     (case console_addr bind_addr port of
        Some addr \<Rightarrow> (case bind addr of Inl e \<Rightarrow> Inl e | Inr l \<Rightarrow> Inr (Some l))
      | None \<Rightarrow> Inr None)"

text \<open>The bind address already accepts connections to 127.0.0.1: the any-address of either
  family (the V6 any-address listens with \<open>only_v6\<close> off) or 127.0.0.1 itself.\<close>

definition covers_localhost :: "ip_addr option \<Rightarrow> bool" where
  "covers_localhost bind_addr \<longleftrightarrow>
     bind_addr \<in> {None, Some (IpV4 0), Some (IpV6 0), Some (IpV4 0x7F000001)}"

lemma console_addr_iff: "console_addr b port = None \<longleftrightarrow> covers_localhost b"
proof (cases b)
  case (Some ip)
  then show ?thesis
    by (cases ip) (auto simp: console_addr_def covers_localhost_def localhost_v4_def)
qed (simp add: console_addr_def covers_localhost_def)

section \<open>Time\<close>

definition get_expired_time :: "instant \<Rightarrow> instant" where
  "get_expired_time now = (if now \<ge> 3600 * 1000000000 then now - 3600 * 1000000000 else now)"

section \<open>Server lists\<close>

definition test_if_valid_server :: "(string \<Rightarrow> bool) \<Rightarrow> string \<Rightarrow> bool" where
  "test_if_valid_server resolves host =
     (if CHR '':'' \<in> set host then resolves host else resolves (host @ '':0''))"

definition get_servers :: "(string \<Rightarrow> bool) \<Rightarrow> string \<Rightarrow> string list" where
  "get_servers resolves s =
     filter (\<lambda>x. x \<noteq> [] \<and> test_if_valid_server resolves x) (split_on (CHR '','') s)"

section \<open>Arguments\<close>

type_synonym environ = "(string \<times> string) list"

definition arg_name :: "string \<Rightarrow> string" where
  "arg_name name = replace_char (CHR ''_'') (CHR ''-'') (to_uppercase name)"

definition env_set :: "string \<Rightarrow> string \<Rightarrow> environ \<Rightarrow> environ" where
  "env_set k v env = (k, v) # filter (\<lambda>kv. fst kv \<noteq> k) env"

definition set_arg :: "string \<Rightarrow> string \<Rightarrow> environ \<Rightarrow> environ" where
  "set_arg name v env = env_set (arg_name name) v env"

definition arg_aliases :: "string \<Rightarrow> string list" where
  "arg_aliases name =
     (let dashed = arg_name name;
          underscored = replace_char (CHR ''-'') (CHR ''_'') dashed
      in [dashed, underscored, to_lowercase dashed, to_lowercase underscored])"

fun first_var :: "environ \<Rightarrow> string list \<Rightarrow> string option" where
  "first_var env [] = None"
| "first_var env (a # as) = (case map_of env a of Some v \<Rightarrow> Some v | None \<Rightarrow> first_var env as)"

definition get_arg_opt :: "environ \<Rightarrow> string \<Rightarrow> string option" where
  "get_arg_opt env name =
     (case first_var env (arg_aliases name) of
        Some v \<Rightarrow> Some v
      | None \<Rightarrow>
          (case sort_key fst (filter (\<lambda>kv. arg_name (fst kv) = arg_name name) env) of
             [] \<Rightarrow> None | (_, v) # _ \<Rightarrow> Some v))"

definition get_arg_or :: "environ \<Rightarrow> string \<Rightarrow> string \<Rightarrow> string" where
  "get_arg_or env name dflt = (case get_arg_opt env name of Some v \<Rightarrow> v | None \<Rightarrow> dflt)"

definition get_arg :: "environ \<Rightarrow> string \<Rightarrow> string" where
  "get_arg env name = get_arg_or env name []"

text \<open>\<open>init_args\<close>: the \<open>.env\<close> file, then the configuration file, then the command line, each
  written over what is there. The three arguments are the sections read from them.\<close>

definition init_args :: "environ \<Rightarrow> environ \<Rightarrow> environ \<Rightarrow> environ \<Rightarrow> environ" where
  "init_args dotenv config args env =
     fold (\<lambda>(k, v) e. set_arg k v e) args
       (fold (\<lambda>(k, v) e. set_arg k v e) config
         (fold (\<lambda>(k, v) e. set_arg k v e) dotenv env))"

subsection \<open>Case and separator folding\<close>

lemma of_upper_char:
  "(of_char (upper_char c) :: nat) =
     (let n = of_char c in if 97 \<le> n \<and> n \<le> 122 then n - 32 else n)"
  by (auto simp: upper_char_def Let_def)

lemma of_lower_char:
  "(of_char (lower_char c) :: nat) =
     (let n = of_char c in if 65 \<le> n \<and> n \<le> 90 then n + 32 else n)"
  by (auto simp: lower_char_def Let_def)

lemma char_eqI: "(of_char c :: nat) = of_char d \<Longrightarrow> c = d"
  by (simp only: of_char_eq_iff)

lemma upper_char_idem: "upper_char (upper_char c) = upper_char c"
  by (rule char_eqI) (auto simp: of_upper_char Let_def)

lemma upper_lower: "upper_char (lower_char c) = upper_char c"
  by (rule char_eqI) (auto simp: of_upper_char of_lower_char Let_def)

lemma upper_char_sep [simp]:
  "upper_char (CHR ''-'') = CHR ''-''" "upper_char (CHR ''_'') = CHR ''_''"
  by (simp_all add: upper_char_def)

lemma upper_char_eq_sep:
  "upper_char c = CHR ''-'' \<longleftrightarrow> c = CHR ''-''" "upper_char c = CHR ''_'' \<longleftrightarrow> c = CHR ''_''"
proof -
  have "upper_char c = d \<Longrightarrow> of_char d = (45 :: nat) \<or> of_char d = (95 :: nat) \<Longrightarrow> c = d" for d
    by (rule char_eqI) (use of_upper_char [of c] in \<open>auto simp: Let_def split: if_splits\<close>)
  then show "upper_char c = CHR ''-'' \<longleftrightarrow> c = CHR ''-''" "upper_char c = CHR ''_'' \<longleftrightarrow> c = CHR ''_''"
    by force+
qed

definition fold_char :: "char \<Rightarrow> char" where
  "fold_char c = (let u = upper_char c in if u = CHR ''_'' then CHR ''-'' else u)"

lemma arg_name_map: "arg_name = map fold_char"
  by (rule ext) (simp add: arg_name_def replace_char_def to_uppercase_def fold_char_def)

lemma fold_char_idem [simp]: "fold_char (fold_char c) = fold_char c"
  by (simp add: fold_char_def upper_char_idem Let_def)

lemma fold_char_lower [simp]: "fold_char (lower_char c) = fold_char c"
  by (simp add: fold_char_def upper_lower)

lemma fold_char_unsep [simp]:
  "fold_char (if c = CHR ''-'' then CHR ''_'' else c) = fold_char c"
  by (simp add: fold_char_def upper_char_eq_sep)

lemma arg_name_idem [simp]: "arg_name (arg_name n) = arg_name n"
  by (simp add: arg_name_map)

lemma arg_aliases_fold: "a \<in> set (arg_aliases n) \<Longrightarrow> arg_name a = arg_name n"
  by (auto simp: arg_aliases_def Let_def arg_name_map replace_char_def to_lowercase_def)

lemma first_var_Some:
  "first_var env as = Some v \<Longrightarrow> \<exists>a \<in> set as. map_of env a = Some v"
  by (induction as) (auto split: option.splits)

lemma map_of_env_set: "map_of (env_set k v env) = (map_of env)(k \<mapsto> v)"
proof -
  have "x \<noteq> k \<Longrightarrow> map_of (filter (\<lambda>kv. fst kv \<noteq> k) env) x = map_of env x" for x
    by (induction env) auto
  then show ?thesis by (auto simp: env_set_def)
qed

lemma distinct_env_set: "distinct (map fst env) \<Longrightarrow> distinct (map fst (env_set k v env))"
  by (auto simp: env_set_def distinct_map filter_set inj_on_def)

section \<open>The server key\<close>

text \<open>\<open>base64::encode\<close> and \<open>base64::decode\<close> are the parameters \<open>b64e\<close> and \<open>b64d\<close>. What
  \<open>gen_sk\<close> finds and does on disk is the record \<open>key_files\<close>: the text of \<open>id_ed25519\<close>
  (\<open>None\<close> where it cannot be opened), whether reading it works, the key pairs the generator
  returns one after the other, and whether the two new files can be written.\<close>

record key_files =
  kf_sk_file :: "string option"
  kf_read_ok :: bool
  kf_gen :: "nat \<Rightarrow> bytes \<times> bytes"
  kf_write_ok :: bool

datatype 'a exit_or = Exit | Return 'a

definition secretkeybytes :: nat where
  "secretkeybytes = 64"

definition plain_pk :: "string \<Rightarrow> bool" where
  "plain_pk pk \<longleftrightarrow> CHR ''/'' \<notin> set pk \<and> CHR '':'' \<notin> set pk"

text \<open>The retry loop: at most \<open>n\<close> more key pairs.\<close>

fun pick_keypair :: "(bytes \<Rightarrow> string) \<Rightarrow> (nat \<Rightarrow> bytes \<times> bytes) \<Rightarrow> nat \<Rightarrow> nat \<Rightarrow> string \<times> bytes" where
  "pick_keypair b64e gen i 0 = (b64e (fst (gen i)), snd (gen i))"
| "pick_keypair b64e gen i (Suc n) =
     (let pk = b64e (fst (gen i)) in
      if plain_pk pk then (pk, snd (gen i)) else pick_keypair b64e gen (Suc i) n)"

definition gen_sk ::
    "(bytes \<Rightarrow> string) \<Rightarrow> (string \<Rightarrow> bytes option) \<Rightarrow> key_files \<Rightarrow> (string \<times> bytes option) exit_or" where
  "gen_sk b64e b64d kf =
     (case kf_sk_file kf of
        Some contents \<Rightarrow>
          if kf_read_ok kf then
            (let sk = (case b64d (str_trim contents) of Some x \<Rightarrow> x | None \<Rightarrow> []) in
             if length sk = secretkeybytes then
               Return (b64e (drop (secretkeybytes div 2) sk), Some sk)
             else Exit)
          else Return ([], None)
      | None \<Rightarrow>
          (let (pk, sk) = pick_keypair b64e (kf_gen kf) 0 300 in
           if kf_write_ok kf then Return (pk, Some sk) else Return ([], None)))"

text \<open>\<open>RendezvousServer::get_server_sk\<close> and the \<open>get_server_sk\<close> of the relay.\<close>

definition hbbs_get_server_sk ::
    "(bytes \<Rightarrow> string) \<Rightarrow> (string \<Rightarrow> bytes option) \<Rightarrow> key_files \<Rightarrow> string \<Rightarrow> (string \<times> bytes option) exit_or" where
  "hbbs_get_server_sk b64e b64d kf key =
     (let (key, out_sk) =
            (case b64d key of
               Some sk \<Rightarrow>
                 if length sk = secretkeybytes then (b64e (drop (secretkeybytes div 2) sk), Some sk)
                 else (key, None)
             | None \<Rightarrow> (key, None))
      in if key = [] \<or> key = ''-'' \<or> key = ''_'' then
           (case gen_sk b64e b64d kf of
              Exit \<Rightarrow> Exit
            | Return (pk, sk) \<Rightarrow> Return (if key \<noteq> [] then pk else key, sk))
         else Return (key, out_sk))"

definition hbbr_get_server_sk ::
    "(bytes \<Rightarrow> string) \<Rightarrow> (string \<Rightarrow> bytes option) \<Rightarrow> key_files \<Rightarrow> string \<Rightarrow> string exit_or" where
  "hbbr_get_server_sk b64e b64d kf key =
     (let key =
            (case b64d key of
               Some sk \<Rightarrow>
                 if length sk = secretkeybytes then b64e (drop (secretkeybytes div 2) sk) else key
             | None \<Rightarrow> key)
      in if key = ''-'' \<or> key = ''_'' then
           (case gen_sk b64e b64d kf of Exit \<Rightarrow> Exit | Return (pk, _) \<Rightarrow> Return pk)
         else Return key)"

lemma pick_keypair_gen: "\<exists>j. pick_keypair b64e gen i n = (b64e (fst (gen j)), snd (gen j))"
  by (induction n arbitrary: i) (auto simp: Let_def)

section \<open>Properties\<close>

text \<open>An argument is found under every spelling. Where some variable of the environment is
  the argument's name up to case and the choice between dash and underscore, \<open>get_arg_opt\<close>
  returns the value of such a variable, and otherwise it returns nothing. A value stored with
  \<open>set_arg\<close> is the one returned, whatever other spellings the environment holds; so the last
  value of the command line wins over the configuration file and the \<open>.env\<close> file.\<close>

theorem get_arg_opt_spec:
  assumes "distinct (map fst env)"
  shows "(case get_arg_opt env name of
      Some v \<Rightarrow> (\<exists>k. map_of env k = Some v \<and> arg_name k = arg_name name)
    | None \<Rightarrow> (\<forall>k \<in> fst ` set env. arg_name k \<noteq> arg_name name))
   \<and> (arg_name name = arg_name name' \<longrightarrow>
        get_arg_opt (set_arg name v env) name' = Some v \<and>
        get_arg_opt (init_args dotenv config (args @ [(name, v)]) env) name' = Some v)"
proof
  have set: "arg_name name = arg_name name' \<Longrightarrow> get_arg_opt (set_arg name v e) name' = Some v" for e
    by (simp add: get_arg_opt_def set_arg_def arg_aliases_def map_of_env_set Let_def)
  then show "arg_name name = arg_name name' \<longrightarrow>
        get_arg_opt (set_arg name v env) name' = Some v \<and>
        get_arg_opt (init_args dotenv config (args @ [(name, v)]) env) name' = Some v"
    by (simp add: init_args_def)
  show "case get_arg_opt env name of
      Some v \<Rightarrow> (\<exists>k. map_of env k = Some v \<and> arg_name k = arg_name name)
    | None \<Rightarrow> (\<forall>k \<in> fst ` set env. arg_name k \<noteq> arg_name name)"
  proof (cases "first_var env (arg_aliases name)")
    case (Some v)
    then obtain a where "a \<in> set (arg_aliases name)" "map_of env a = Some v"
      using first_var_Some by blast
    with Some show ?thesis
      using arg_aliases_fold [of a name] by (auto simp: get_arg_opt_def)
  next
    case None
    let ?l = "sort_key fst (filter (\<lambda>kv. arg_name (fst kv) = arg_name name) env)"
    have set: "set ?l = {kv \<in> set env. arg_name (fst kv) = arg_name name}" by simp
    show ?thesis
    proof (cases ?l)
      case Nil
      with set have "\<forall>k \<in> fst ` set env. arg_name k \<noteq> arg_name name" by auto
      with None Nil show ?thesis by (simp add: get_arg_opt_def)
    next
      case (Cons kv l)
      then have "kv \<in> set env" "arg_name (fst kv) = arg_name name" using set by auto
      with None Cons assms show ?thesis
        by (auto simp: get_arg_opt_def split: prod.splits)
    qed
  qed
qed


theorem get_arg_opt_spec_witness:
  "get_arg_opt (set_arg ''relay_servers'' ''b'' [(''RELAY_SERVERS'', ''a'')]) ''relay-servers'' = Some ''b''"
proof -
  have names: "arg_name ''relay_servers'' = arg_name ''relay-servers''"
    by (simp add: arg_name_def replace_char_def to_uppercase_def upper_char_def)
  have "distinct (map fst [(''RELAY_SERVERS'', ''a'')])" by simp
  from get_arg_opt_spec [OF this, of "''relay_servers''" "''relay-servers''" "''b''"] names
  show ?thesis by simp
qed

text \<open>Both servers enforce the same key. Started with the same key argument and the same key
  files, the rendezvous server and the relay server end up with the same key string to compare
  the clients' licence key with (or both exit on a malformed key file), and where the rendezvous
  server also has a secret key to sign with, read from the argument or from the key file, that
  string is empty or the public half of it.\<close>

theorem server_keys_agree:
  assumes key_file: "kf_sk_file kf = Some contents" "kf_read_ok kf"
    and b64e_nonempty: "\<And>x. x \<noteq> [] \<Longrightarrow> b64e x \<noteq> []"
  shows "(case hbbs_get_server_sk b64e b64d kf key of
            Exit \<Rightarrow> key = [] \<or> hbbr_get_server_sk b64e b64d kf key = Exit
          | Return (k, sk) \<Rightarrow>
              hbbr_get_server_sk b64e b64d kf key = Return k \<and>
              (\<forall>s. sk = Some s \<longrightarrow> length s = secretkeybytes \<and> (k = [] \<or> k = b64e (drop 32 s))))"
proof -
  have "length x = 64 \<Longrightarrow> b64e (drop 32 x) \<noteq> []" for x
    by (rule b64e_nonempty) auto
  with key_file show ?thesis
    by (auto simp: hbbs_get_server_sk_def hbbr_get_server_sk_def gen_sk_def Let_def
        secretkeybytes_def split: option.splits exit_or.splits)
qed

theorem server_keys_agree_witness:
  "hbbr_get_server_sk (\<lambda>x. map (\<lambda>_. CHR ''A'') x) (\<lambda>s. if s = ''-'' then None else Some (map (\<lambda>_. 0) s))
     \<lparr>kf_sk_file = Some (replicate 64 CHR ''B''), kf_read_ok = True, kf_gen = (\<lambda>_. ([], [])),
      kf_write_ok = False\<rparr> ''-'' = Return (replicate 32 CHR ''A'')"
proof -
  let ?e = "\<lambda>x :: bytes. map (\<lambda>_. CHR ''A'') x"
  let ?d = "\<lambda>s :: string. if s = ''-'' then None else Some (map (\<lambda>_. 0 :: u8) s)"
  let ?kf = "\<lparr>kf_sk_file = Some (replicate 64 CHR ''B''), kf_read_ok = True,
    kf_gen = (\<lambda>_. ([], [])), kf_write_ok = False\<rparr>"
  have dash: "replicate 64 CHR ''B'' \<noteq> ''-''"
    by (simp add: numeral_eq_Suc)
  have trim: "str_trim (replicate 64 CHR ''B'') = replicate 64 CHR ''B''"
    by code_simp
  have "hbbs_get_server_sk ?e ?d ?kf ''-'' = Return (replicate 32 CHR ''A'', Some (replicate 64 0))"
    by (simp add: hbbs_get_server_sk_def gen_sk_def trim dash secretkeybytes_def
        map_replicate_const drop_replicate)
  with server_keys_agree [of ?kf "replicate 64 CHR ''B''" ?e "''-''" ?d]
  show ?thesis by (simp add: secretkeybytes_def)
qed

end
