(* ===== verification/Gateways.thy ===== *)
theory Gateways
  imports Vless_Wire Server_Common
begin

text \<open>
  The tunnels in front of the rendezvous and relay servers.
  \<^item> \<open>server/src/vless.rs\<close>: the configuration of the VLESS gateway and \<open>handle\<close>, the
    life of one connection.
  \<^item> \<open>server/src/ssh.rs\<close>: the configuration of the SSH gateway, \<open>auth_publickey\<close> and
    \<open>channel_open_direct_tcpip\<close>.
  \<^item> \<open>client/libs/hbb_common/src/vless_reality.rs\<close>: the settings of the REALITY transport,
    \<open>restricted_target\<close> and the reuse of the running side car.
  \<^item> \<open>client/libs/hbb_common/src/ssh.rs\<close>: the channel target.
  TLS, the SSH transport, connecting a TCP stream and the key formats are outside the sources: they
  are parameters. What a connection does is the list of its effects.
\<close>

section \<open>VLESS gateway configuration\<close>

type_synonym env_vars = "(string \<times> string) list"

definition env_value :: "env_vars \<Rightarrow> string \<Rightarrow> string \<Rightarrow> string" where
  "env_value env name dflt = (case map_of env name of Some v \<Rightarrow> v | None \<Rightarrow> dflt)"

datatype config_error = BadUuidVar | Required string | NotANumber string | NotPositive string

definition required :: "env_vars \<Rightarrow> string \<Rightarrow> config_error + string" where
  "required env name =
     (let v = env_value env name '''' in if v = [] then Inl (Required name) else Inr v)"

definition positive_number :: "nat \<Rightarrow> env_vars \<Rightarrow> string \<Rightarrow> string \<Rightarrow> config_error + nat" where
  "positive_number m env name dflt =
     (case parse_unsigned m (env_value env name dflt) of
        None \<Rightarrow> Inl (NotANumber name)
      | Some n \<Rightarrow> if n = 0 then Inl (NotPositive name) else Inr n)"

definition duration_from_env :: "env_vars \<Rightarrow> string \<Rightarrow> string \<Rightarrow> config_error + nat" where
  "duration_from_env = positive_number (2 ^ 64 - 1)"

definition positive_usize :: "env_vars \<Rightarrow> string \<Rightarrow> string \<Rightarrow> config_error + nat" where
  "positive_usize = positive_number (2 ^ 64 - 1)"

record vless_config =
  vc_listen :: string
  vc_uuid :: bytes
  vc_cert :: string
  vc_key :: string
  vc_hbbs :: string
  vc_nat :: string
  vc_hbbr :: string
  vc_tls_handshake_timeout :: nat
  vc_header_timeout :: nat
  vc_upstream_connect_timeout :: nat
  vc_max_connections :: nat

definition vless_config_from_env ::
    "(string \<Rightarrow> bytes option) \<Rightarrow> env_vars \<Rightarrow> config_error + vless_config" where
  "vless_config_from_env parse_uuid env =
     bind_result (case parse_uuid (env_value env ''VLESS_UUID'' '''') of
                    None \<Rightarrow> Inl BadUuidVar | Some u \<Rightarrow> Inr u) (\<lambda>uuid.
     bind_result (required env ''VLESS_CERT'') (\<lambda>cert.
     bind_result (required env ''VLESS_KEY'') (\<lambda>key.
     bind_result (duration_from_env env ''VLESS_TLS_HANDSHAKE_TIMEOUT_SECS'' ''10'') (\<lambda>tls.
     bind_result (duration_from_env env ''VLESS_HEADER_TIMEOUT_SECS'' ''10'') (\<lambda>header.
     bind_result (duration_from_env env ''VLESS_UPSTREAM_CONNECT_TIMEOUT_SECS'' ''5'') (\<lambda>upstream.
     bind_result (positive_usize env ''VLESS_MAX_CONNECTIONS'' ''1024'') (\<lambda>slots.
     Inr \<lparr>vc_listen = env_value env ''VLESS_LISTEN'' ''0.0.0.0:443'', vc_uuid = uuid,
          vc_cert = cert, vc_key = key,
          vc_hbbs = env_value env ''VLESS_HBBS'' ''127.0.0.1:21116'',
          vc_nat = env_value env ''VLESS_NAT'' ''127.0.0.1:21115'',
          vc_hbbr = env_value env ''VLESS_HBBR'' ''127.0.0.1:21117'',
          vc_tls_handshake_timeout = tls, vc_header_timeout = header,
          vc_upstream_connect_timeout = upstream, vc_max_connections = slots\<rparr>)))))))"

section \<open>One VLESS connection\<close>

text \<open>A step under \<open>timeout\<close>: too late, an error, or a result.\<close>

datatype 'a timed = TimedOut | Failed | InTime 'a

datatype gateway_error =
  TlsFailed | RequestTimedOut | BadRequest vless_error | PortNotPermitted | UpstreamFailed | WriteFailed | CopyFailed

datatype gateway_effect =
  ConnectTo string | SendToClient bytes | CopyBoth string bytes

definition vless_upstream :: "vless_config \<Rightarrow> u16 \<Rightarrow> string option" where
  "vless_upstream c port =
     (if port = 21116 then Some (vc_hbbs c)
      else if port = 21115 then Some (vc_nat c)
      else if port \<in> {21117, 8443, 443} then Some (vc_hbbr c)
      else None)"

text \<open>\<open>tls\<close> is the outcome of the TLS handshake, \<open>incoming\<close> the bytes the client sends in
  time for its request and after it, \<open>connect\<close> the outcome of connecting to an upstream; \<open>wrote\<close> and
  \<open>copied\<close> are the outcomes of writing the response header with its flush, and of the copy in both directions.\<close>

definition vless_handle ::
    "vless_config \<Rightarrow> unit timed \<Rightarrow> bytes timed \<Rightarrow> (string \<Rightarrow> unit timed) \<Rightarrow> bool \<Rightarrow> bool \<Rightarrow>
     (gateway_error + unit) \<times> gateway_effect list" where
  "vless_handle c tls incoming connect wrote copied =
     (case tls of
        TimedOut \<Rightarrow> (Inl TlsFailed, [])
      | Failed \<Rightarrow> (Inl TlsFailed, [])
      | InTime _ \<Rightarrow>
          (case incoming of
             TimedOut \<Rightarrow> (Inl RequestTimedOut, [])
           | Failed \<Rightarrow> (Inl (BadRequest UnexpectedEof), [])
           | InTime stream \<Rightarrow>
               (case read_request (vc_uuid c) stream of
                  Inl e \<Rightarrow> (Inl (BadRequest e), [])
                | Inr (port, rest) \<Rightarrow>
                    (case vless_upstream c port of
                       None \<Rightarrow> (Inl PortNotPermitted, [])
                     | Some upstream \<Rightarrow>
                         (case connect upstream of
                            InTime _ \<Rightarrow>
                              if \<not> wrote then (Inl WriteFailed, [ConnectTo upstream, SendToClient [0, 0]])
                              else (if copied then Inr () else Inl CopyFailed,
                                    [ConnectTo upstream, SendToClient [0, 0], CopyBoth upstream rest])
                          | _ \<Rightarrow> (Inl UpstreamFailed, [ConnectTo upstream]))))))"

text \<open>The accept loop with its semaphore: \<open>used\<close> permits are taken. \<open>Some used\<close> where the
  connection is admitted, \<open>None\<close> where it is dropped.\<close>

definition vless_admit :: "vless_config \<Rightarrow> nat \<Rightarrow> nat option" where
  "vless_admit c used = (if used < vc_max_connections c then Some (Suc used) else None)"

datatype slot_event = Accepted | Closed

fun slots_run :: "vless_config \<Rightarrow> nat \<Rightarrow> slot_event list \<Rightarrow> nat" where
  "slots_run c used [] = used"
| "slots_run c used (Accepted # es) =
     slots_run c (case vless_admit c used of Some u \<Rightarrow> u | None \<Rightarrow> used) es"
| "slots_run c used (Closed # es) = slots_run c (used - 1) es"

section \<open>SSH gateway\<close>

record 'k ssh_config =
  sc_hbbs :: string
  sc_nat :: string
  sc_hbbr :: string
  sc_authorized_keys :: "'k list"

text \<open>The lines of \<open>SSH_AUTHORIZED_KEYS\<close> that parse; \<open>from_openssh\<close> is the key parser.\<close>

definition authorized_lines :: "(string \<Rightarrow> 'k option) \<Rightarrow> string \<Rightarrow> 'k list" where
  "authorized_lines from_openssh content =
     List.map_filter from_openssh
       (filter (\<lambda>l. l \<noteq> [] \<and> hd l \<noteq> CHR ''#'')
         (map str_trim (split_on (CHR 0x0A) content)))"

definition ssh_config_from_env ::
    "(string \<Rightarrow> 'k option) \<Rightarrow> (string \<Rightarrow> string option) \<Rightarrow> string \<Rightarrow> env_vars \<Rightarrow> 'k ssh_config option" where
  "ssh_config_from_env from_openssh read_file builtin env =
     (case from_openssh builtin of
        None \<Rightarrow> None
      | Some k \<Rightarrow>
          (let path = env_value env ''SSH_AUTHORIZED_KEYS'' '''';
               file_keys = (if path = [] then []
                        else case read_file path of
                               None \<Rightarrow> []
                             | Some content \<Rightarrow> authorized_lines from_openssh content)
           in Some \<lparr>sc_hbbs = env_value env ''SSH_HBBS'' ''127.0.0.1:22116'',
                    sc_nat = env_value env ''SSH_NAT'' ''127.0.0.1:22115'',
                    sc_hbbr = env_value env ''SSH_HBBR'' ''127.0.0.1:22117'',
                    sc_authorized_keys = k # file_keys\<rparr>))"

definition auth_publickey :: "('k \<Rightarrow> 'd) \<Rightarrow> 'k ssh_config \<Rightarrow> 'k \<Rightarrow> bool" where
  "auth_publickey key_data c key \<longleftrightarrow>
     list_ex (\<lambda>k. key_data k = key_data key) (sc_authorized_keys c)"

definition ssh_upstream :: "'k ssh_config \<Rightarrow> u32 \<Rightarrow> string option" where
  "ssh_upstream c port =
     (if port = 21116 then Some (sc_hbbs c)
      else if port = 21115 then Some (sc_nat c)
      else if port \<in> {21117, 8443, 443} then Some (sc_hbbr c)
      else None)"

datatype channel_reply = AdministrativelyProhibited | ConnectFailed | ChannelAccepted

definition channel_open_direct_tcpip ::
    "'k ssh_config \<Rightarrow> u32 \<Rightarrow> (string \<Rightarrow> bool) \<Rightarrow> channel_reply \<times> gateway_effect list" where
  "channel_open_direct_tcpip c port connects =
     (case ssh_upstream c port of
        None \<Rightarrow> (AdministrativelyProhibited, [])
      | Some upstream \<Rightarrow>
          if connects upstream then (ChannelAccepted, [ConnectTo upstream, CopyBoth upstream []])
          else (ConnectFailed, [ConnectTo upstream]))"

text \<open>The channel that the client's \<open>ssh.rs\<close> asks for: its \<open>split_target\<close> is the
  function of \<open>vless.rs\<close>, and the port is widened to 32 bits.\<close>

definition ssh_channel_target :: "string \<Rightarrow> target_error + string \<times> u32" where
  "ssh_channel_target target = map_sum id (\<lambda>(host, port). (host, ucast port)) (split_target target)"

section \<open>REALITY transport of the client\<close>

record vless_server =
  vsrv_server :: string
  vsrv_port :: int
  vsrv_uuid :: string
  vsrv_server_name :: string

record reality_settings =
  rs_endpoint :: string
  rs_port :: u16
  rs_uuid :: string
  rs_server_name :: string
  rs_public_key :: string
  rs_short_id :: string
  rs_fingerprint :: string
  rs_flow :: string

datatype reality_error =
  RealityPort | RealityRequired | RealityUuid | RealityKeys | RealityTarget target_error
  | RealityPortNotPermitted

text \<open>\<open>get_option\<close> is \<open>Config::get_option\<close>, the empty string where an option is unset.\<close>

definition reality_from_config ::
    "(string \<Rightarrow> bytes option) \<Rightarrow> (string \<Rightarrow> string) \<Rightarrow> vless_server \<Rightarrow> reality_error + reality_settings" where
  "reality_from_config parse_uuid get_option c =
     (if vsrv_port c < 0 \<or> 65535 < vsrv_port c then Inl RealityPort
      else if vsrv_server c = [] \<or> vsrv_uuid c = [] \<or> vsrv_server_name c = [] then Inl RealityRequired
      else if parse_uuid (vsrv_uuid c) = None then Inl RealityUuid
      else
        (let public_key = get_option ''vless-reality-public-key'';
             short_id = get_option ''vless-reality-short-id'';
             fingerprint = get_option ''vless-reality-fingerprint'';
             flow = get_option ''vless-reality-flow''
         in if public_key = [] \<or> short_id = [] then Inl RealityKeys
            else Inr \<lparr>rs_endpoint = vsrv_server c, rs_port = of_int (vsrv_port c),
                      rs_uuid = vsrv_uuid c, rs_server_name = vsrv_server_name c,
                      rs_public_key = public_key, rs_short_id = short_id,
                      rs_fingerprint = (if fingerprint = [] then ''chrome'' else fingerprint),
                      rs_flow = (if flow = [] then ''xtls-rprx-vision''
                                 else if flow = ''none'' then [] else flow)\<rparr>))"

definition signature_source :: "reality_settings \<Rightarrow> string" where
  "signature_source s =
     join_with (CHR '':'')
       [rs_endpoint s, show_nat (unat (rs_port s)), rs_uuid s, rs_server_name s, rs_public_key s,
        rs_short_id s, rs_fingerprint s, rs_flow s]"

definition restricted_port :: "u16 \<Rightarrow> u16 option" where
  "restricted_port port =
     (if port = 21115 then Some 22115
      else if port = 21116 then Some 22116
      else if port \<in> {21117, 443, 8443} then Some 22117
      else None)"

definition target_port :: "string \<Rightarrow> target_error + u16" where
  "target_port target =
     (case parse_socket_addr target of
        Some address \<Rightarrow> Inr (sa_port address)
      | None \<Rightarrow>
          (case rsplit_once (CHR '':'') target of
             None \<Rightarrow> Inl MissingPort
           | Some (_, port) \<Rightarrow>
               (case parse_u16 port of None \<Rightarrow> Inl InvalidPort | Some port \<Rightarrow> Inr port)))"

definition restricted_target :: "string \<Rightarrow> reality_error + string" where
  "restricted_target target =
     (case target_port target of
        Inl e \<Rightarrow> Inl (RealityTarget e)
      | Inr port \<Rightarrow>
          (case restricted_port port of
             None \<Rightarrow> Inl RealityPortNotPermitted
           | Some port \<Rightarrow> Inr (''127.0.0.1:'' @ show_nat (unat port))))"

record sidecar =
  car_local_port :: u16
  car_signature :: string

text \<open>\<open>ensure_sidecar\<close>: the running side car is kept if it was started with the same settings
  and has not exited; otherwise it is dropped and \<open>start\<close> tries to launch a new one on a free
  port. \<open>alive\<close> is what \<open>try_wait\<close> says of the child (\<open>None\<close> where it fails, which
  ends the call); \<open>digest\<close> is the hexadecimal SHA-256.\<close>

definition start_sidecar :: "string \<Rightarrow> u16 option \<Rightarrow> u16 option \<times> sidecar option" where
  "start_sidecar sig start =
     (start, map_option (\<lambda>p. \<lparr>car_local_port = p, car_signature = sig\<rparr>) start)"

definition ensure_sidecar ::
    "(string \<Rightarrow> string) \<Rightarrow> bool option \<Rightarrow> u16 option \<Rightarrow> reality_settings \<Rightarrow> sidecar option \<Rightarrow>
     u16 option \<times> sidecar option" where
  "ensure_sidecar digest alive start settings current =
     (let sig = digest (signature_source settings) in
      case current of
        None \<Rightarrow> start_sidecar sig start
      | Some car \<Rightarrow>
          if car_signature car \<noteq> sig then start_sidecar sig start
          else (case alive of
                  None \<Rightarrow> (None, current)
                | Some True \<Rightarrow> (Some (car_local_port car), current)
                | Some False \<Rightarrow> start_sidecar sig start))"

section \<open>The contract of a port gateway\<close>

text \<open>The services behind the gateways and the public ports by which clients ask for them.\<close>

datatype service = Rendezvous | NatTest | RelayService

definition service_of_port :: "nat \<Rightarrow> service option" where
  "service_of_port p =
     (if p = 21116 then Some Rendezvous
      else if p = 21115 then Some NatTest
      else if p = 21117 \<or> p = 8443 \<or> p = 443 then Some RelayService
      else None)"

locale port_gateway =
  fixes dial :: "'p::len word \<Rightarrow> 'a option" and upstream :: "service \<Rightarrow> 'a"
  assumes dial_service: "dial p = map_option upstream (service_of_port (unat p))"
begin

lemma dial_Some: "dial p = Some a \<longleftrightarrow> (\<exists>svc. service_of_port (unat p) = Some svc \<and> a = upstream svc)"
  by (auto simp: dial_service)

lemma dial_None: "dial p = None \<longleftrightarrow> unat p \<notin> {21115, 21116, 21117, 8443, 443}"
  by (auto simp: dial_service service_of_port_def)

lemma dial_confined: "dial p = Some a \<Longrightarrow> a \<in> upstream ` {Rendezvous, NatTest, RelayService}"
  by (auto simp: dial_service service_of_port_def split: if_splits)

end

fun vless_service :: "vless_config \<Rightarrow> service \<Rightarrow> string" where
  "vless_service c Rendezvous = vc_hbbs c"
| "vless_service c NatTest = vc_nat c"
| "vless_service c RelayService = vc_hbbr c"

fun ssh_service :: "'k ssh_config \<Rightarrow> service \<Rightarrow> string" where
  "ssh_service c Rendezvous = sc_hbbs c"
| "ssh_service c NatTest = sc_nat c"
| "ssh_service c RelayService = sc_hbbr c"

fun internal_port :: "service \<Rightarrow> u16" where
  "internal_port Rendezvous = 22116"
| "internal_port NatTest = 22115"
| "internal_port RelayService = 22117"

interpretation vless_gw: port_gateway "vless_upstream c" "vless_service c" for c
  by unfold_locales
     (auto simp: vless_upstream_def service_of_port_def word_unat_eq_iff)

interpretation ssh_gw: port_gateway "ssh_upstream c" "ssh_service c" for c
  by unfold_locales
     (auto simp: ssh_upstream_def service_of_port_def word_unat_eq_iff)

interpretation reality_gw: port_gateway restricted_port internal_port
  by unfold_locales
     (auto simp: restricted_port_def service_of_port_def word_unat_eq_iff)

section \<open>Lemmas\<close>

lemma positive_number_Inr: "positive_number m env name dflt = Inr n \<Longrightarrow> 0 < n"
  by (auto simp: positive_number_def split: option.splits if_splits)

lemma slots_run_bound: "used \<le> vc_max_connections c \<Longrightarrow> slots_run c used es \<le> vc_max_connections c"
  by (induction c used es rule: slots_run.induct) (auto simp: vless_admit_def)

lemma target_port_split: "target_port target = map_sum id snd (split_target target)"
  by (auto simp: target_port_def split_target_def split: option.splits)

definition ssh_defaults :: "'k list \<Rightarrow> 'k ssh_config" where
  "ssh_defaults keys =
     \<lparr>sc_hbbs = ''127.0.0.1:22116'', sc_nat = ''127.0.0.1:22115'', sc_hbbr = ''127.0.0.1:22117'',
      sc_authorized_keys = keys\<rparr>"

lemma ssh_defaults_from_env:
  "from_openssh builtin = Some k \<Longrightarrow>
   ssh_config_from_env from_openssh read_file builtin [] = Some (ssh_defaults [k])"
  by (simp add: ssh_config_from_env_def env_value_def ssh_defaults_def)

lemma internal_port_text:
  "''127.0.0.1:'' @ show_nat (unat (internal_port svc)) = ssh_service (ssh_defaults keys) svc"
proof -
  have "show_nat 22116 = ''22116''" "show_nat 22115 = ''22115''" "show_nat 22117 = ''22117''"
    by (simp_all add: show_nat_unfold char_of_def bit_0)
  then show ?thesis by (cases svc) (simp_all add: ssh_defaults_def)
qed

lemma unat_ucast_u32: "unat (ucast (p :: u16) :: u32) = unat p"
  by (simp add: unsigned_ucast_eq take_bit_nat_eq_self order.strict_trans [OF unsigned_less])

section \<open>Properties\<close>

text \<open>C13. The VLESS gateway opens nothing without a valid request. Whatever a client sends, and
  whatever the outcome, the gateway contacts an address only after a TLS handshake and a complete
  request that starts with version 0 and the configured UUID, and the address is the configured
  upstream of the service behind the requested port; on every other run it has no effect at all.\<close>

theorem vless_gateway_confined:
  shows "snd (vless_handle c tls incoming connect wrote copied) = [] \<or>
    (\<exists>stream port rest svc. tls = InTime () \<and> incoming = InTime stream \<and>
       read_request (vc_uuid c) stream = Inr (port, rest) \<and>
       take 17 stream = 0 # vc_uuid c \<and>
       service_of_port (unat port) = Some svc \<and>
       snd (vless_handle c tls incoming connect wrote copied) =
         (if connect (vless_service c svc) = InTime ()
          then [ConnectTo (vless_service c svc), SendToClient [0, 0]] @
            (if wrote then [CopyBoth (vless_service c svc) rest] else [])
          else [ConnectTo (vless_service c svc)]))"
proof (cases "\<exists>stream port rest a. tls = InTime () \<and> incoming = InTime stream \<and>
       read_request (vc_uuid c) stream = Inr (port, rest) \<and> vless_upstream c port = Some a")
  case True
  then obtain stream port rest a where r: "tls = InTime ()" "incoming = InTime stream"
      "read_request (vc_uuid c) stream = Inr (port, rest)" "vless_upstream c port = Some a" by auto
  obtain svc where svc: "service_of_port (unat port) = Some svc" "a = vless_service c svc"
    using r(4) vless_gw.dial_Some by blast
  have "take 17 stream = 0 # vc_uuid c" using read_request_accepts [OF r(3)] by auto
  then show ?thesis
    using r svc by (auto simp: vless_handle_def split: timed.splits)
qed (auto simp: vless_handle_def split: timed.splits sum.splits option.splits)

text \<open>C9. The tunnel works end to end. If the client can build a request for a target whose port
  belongs to a service, with the UUID of the gateway, and the gateway can connect and write, then it connects to the upstream of
  that service, answers with the two-byte response header and forwards exactly the bytes that
  follow the request; and the client's response stream takes that header off whatever the upstream
  sends back.\<close>

theorem vless_tunnel_end_to_end:
  assumes "vless_request parse_uuid uuid target = Inr request"
    and "parse_uuid uuid = Some (vc_uuid c)" and "length (vc_uuid c) = 16"
    and "split_target target = Inr (host, port)" and "service_of_port (unat port) = Some svc"
    and "connect (vless_service c svc) = InTime ()"
  shows "vless_handle c (InTime ()) (InTime (request @ up)) connect True True =
      (Inr (), [ConnectTo (vless_service c svc), SendToClient [0, 0], CopyBoth (vless_service c svc) up])
    \<and> (\<forall>es caps. stream_data es = [0, 0] @ down \<and> list_all clean_event es \<and>
         list_all (\<lambda>cap. 0 < cap) caps \<and> stream_weight es \<le> length caps \<longrightarrow>
         delivered (fst (vless_polls caps (new_response_stream es))) = down)"
proof
  have "read_request (vc_uuid c) (request @ up) = Inr (port, up)"
    using assms(4) read_request_of_request [OF assms(1-3), of up] by auto
  moreover have "vless_upstream c port = Some (vless_service c svc)"
    using assms(5) vless_gw.dial_Some by blast
  ultimately show "vless_handle c (InTime ()) (InTime (request @ up)) connect True True =
      (Inr (), [ConnectTo (vless_service c svc), SendToClient [0, 0], CopyBoth (vless_service c svc) up])"
    using assms(6) by (simp add: vless_handle_def)
  show "\<forall>es caps. stream_data es = [0, 0] @ down \<and> list_all clean_event es \<and>
         list_all (\<lambda>cap. 0 < cap) caps \<and> stream_weight es \<le> length caps \<longrightarrow>
         delivered (fst (vless_polls caps (new_response_stream es))) = down"
    using polls_deliver [of _ down] by (auto simp: well_formed_response_def)
qed

theorem vless_tunnel_end_to_end_witness:
  "\<exists>c request. vless_handle c (InTime ()) (InTime (request @ [1, 2])) (\<lambda>_. InTime ()) True True =
     (Inr (), [ConnectTo ''hbbr'', SendToClient [0, 0], CopyBoth ''hbbr'' [1, 2]])"
proof -
  let ?c = "\<lparr>vc_listen = [], vc_uuid = replicate 16 7, vc_cert = [], vc_key = [], vc_hbbs = ''hbbs'',
    vc_nat = ''nat'', vc_hbbr = ''hbbr'', vc_tls_handshake_timeout = 10, vc_header_timeout = 10,
    vc_upstream_connect_timeout = 5, vc_max_connections = 9\<rparr>"
  have split: "split_target ''a:443'' = Inr (''a'', 443)"
    by (simp add: split_target_def addr_eval rsplit_once_def trim_matches_def parse_u16_def
        parse_unsigned_def)
  have "vless_address ''a'' = Inr [2, 1, 97]"
    by (simp add: vless_address_def addr_eval as_bytes_def)
  with split obtain request where
      "vless_request (\<lambda>_. Some (replicate 16 7)) ''id'' ''a:443'' = Inr request"
    by (simp add: vless_request_def)
  from vless_tunnel_end_to_end [OF this, of ?c "''a''" 443 RelayService "\<lambda>_. InTime ()" "[1, 2]"] split
  show ?thesis
    by (intro exI [of _ ?c] exI [of _ request]) (simp add: service_of_port_def del: vless_polls.simps)
qed

text \<open>The REALITY client and the SSH gateway reach the same internal listeners. For every
  target, \<open>restricted_target\<close> is the address that the SSH gateway in its default configuration
  dials for the port of that target, and it fails exactly where the target has no valid port or the
  SSH gateway prohibits it.\<close>

theorem reality_matches_ssh:
  "restricted_target target =
     (case ssh_channel_target target of
        Inl e \<Rightarrow> Inl (RealityTarget e)
      | Inr (host, port) \<Rightarrow>
          (case ssh_upstream (ssh_defaults keys) port of
             Some a \<Rightarrow> Inr a
           | None \<Rightarrow> Inl RealityPortNotPermitted))"
  by (auto simp: restricted_target_def ssh_channel_target_def target_port_split
      reality_gw.dial_service ssh_gw.dial_service unat_ucast_u32 internal_port_text [simplified]
      split: sum.splits option.splits)

end
