(* ===== verification/Peer_Map.thy ===== *)
theory Peer_Map
  imports Server_Common
begin

text \<open>
  The peers a rendezvous server knows: \<open>server/src/peer.rs\<close> and \<open>server/src/database.rs\<close>.
  \<^item> The table \<open>peer\<close> is the list of its rows; \<open>guid\<close> is its primary key and \<open>id\<close> has
    a unique index. The statements of \<open>database.rs\<close> have their meaning on that list, and one
    that would violate a key fails.
  \<^item> \<open>PeerMap\<close> keeps the peers in memory, under their id, in front of the table. An
    \<open>Arc<RwLock<Peer>>\<close> is the entry of the map under the id; writing through the lock updates it.
  \<^item> What an operation takes from outside is the record \<open>db_env\<close>: the clock, whether the
    database answers, the next \<open>Uuid::new_v4\<close>, and the two directions of \<open>serde_json\<close> on
    \<open>PeerInfo\<close> (\<open>unwrap_or_default\<close> makes both total).
  \<^item> Each operation is a run that no other task interrupts. \<open>Rv_Race\<close> splits them at their locks and
    statements.
\<close>

section \<open>Database\<close>

record db_row =
  r_guid :: bytes
  r_id :: string
  r_uuid :: bytes
  r_pk :: bytes
  r_user :: "bytes option"
  r_status :: "int option"
  r_info :: string

type_synonym database = "db_row list"

definition db_get_peer :: "string \<Rightarrow> database \<Rightarrow> db_row option" where
  "db_get_peer pid db = find (\<lambda>r. r_id r = pid) db"

definition db_insert_peer ::
    "bytes \<Rightarrow> string \<Rightarrow> bytes \<Rightarrow> bytes \<Rightarrow> string \<Rightarrow> database \<Rightarrow> database option" where
  "db_insert_peer guid pid uuid pk info db =
     (if list_ex (\<lambda>r. r_guid r = guid \<or> r_id r = pid) db then None
      else Some (db @ [\<lparr>r_guid = guid, r_id = pid, r_uuid = uuid, r_pk = pk, r_user = None,
                        r_status = None, r_info = info\<rparr>]))"

definition db_update_pk ::
    "bytes \<Rightarrow> string \<Rightarrow> bytes \<Rightarrow> string \<Rightarrow> database \<Rightarrow> database option" where
  "db_update_pk guid pid pk info db =
     (if list_ex (\<lambda>r. r_guid r = guid) db \<and> list_ex (\<lambda>r. r_guid r \<noteq> guid \<and> r_id r = pid) db then None
      else Some (map (\<lambda>r. if r_guid r = guid then r\<lparr>r_id := pid, r_pk := pk, r_info := info\<rparr> else r) db))"

definition db_wf :: "database \<Rightarrow> bool" where
  "db_wf db \<longleftrightarrow> distinct (map r_guid db) \<and> distinct (map r_id db)"

section \<open>Peers\<close>

record peer_info =
  pi_ip :: string

record peer =
  p_socket_addr :: socket_addr
  p_last_reg_time :: instant
  p_guid :: bytes
  p_uuid :: bytes
  p_pk :: bytes
  p_info :: peer_info
  p_reg_pk :: "u32 \<times> instant"

definition ip_change_dur :: nat where "ip_change_dur = 180"
definition ip_change_dur_x2 :: nat where "ip_change_dur_x2 = ip_change_dur * 2"
definition day_seconds :: nat where "day_seconds = 3600 * 24"
definition ip_block_dur :: nat where "ip_block_dur = 60"

definition default_peer :: "instant \<Rightarrow> peer" where
  "default_peer now =
     \<lparr>p_socket_addr = SockV4 0 0, p_last_reg_time = get_expired_time now, p_guid = [], p_uuid = [],
      p_pk = [], p_info = \<lparr>pi_ip = []\<rparr>, p_reg_pk = (0, get_expired_time now)\<rparr>"

record db_env =
  e_now :: instant
  e_db_ok :: bool
  e_guid :: bytes
  e_info_str :: "peer_info \<Rightarrow> string"
  e_info_of :: "string \<Rightarrow> peer_info"

record peer_map =
  pm_map :: "string \<rightharpoonup> peer"
  pm_db :: database

definition pm_put :: "string \<Rightarrow> peer \<Rightarrow> peer_map \<Rightarrow> peer_map" where
  "pm_put pid p pm = pm\<lparr>pm_map := (pm_map pm)(pid \<mapsto> p)\<rparr>"

definition peer_of_row :: "'e db_env_scheme \<Rightarrow> db_row \<Rightarrow> peer" where
  "peer_of_row e r =
     (default_peer (e_now e))\<lparr>p_guid := r_guid r, p_uuid := r_uuid r, p_pk := r_pk r,
        p_info := e_info_of e (r_info r)\<rparr>"

definition pm_get :: "'e db_env_scheme \<Rightarrow> string \<Rightarrow> peer_map \<Rightarrow> peer option \<times> peer_map" where
  "pm_get e pid pm =
     (case pm_map pm pid of
        Some p \<Rightarrow> (Some p, pm)
      | None \<Rightarrow>
          (case (if e_db_ok e then db_get_peer pid (pm_db pm) else None) of
             Some row \<Rightarrow> (let p = peer_of_row e row in (Some p, pm_put pid p pm))
           | None \<Rightarrow> (None, pm)))"

definition pm_get_or :: "'e db_env_scheme \<Rightarrow> string \<Rightarrow> peer_map \<Rightarrow> peer \<times> peer_map" where
  "pm_get_or e pid pm =
     (case pm_get e pid pm of
        (Some p, pm) \<Rightarrow> (p, pm)
      | (None, pm) \<Rightarrow> (let p = default_peer (e_now e) in (p, pm_put pid p pm)))"

definition pm_get_in_memory :: "string \<Rightarrow> peer_map \<Rightarrow> peer option" where
  "pm_get_in_memory pid pm = pm_map pm pid"

definition pm_is_in_memory :: "string \<Rightarrow> peer_map \<Rightarrow> bool" where
  "pm_is_in_memory pid pm \<longleftrightarrow> pm_map pm pid \<noteq> None"

text \<open>The results of \<open>register_pk_response::Result\<close> that the server gives.\<close>

datatype register_result = OK | UUID_MISMATCH | TOO_FREQUENT | INVALID_ID_FORMAT | SERVER_ERROR | NOT_SUPPORT

text \<open>\<open>PeerMap::update_pk\<close>; \<open>p\<close> is the peer under the lock when it is called.\<close>

definition pm_update_pk ::
    "'e db_env_scheme \<Rightarrow> string \<Rightarrow> peer \<Rightarrow> socket_addr \<Rightarrow> bytes \<Rightarrow> bytes \<Rightarrow> string \<Rightarrow> peer_map \<Rightarrow>
     register_result \<times> peer_map" where
  "pm_update_pk e pid p addr uuid pk ip pm =
     (let p = p\<lparr>p_socket_addr := addr, p_uuid := uuid, p_pk := pk, p_last_reg_time := e_now e,
                p_info := (p_info p)\<lparr>pi_ip := ip\<rparr>\<rparr>;
          pm = pm_put pid p pm;
          info = e_info_str e (p_info p)
      in if p_guid p = [] then
           (case (if e_db_ok e then db_insert_peer (e_guid e) pid uuid pk info (pm_db pm) else None) of
              None \<Rightarrow> (SERVER_ERROR, pm)
            | Some db \<Rightarrow> (OK, (pm_put pid (p\<lparr>p_guid := e_guid e\<rparr>) pm)\<lparr>pm_db := db\<rparr>))
         else
           (case (if e_db_ok e then db_update_pk (p_guid p) pid pk info (pm_db pm) else None) of
              None \<Rightarrow> (SERVER_ERROR, pm)
            | Some db \<Rightarrow> (OK, pm\<lparr>pm_db := db\<rparr>)))"

section \<open>Database lemmas\<close>

lemma db_get_peer_None: "db_get_peer pid db = None \<longleftrightarrow> (\<forall>r \<in> set db. r_id r \<noteq> pid)"
  by (auto simp: db_get_peer_def find_None_iff)

lemma db_get_peer_SomeD: "db_get_peer pid db = Some r \<Longrightarrow> r \<in> set db \<and> r_id r = pid"
  by (auto simp: db_get_peer_def find_Some_iff)

lemma db_wf_inj:
  assumes "db_wf db" "r \<in> set db" "r' \<in> set db"
  shows "r_id r = r_id r' \<Longrightarrow> r = r'" "r_guid r = r_guid r' \<Longrightarrow> r = r'"
  using assms by (auto simp: db_wf_def distinct_map dest: inj_onD)

lemma db_get_peer_eq:
  "db_wf db \<Longrightarrow> r \<in> set db \<Longrightarrow> db_get_peer (r_id r) db = Some r"
  by (cases "db_get_peer (r_id r) db")
     (auto simp: db_get_peer_None dest: db_get_peer_SomeD db_wf_inj(1))

lemma db_insert_peer_wf:
  assumes "db_insert_peer guid pid uuid pk info db = Some db'" "db_wf db"
  shows "db_wf db'"
  using assms by (auto simp: db_insert_peer_def db_wf_def list_ex_iff split: if_splits)

lemma db_insert_peer_get:
  assumes "db_insert_peer guid pid uuid pk info db = Some db'"
  shows "db_get_peer j db' =
    (if j = pid then Some \<lparr>r_guid = guid, r_id = pid, r_uuid = uuid, r_pk = pk, r_user = None,
                        r_status = None, r_info = info\<rparr>
     else db_get_peer j db)"
proof -
  have "j = pid \<Longrightarrow> find (\<lambda>r. r_id r = j) db = None"
    using assms by (auto simp: db_insert_peer_def list_ex_iff find_None_iff split: if_splits)
  with assms show ?thesis
    by (auto simp: db_insert_peer_def db_get_peer_def find_append split: if_splits option.splits)
qed

lemma db_update_pk_wf:
  assumes "db_update_pk guid pid pk info db = Some db'" "db_wf db"
  shows "db_wf db'"
proof -
  let ?f = "\<lambda>r. if r_guid r = guid then r\<lparr>r_id := pid, r_pk := pk, r_info := info\<rparr> else r"
  have db': "db' = map ?f db" and free: "list_ex (\<lambda>r. r_guid r = guid) db \<Longrightarrow>
      \<forall>r \<in> set db. r_guid r \<noteq> guid \<longrightarrow> r_id r \<noteq> pid"
    using assms(1) by (auto simp: db_update_pk_def list_ex_iff split: if_splits)
  have "map r_guid db' = map r_guid db" by (simp add: db')
  then have "distinct (map r_guid db')" using assms(2) by (simp add: db_wf_def)
  moreover have "inj_on (r_id \<circ> ?f) (set db)"
    using db_wf_inj [OF assms(2)] free by (auto simp: inj_on_def list_ex_iff)
  ultimately show ?thesis
    using assms(2) distinct_map [of r_guid db] by (simp add: db_wf_def db' distinct_map [of "r_id \<circ> ?f"])
qed

lemma db_update_pk_set:
  assumes "db_update_pk guid pid pk info db = Some db'"
  shows "set db' = (\<lambda>r. if r_guid r = guid then r\<lparr>r_id := pid, r_pk := pk, r_info := info\<rparr> else r) ` set db"
  using assms by (auto simp: db_update_pk_def split: if_splits)

section \<open>The registry\<close>

text \<open>What the server has promised about each id: the UUID that owns it and its public key. Memory
  takes precedence over the table.\<close>

type_synonym registry = "string \<rightharpoonup> bytes \<times> bytes"

definition peer_identity :: "peer \<Rightarrow> (bytes \<times> bytes) option" where
  "peer_identity p = (if p_uuid p = [] then None else Some (p_uuid p, p_pk p))"

definition registry :: "peer_map \<Rightarrow> registry" where
  "registry pm pid =
     (case pm_map pm pid of
        Some p \<Rightarrow> peer_identity p
      | None \<Rightarrow> map_option (\<lambda>r. (r_uuid r, r_pk r)) (db_get_peer pid (pm_db pm)))"

definition pm_restart :: "peer_map \<Rightarrow> peer_map" where
  "pm_restart pm = pm\<lparr>pm_map := Map.empty\<rparr>"

text \<open>Memory and table agree: a peer in memory that owns its id has a row with the same guid,
  UUID and key, and one that does not own it has none.\<close>

definition peer_synced :: "database \<Rightarrow> string \<Rightarrow> peer \<Rightarrow> bool" where
  "peer_synced db pid p \<longleftrightarrow>
     (if p_uuid p = [] then p_guid p = [] \<and> db_get_peer pid db = None
      else p_guid p \<noteq> [] \<and>
        (\<exists>r. db_get_peer pid db = Some r \<and> r_guid r = p_guid p \<and> r_uuid r = p_uuid p \<and> r_pk r = p_pk p))"

definition pm_synced :: "peer_map \<Rightarrow> bool" where
  "pm_synced pm \<longleftrightarrow>
     db_wf (pm_db pm) \<and> (\<forall>r \<in> set (pm_db pm). r_guid r \<noteq> [] \<and> r_uuid r \<noteq> []) \<and>
     (\<forall>pid p. pm_map pm pid = Some p \<longrightarrow> peer_synced (pm_db pm) pid p)"

text \<open>The database answers and the next random guid is new.\<close>

definition env_ok :: "'e db_env_scheme \<Rightarrow> peer_map \<Rightarrow> bool" where
  "env_ok e pm \<longleftrightarrow> e_db_ok e \<and> e_guid e \<noteq> [] \<and> e_guid e \<notin> r_guid ` set (pm_db pm)"

definition same_identity :: "peer \<Rightarrow> peer \<Rightarrow> bool" where
  "same_identity p q \<longleftrightarrow> p_guid p = p_guid q \<and> p_uuid p = p_uuid q \<and> p_pk p = p_pk q"

lemma pm_put_simps [simp]:
  "pm_map (pm_put pid p pm) = (pm_map pm)(pid \<mapsto> p)" "pm_db (pm_put pid p pm) = pm_db pm"
  "pm_put pid q (pm_put pid p pm) = pm_put pid q pm"
  by (simp_all add: pm_put_def)

lemma registry_put: "registry (pm_put pid p pm) = (registry pm)(pid := peer_identity p)"
  by (auto simp: registry_def fun_eq_iff split: option.splits)

lemma registry_db_put: "registry (pm_put pid p pm\<lparr>pm_db := db\<rparr>) pid = peer_identity p"
  by (simp add: registry_def)

lemma env_ok_put [simp]: "env_ok e (pm_put pid p pm) = env_ok e pm"
  by (simp add: env_ok_def)

lemma synced_row:
  assumes "pm_synced pm" "db_get_peer pid (pm_db pm) = Some r"
  shows "r_guid r \<noteq> []" "r_uuid r \<noteq> []" "r \<in> set (pm_db pm)" "r_id r = pid"
  using assms db_get_peer_SomeD by (auto simp: pm_synced_def)

lemma synced_put: "pm_synced pm \<Longrightarrow> peer_synced (pm_db pm) pid p \<Longrightarrow> pm_synced (pm_put pid p pm)"
  by (simp add: pm_synced_def)

lemma peer_of_row_synced:
  assumes "pm_synced pm" "db_get_peer pid (pm_db pm) = Some r"
  shows "peer_synced (pm_db pm) pid (peer_of_row e r)"
    "peer_identity (peer_of_row e r) = Some (r_uuid r, r_pk r)"
  using synced_row [OF assms] assms(2)
  by (auto simp: peer_synced_def peer_of_row_def peer_identity_def)

lemma pm_get_synced:
  assumes "pm_synced pm" "env_ok e pm" "pm_get e pid pm = (q, pm')"
  shows "pm_synced pm' \<and> registry pm' = registry pm \<and> pm_db pm' = pm_db pm \<and> pm_map pm' pid = q
     \<and> (q = None \<longrightarrow> db_get_peer pid (pm_db pm) = None)"
proof (cases "pm_map pm pid")
  case None
  show ?thesis
  proof (cases "db_get_peer pid (pm_db pm)")
    case (Some r)
    then show ?thesis
      using assms None synced_put [OF assms(1)] peer_of_row_synced [OF assms(1) Some, of e]
      by (auto simp: pm_get_def env_ok_def Let_def registry_put fun_upd_idem_iff registry_def)
  qed (use assms None in \<open>auto simp: pm_get_def env_ok_def\<close>)
qed (use assms in \<open>auto simp: pm_get_def\<close>)

lemma default_peer_identity [simp]:
  "p_uuid (default_peer now) = []" "p_guid (default_peer now) = []" "p_pk (default_peer now) = []"
  "peer_identity (default_peer now) = None"
  by (simp_all add: default_peer_def peer_identity_def)

lemma pm_get_or_synced:
  assumes "pm_synced pm" "env_ok e pm" "pm_get_or e pid pm = (p, pm')"
  shows "pm_synced pm' \<and> registry pm' = registry pm \<and> pm_db pm' = pm_db pm \<and> pm_map pm' pid = Some p"
proof -
  obtain q pm1 where q: "pm_get e pid pm = (q, pm1)" by (cases "pm_get e pid pm")
  note get = pm_get_synced [OF assms(1,2) q]
  show ?thesis
  proof (cases q)
    case None
    with get have none: "pm_map pm1 pid = None" "db_get_peer pid (pm_db pm1) = None" by auto
    then have "peer_synced (pm_db pm1) pid (default_peer (e_now e))" "registry pm1 pid = None"
      by (simp_all add: peer_synced_def registry_def)
    then show ?thesis
      using assms(3) q None get synced_put [of pm1]
      by (auto simp: pm_get_or_def Let_def registry_put fun_upd_idem_iff)
  qed (use assms(3) q get in \<open>auto simp: pm_get_or_def\<close>)
qed

lemma pm_touch_synced:
  assumes "pm_synced pm" "pm_map pm pid = Some q" "same_identity p q"
  shows "pm_synced (pm_put pid p pm)" "registry (pm_put pid p pm) = registry pm"
proof -
  have "peer_synced (pm_db pm) pid q" using assms(1,2) by (simp add: pm_synced_def)
  then have "peer_synced (pm_db pm) pid p" "peer_identity p = peer_identity q"
    using assms(3) by (auto simp: peer_synced_def same_identity_def peer_identity_def)
  then show "pm_synced (pm_put pid p pm)" "registry (pm_put pid p pm) = registry pm"
    using assms(1,2) synced_put by (auto simp: registry_put fun_upd_idem_iff registry_def)
qed

lemma insert_synced:
  assumes "pm_synced pm" "db_insert_peer guid pid uuid pk info (pm_db pm) = Some db"
    and "guid \<noteq> []" "uuid \<noteq> []" "p_guid p = guid" "p_uuid p = uuid" "p_pk p = pk"
  shows "pm_synced (pm_put pid p pm\<lparr>pm_db := db\<rparr>)"
    "registry (pm_put pid p pm\<lparr>pm_db := db\<rparr>) = (registry pm)(pid \<mapsto> (uuid, pk))"
proof -
  note get = db_insert_peer_get [OF assms(2)]
  have others: "peer_synced db j q \<longleftrightarrow> peer_synced (pm_db pm) j q" if "j \<noteq> pid" for j q
    using that by (simp add: peer_synced_def get)
  have rows: "\<forall>r \<in> set db. r_guid r \<noteq> [] \<and> r_uuid r \<noteq> []"
    using assms by (auto simp: pm_synced_def db_insert_peer_def split: if_splits)
  show "pm_synced (pm_put pid p pm\<lparr>pm_db := db\<rparr>)"
    using assms others rows db_insert_peer_wf [OF assms(2)]
    by (auto simp: pm_synced_def) (simp add: peer_synced_def get)
  show "registry (pm_put pid p pm\<lparr>pm_db := db\<rparr>) = (registry pm)(pid \<mapsto> (uuid, pk))"
    using assms(4,6,7) by (auto simp: registry_def fun_eq_iff get peer_identity_def split: option.splits)
qed

lemma update_get:
  assumes "db_wf db" "db_update_pk guid pid pk info db = Some db'" "db_get_peer pid db = Some r" "r_guid r = guid"
  shows "db_get_peer j db' =
    (if j = pid then Some (r\<lparr>r_pk := pk, r_info := info\<rparr>) else db_get_peer j db)"
proof -
  let ?f = "\<lambda>r. if r_guid r = guid then r\<lparr>r_id := pid, r_pk := pk, r_info := info\<rparr> else r"
  note wf = db_update_pk_wf [OF assms(2,1)]
  note set' = db_update_pk_set [OF assms(2)]
  have r: "r \<in> set db" "r_id r = pid" using db_get_peer_SomeD [OF assms(3)] by simp_all
  have f: "?f q \<in> set db'" if "q \<in> set db" for q using that set' by auto
  have "r_guid q \<noteq> guid" if "q \<in> set db" "r_id q \<noteq> pid" for q
    using db_wf_inj(2) [OF assms(1) that(1) r(1)] that(2) r(2) assms(4) by auto
  then have keep: "r_id (?f q) = r_id q" if "q \<in> set db" for q
    using that by auto
  show ?thesis
  proof (cases "j = pid")
    case True
    then show ?thesis
      using db_get_peer_eq [OF wf f [OF r(1)]] r(2) assms(4) by simp
  next
    case False
    show ?thesis
    proof (cases "db_get_peer j db")
      case None
      have "r_id q' \<noteq> j" if "q' \<in> set db'" for q'
      proof -
        from that obtain q where "q \<in> set db" "q' = ?f q" unfolding set' by blast
        with None keep [of q] show ?thesis by (metis db_get_peer_None)
      qed
      then have "db_get_peer j db' = None" by (simp add: db_get_peer_None)
      then show ?thesis using None False by simp
    next
      case (Some q)
      then have q: "q \<in> set db" "r_id q = j" using db_get_peer_SomeD by auto
      then have "?f q = q" using False keep [OF q(1)] by auto
      then show ?thesis using db_get_peer_eq [OF wf f [OF q(1)]] q(2) False Some by simp
    qed
  qed
qed

lemma update_synced:
  assumes "pm_synced pm" "db_update_pk guid pid pk info (pm_db pm) = Some db"
    and "db_get_peer pid (pm_db pm) = Some r" "r_guid r = guid"
    and "uuid \<noteq> []" "r_uuid r = uuid" "p_guid p = guid" "p_uuid p = uuid" "p_pk p = pk"
  shows "pm_synced (pm_put pid p pm\<lparr>pm_db := db\<rparr>)"
    "registry (pm_put pid p pm\<lparr>pm_db := db\<rparr>) = (registry pm)(pid \<mapsto> (uuid, pk))"
proof -
  have wf: "db_wf (pm_db pm)" and rows: "\<forall>r \<in> set (pm_db pm). r_guid r \<noteq> [] \<and> r_uuid r \<noteq> []"
    using assms(1) by (simp_all add: pm_synced_def)
  note get = update_get [OF wf assms(2-4)]
  have others: "peer_synced db j q \<longleftrightarrow> peer_synced (pm_db pm) j q" if "j \<noteq> pid" for j q
    using that by (simp add: peer_synced_def get)
  have self: "peer_synced db pid p"
    using assms(4-9) synced_row [OF assms(1,3)] by (simp add: peer_synced_def get)
  have rows': "\<forall>r \<in> set db. r_guid r \<noteq> [] \<and> r_uuid r \<noteq> []"
    using rows by (auto simp: db_update_pk_set [OF assms(2)])
  show "pm_synced (pm_put pid p pm\<lparr>pm_db := db\<rparr>)"
    using assms(1) others self rows' db_update_pk_wf [OF assms(2) wf] by (auto simp: pm_synced_def)
  show "registry (pm_put pid p pm\<lparr>pm_db := db\<rparr>) = (registry pm)(pid \<mapsto> (uuid, pk))"
    using assms(5,8,9) by (auto simp: registry_def fun_eq_iff get peer_identity_def split: option.splits)
qed

lemma db_update_pk_succeeds:
  assumes "db_wf db" "db_get_peer pid db = Some r" "r_guid r = guid"
  shows "db_update_pk guid pid pk info db \<noteq> None"
  using db_wf_inj(1) [OF assms(1)] db_get_peer_SomeD [OF assms(2)] assms(3)
  by (auto simp: db_update_pk_def list_ex_iff)

lemma db_insert_peer_succeeds:
  assumes "db_get_peer pid db = None" "guid \<notin> r_guid ` set db"
  shows "db_insert_peer guid pid uuid pk info db \<noteq> None"
  using assms by (auto simp: db_insert_peer_def list_ex_iff db_get_peer_None)

lemma pm_update_pk_synced:
  assumes "pm_synced pm" "env_ok e pm" "pm_map pm pid = Some p"
    and "uuid \<noteq> []" "p_uuid p = [] \<or> p_uuid p = uuid"
  shows "\<exists>pm'. pm_update_pk e pid p addr uuid pk ip pm = (OK, pm') \<and> pm_synced pm' \<and>
     registry pm' = (registry pm)(pid \<mapsto> (uuid, pk))"
proof -
  have p: "peer_synced (pm_db pm) pid p" and wf: "db_wf (pm_db pm)"
    using assms(1,3) by (simp_all add: pm_synced_def)
  have e: "e_db_ok e" "e_guid e \<noteq> []" "e_guid e \<notin> r_guid ` set (pm_db pm)"
    using assms(2) by (simp_all add: env_ok_def)
  show ?thesis
  proof (cases "p_uuid p = []")
    case True
    then have none: "p_guid p = []" "db_get_peer pid (pm_db pm) = None"
      using p by (simp_all add: peer_synced_def)
    obtain db where db: "db_insert_peer (e_guid e) pid uuid pk (e_info_str e ((p_info p)\<lparr>pi_ip := ip\<rparr>)) (pm_db pm) = Some db"
      using db_insert_peer_succeeds [OF none(2) e(3)] by blast
    show ?thesis
      using insert_synced [OF assms(1) db e(2) assms(4), of "p\<lparr>p_socket_addr := addr, p_uuid := uuid, p_pk := pk,
          p_last_reg_time := e_now e, p_info := (p_info p)\<lparr>pi_ip := ip\<rparr>, p_guid := e_guid e\<rparr>"] none db e(1)
      by (simp add: pm_update_pk_def Let_def)
  next
    case False
    then have uuid: "p_uuid p = uuid" using assms(5) by simp
    obtain r where r: "db_get_peer pid (pm_db pm) = Some r" "r_guid r = p_guid p" "r_uuid r = p_uuid p"
        "p_guid p \<noteq> []"
      using p False by (auto simp: peer_synced_def)
    obtain db where db: "db_update_pk (p_guid p) pid pk (e_info_str e ((p_info p)\<lparr>pi_ip := ip\<rparr>)) (pm_db pm) = Some db"
      using db_update_pk_succeeds [OF wf r(1,2)] by blast
    show ?thesis
      using update_synced [OF assms(1) db r(1,2) assms(4), of "p\<lparr>p_socket_addr := addr, p_uuid := uuid, p_pk := pk,
          p_last_reg_time := e_now e, p_info := (p_info p)\<lparr>pi_ip := ip\<rparr>\<rparr>"] r db e(1) uuid
      by (simp add: pm_update_pk_def Let_def)
  qed
qed

lemma registry_restart:
  assumes "pm_synced pm"
  shows "registry (pm_restart pm) = registry pm"
proof
  fix pid
  show "registry (pm_restart pm) pid = registry pm pid"
  proof (cases "pm_map pm pid")
    case (Some p)
    with assms have "peer_synced (pm_db pm) pid p" by (simp add: pm_synced_def)
    with Some show ?thesis
      by (auto simp: registry_def pm_restart_def peer_synced_def peer_identity_def split: if_splits)
  qed (simp add: registry_def pm_restart_def)
qed

lemma synced_restart: "pm_synced pm \<Longrightarrow> pm_synced (pm_restart pm)"
  by (simp add: pm_synced_def pm_restart_def)

section \<open>The contract of the peer store\<close>

text \<open>What the handlers of the rendezvous server rely on: looking a peer up changes nothing that has
  been promised, an entry holds the identity that the registry has, writing back an entry with the
  same identity keeps the registry, and an update by the owner (or of a free id) is carried out and
  changes that id only.\<close>

locale peer_store =
  fixes inv :: "'s \<Rightarrow> bool"
    and ok :: "'e \<Rightarrow> 's \<Rightarrow> bool"
    and reg :: "'s \<Rightarrow> registry"
    and entry :: "'s \<Rightarrow> string \<rightharpoonup> peer"
    and lookup :: "'e \<Rightarrow> string \<Rightarrow> 's \<Rightarrow> peer option \<times> 's"
    and fetch :: "'e \<Rightarrow> string \<Rightarrow> 's \<Rightarrow> peer \<times> 's"
    and put :: "string \<Rightarrow> peer \<Rightarrow> 's \<Rightarrow> 's"
    and update :: "'e \<Rightarrow> string \<Rightarrow> peer \<Rightarrow> socket_addr \<Rightarrow> bytes \<Rightarrow> bytes \<Rightarrow> string \<Rightarrow> 's \<Rightarrow> register_result \<times> 's"
  assumes lookup: "inv s \<Longrightarrow> ok e s \<Longrightarrow> lookup e i s = (found, s') \<Longrightarrow>
      inv s' \<and> ok e s' \<and> reg s' = reg s \<and> entry s' i = found"
    and fetch: "inv s \<Longrightarrow> ok e s \<Longrightarrow> fetch e i s = (p, s') \<Longrightarrow>
      inv s' \<and> ok e s' \<and> reg s' = reg s \<and> entry s' i = Some p"
    and entry_reg: "inv s \<Longrightarrow> entry s i = Some p \<Longrightarrow> reg s i = peer_identity p"
    and put: "inv s \<Longrightarrow> entry s i = Some q \<Longrightarrow> same_identity p q \<Longrightarrow>
      inv (put i p s) \<and> reg (put i p s) = reg s \<and> entry (put i p s) i = Some p \<and> (ok e s \<longrightarrow> ok e (put i p s))"
    and update: "inv s \<Longrightarrow> ok e s \<Longrightarrow> entry s i = Some p \<Longrightarrow> u \<noteq> [] \<Longrightarrow> p_uuid p = [] \<or> p_uuid p = u \<Longrightarrow>
      \<exists>s'. update e i p a u k ip s = (OK, s') \<and> inv s' \<and> reg s' = (reg s)(i \<mapsto> (u, k))"
begin

text \<open>A registration: fetch the entry, write back its bookkeeping, and update it if its owner allows.\<close>

lemma owner_update:
  assumes "inv s" "ok e s" "fetch e i s = (p, s1)" "same_identity p' p"
    and "u \<noteq> []" "p_uuid p = [] \<or> p_uuid p = u"
  shows "\<exists>s'. update e i p' a u k ip (put i p' s1) = (OK, s') \<and> inv s' \<and> reg s' = (reg s)(i \<mapsto> (u, k))"
proof -
  have s1: "inv s1" "ok e s1" "reg s1 = reg s" "entry s1 i = Some p" using fetch [OF assms(1-3)] by simp_all
  have s2: "inv (put i p' s1)" "ok e (put i p' s1)" "reg (put i p' s1) = reg s" "entry (put i p' s1) i = Some p'"
    using put [OF s1(1,4) assms(4), of e] s1 by simp_all
  have "p_uuid p' = [] \<or> p_uuid p' = u" using assms(4,6) by (simp add: same_identity_def)
  from update [OF s2(1,2,4) assms(5) this] s2(3) show ?thesis by simp
qed

lemma fetch_put:
  assumes "inv s" "ok e s" "fetch e i s = (p, s1)" "same_identity p' p"
  shows "inv (put i p' s1)" "reg (put i p' s1) = reg s"
  using fetch [OF assms(1-3)] put [of s1 i p p'] assms(4) by simp_all

lemma fetch_owner:
  assumes "inv s" "ok e s" "fetch e i s = (p, s1)"
  shows "p_uuid p = [] \<or> p_uuid p = u \<longleftrightarrow> (\<forall>v k. reg s i = Some (v, k) \<longrightarrow> v = u)"
  using fetch [OF assms] entry_reg [of s1 i p] by (auto simp: peer_identity_def)

end

interpretation ps: peer_store pm_synced env_ok registry pm_map pm_get pm_get_or pm_put pm_update_pk
proof
  fix s s' :: peer_map and e :: "'e db_env_scheme" and i p found r a u k ip
  show "pm_synced s' \<and> env_ok e s' \<and> registry s' = registry s \<and> pm_map s' i = found"
    if "pm_synced s" "env_ok e s" "pm_get e i s = (found, s')"
    using pm_get_synced [OF that] that(2) by (simp add: env_ok_def)
  show "pm_synced s' \<and> env_ok e s' \<and> registry s' = registry s \<and> pm_map s' i = Some p"
    if "pm_synced s" "env_ok e s" "pm_get_or e i s = (p, s')"
    using pm_get_or_synced [OF that] that(2) by (simp add: env_ok_def)
  show "registry s i = peer_identity p" if "pm_synced s" "pm_map s i = Some p"
    using that by (simp add: registry_def)
  show "pm_synced (pm_put i p s) \<and> registry (pm_put i p s) = registry s \<and>
      pm_map (pm_put i p s) i = Some p \<and> (env_ok e s \<longrightarrow> env_ok e (pm_put i p s))"
    if "pm_synced s" "pm_map s i = Some r" "same_identity p r"
    using pm_touch_synced [OF that] by simp
  show "\<exists>s'. pm_update_pk e i p a u k ip s = (OK, s') \<and> pm_synced s' \<and>
      registry s' = (registry s)(i \<mapsto> (u, k))"
    if "pm_synced s" "env_ok e s" "pm_map s i = Some p" "u \<noteq> []" "p_uuid p = [] \<or> p_uuid p = u"
    using that by (rule pm_update_pk_synced)
qed

end
