(* ===== verification/Rv_State.thy ===== *)
theory Rv_State
  imports Peer_Map
begin

text \<open>
  Messages and state of the rendezvous server (\<open>server/src/rendezvous_server.rs\<close>, with the
  messages of \<open>rendezvous.proto\<close>).
  \<^item> A message is its \<open>union\<close>; fields that the server neither reads nor sets are left out, except
    in \<open>RequestRelay\<close> and \<open>RelayResponse\<close>, which are forwarded whole (\<open>more\<close> fields).
  \<^item> \<open>RendezvousServer\<close> is cloned for each connection. The fields behind a lock
    (\<open>tcp_punch\<close>, \<open>tcp_senders\<close>, \<open>pm\<close>, the channel \<open>tx\<close>) and the statics are shared:
    they are the record \<open>world\<close>. The others (\<open>relay_servers\<close>, \<open>relay_servers0\<close>,
    \<open>rendezvous_servers\<close>, \<open>inner\<close>) are values of the clone: they are the record
    \<open>snapshot\<close>. The snapshot of the main loop is part of the world.
  \<^item> A handler of a message is one step and reads the clock once: it is a run that no other task interrupts. The
    connections interleave between messages (\<open>Rv_Server\<close>). A server gives way inside a handler as well, at
    every await; for the registrations, the handlers in which this matters to what is stored,
    \<open>Rv_Race\<close> interleaves the single accesses and shows what holds on every schedule and what does not.
  \<^item> What it takes from outside is the record \<open>env\<close>; what it sends is the list of its outputs.
\<close>

section \<open>Messages\<close>

datatype nat_type = UNKNOWN_NAT | ASYMMETRIC | SYMMETRIC

text \<open>An enumeration field holds a known value or a number that this build does not know.\<close>

datatype nat_field = KnownNat nat_type | UnknownNat int

datatype punch_failure = ID_NOT_EXIST | OFFLINE | LICENSE_MISMATCH | LICENSE_OVERUSE

record register_pk =
  rk_id :: string
  rk_uuid :: bytes
  rk_pk :: bytes

record punch_hole_request =
  ph_id :: string
  ph_nat_type :: nat_field
  ph_licence_key :: string

record punch_hole_sent =
  phs_socket_addr :: bytes
  phs_id :: string
  phs_relay_server :: string
  phs_nat_type :: nat_field
  phs_version :: string

record local_addr =
  la_socket_addr :: bytes
  la_local_addr :: bytes
  la_relay_server :: string
  la_id :: string
  la_version :: string

record request_relay =
  rf_id :: string
  rf_uuid :: string
  rf_socket_addr :: bytes
  rf_relay_server :: string
  rf_secure :: bool
  rf_licence_key :: string
  rf_rest :: "(nat \<times> bytes) list"

datatype relay_union = NoRelayUnion | RelayId string | RelayPk bytes

record relay_response =
  rr_socket_addr :: bytes
  rr_uuid :: string
  rr_relay_server :: string
  rr_union :: relay_union
  rr_version :: string
  rr_rest :: "(nat \<times> bytes) list"

datatype punch_union = NoPunchUnion | PunchNatType nat_type | PunchIsLocal bool

record punch_hole_response =
  phr_socket_addr :: bytes
  phr_pk :: bytes
  phr_failure :: punch_failure
  phr_relay_server :: string
  phr_union :: punch_union

type_synonym config_update = "int \<times> string list"

datatype rmsg =
  RegisterPeer string int
| RegisterPeerResponse bool
| RegisterPk register_pk
| RegisterPkResponse register_result
| PunchHoleRequest punch_hole_request
| PunchHole bytes nat_field string
| PunchHoleSent punch_hole_sent
| PunchHoleResponse punch_hole_response
| FetchLocalAddr bytes string
| LocalAddr local_addr
| ConfigureUpdate config_update
| SoftwareUpdate string
| RequestRelay request_relay
| RelayResponse relay_response
| TestNatRequest int
| TestNatResponse int "config_update option"
| OnlineRequest "string list"
| OnlineResponse bytes
| OtherMessage
| EmptyMessage

definition rr_id :: "relay_response \<Rightarrow> string" where
  "rr_id rr = (case rr_union rr of RelayId i \<Rightarrow> i | _ \<Rightarrow> [])"

definition default_punch_response :: punch_hole_response where
  "default_punch_response =
     \<lparr>phr_socket_addr = [], phr_pk = [], phr_failure = ID_NOT_EXIST, phr_relay_server = [],
      phr_union = NoPunchUnion\<rparr>"

definition punch_failure_msg :: "punch_failure \<Rightarrow> rmsg" where
  "punch_failure_msg f = PunchHoleResponse (default_punch_response\<lparr>phr_failure := f\<rparr>)"

section \<open>State\<close>

text \<open>The write half of connection number \<open>c\<close>, and the receiving end of its channel.\<close>

datatype sink = TcpStreamSink nat | WsSink nat

record inner =
  in_serial :: int
  in_version :: string
  in_software_url :: string
  in_mask :: "(u32 \<Rightarrow> bool) option"
  in_local_ip :: string
  in_sk :: "bytes option"

record snapshot =
  sn_relay_servers :: "string list"
  sn_relay_servers0 :: "string list"
  sn_rendezvous_servers :: "string list"
  sn_inner :: inner

datatype data =
  Msg rmsg socket_addr
| RelayServers0 string
| RelayServers "string list"

record punch_req =
  pr_tm :: instant
  pr_from_ip :: string
  pr_to_ip :: string
  pr_to_id :: string

record ip_block =
  ib_count :: "u32 \<times> instant"
  ib_ids :: "string list \<times> instant"

record world =
  w_tcp_punch :: "socket_addr \<rightharpoonup> sink"
  w_tcp_senders :: "socket_addr \<rightharpoonup> nat"
  w_pm :: peer_map
  w_tx :: "data list"
  w_main :: snapshot
  w_rotation :: usize
  w_always_use_relay :: bool
  w_punch_reqs :: "punch_req list"
  w_ip_blocker :: "string \<rightharpoonup> ip_block"
  w_ip_changes :: "string \<rightharpoonup> instant \<times> (string \<rightharpoonup> int)"

datatype effect =
  UdpSend rmsg socket_addr
| SinkSend sink rmsg
| SenderSend nat rmsg

text \<open>\<open>e_tm\<close> is the time stamp that mangling an address takes, \<open>e_resolves\<close> whether a host
  name resolves, \<open>e_parse\<close> and \<open>e_idpk\<close> the protobuf code (an unknown or missing union is
  \<open>OtherMessage\<close> or \<open>EmptyMessage\<close>), \<open>e_sign\<close> the signature, and \<open>e_udp_ok\<close> whether
  sending a datagram succeeds.\<close>

record env = db_env +
  e_tm :: u32
  e_resolves :: "string \<Rightarrow> bool"
  e_parse :: "bytes \<Rightarrow> rmsg option"
  e_idpk :: "string \<Rightarrow> bytes \<Rightarrow> bytes"
  e_sign :: "bytes \<Rightarrow> bytes \<Rightarrow> bytes"
  e_udp_ok :: "rmsg \<Rightarrow> socket_addr \<Rightarrow> bool"

definition reg_timeout :: int where "reg_timeout = 30000"
definition punch_req_dedupe_sec :: nat where "punch_req_dedupe_sec = 60"

text \<open>\<open>elapsed().as_millis() as i64\<close>: the cast keeps the low 64 bits as a signed number.\<close>

definition millis_i64 :: "instant \<Rightarrow> instant \<Rightarrow> int" where
  "millis_i64 now t = sint (word_of_nat (elapsed_millis now t) :: 64 word)"

definition to_tx :: "data \<Rightarrow> world \<Rightarrow> world" where
  "to_tx d w = w\<lparr>w_tx := w_tx w @ [d]\<rparr>"

section \<open>Small operations\<close>

definition is_lan :: "snapshot \<Rightarrow> socket_addr \<Rightarrow> bool" where
  "is_lan s addr =
     (case in_mask (sn_inner s) of
        None \<Rightarrow> False
      | Some network \<Rightarrow>
          (case addr of
             SockV4 ip _ \<Rightarrow> network ip
           | SockV6 ip _ _ _ \<Rightarrow> (case to_ipv4 ip of Some v4 \<Rightarrow> network v4 | None \<Rightarrow> False)))"

definition parse_relay_servers :: "(string \<Rightarrow> bool) \<Rightarrow> string \<Rightarrow> snapshot \<Rightarrow> snapshot" where
  "parse_relay_servers resolves relay_servers s =
     (let rs = get_servers resolves relay_servers in
      s\<lparr>sn_relay_servers0 := rs, sn_relay_servers := rs\<rparr>)"

definition get_relay_server :: "snapshot \<Rightarrow> world \<Rightarrow> string \<times> world" where
  "get_relay_server s w =
     (if sn_relay_servers s = [] then ([], w)
      else if length (sn_relay_servers s) = 1 then (sn_relay_servers s ! 0, w)
      else
        (let i = unat (w_rotation w) mod length (sn_relay_servers s) in
         (sn_relay_servers s ! i, w\<lparr>w_rotation := w_rotation w + 1\<rparr>)))"

definition get_pk :: "env \<Rightarrow> snapshot \<Rightarrow> string \<Rightarrow> string \<Rightarrow> world \<Rightarrow> bytes \<times> world" where
  "get_pk e s version pid w =
     (case in_sk (sn_inner s) of
        None \<Rightarrow> ([], w)
      | Some sk \<Rightarrow>
          if version = [] then ([], w)
          else
            (case pm_get e pid (w_pm w) of
               (Some p, pm) \<Rightarrow> (e_sign e (e_idpk e pid (p_pk p)) sk, w\<lparr>w_pm := pm\<rparr>)
             | (None, pm) \<Rightarrow> ([], w\<lparr>w_pm := pm\<rparr>)))"

definition send_to_sink :: "sink option \<Rightarrow> rmsg \<Rightarrow> effect list" where
  "send_to_sink sink msg = (case sink of Some s \<Rightarrow> [SinkSend s msg] | None \<Rightarrow> [])"

text \<open>\<open>send_to_tcp\<close> (from a spawned task) and \<open>send_to_tcp_sync\<close>: the waiting sink is taken
  out and used once.\<close>

definition send_to_tcp :: "rmsg \<Rightarrow> socket_addr \<Rightarrow> world \<Rightarrow> world \<times> effect list" where
  "send_to_tcp msg addr w =
     (w\<lparr>w_tcp_punch := (w_tcp_punch w)(try_into_v4 addr := None)\<rparr>,
      send_to_sink (w_tcp_punch w (try_into_v4 addr)) msg)"

section \<open>Start\<close>

text \<open>The position of the last occurrence of a character, counted from the end.\<close>

fun position :: "char \<Rightarrow> string \<Rightarrow> nat option" where
  "position c [] = None"
| "position c (x # xs) = (if x = c then Some 0 else map_option Suc (position c xs))"

definition get_version_from_url :: "string \<Rightarrow> string" where
  "get_version_from_url url =
     (let n = length url in
      case (position (CHR ''-'') (rev url), position (CHR ''.'') (rev url)) of
        (Some a, Some b) \<Rightarrow>
          if a > b then
            (if parse_i32 (drop (n - b) url) \<noteq> None then drop (n - a) url
             else take (a - b - 1) (drop (n - a) url))
          else drop (n - a) url
      | _ \<Rightarrow> [])"

text \<open>The server that \<open>start_with_bind\<close> builds from the arguments; \<open>parse_mask\<close> is the parser
  of \<open>Ipv4Network\<close> with its membership test, \<open>host_ip\<close> the address of this host.\<close>

definition new_server ::
    "(string \<Rightarrow> (u32 \<Rightarrow> bool) option) \<Rightarrow> (string \<Rightarrow> bool) \<Rightarrow> string \<Rightarrow> environ \<Rightarrow> int \<Rightarrow> bytes option \<Rightarrow> snapshot" where
  "new_server parse_mask resolves host_ip args serial sk =
     (let software_url = get_arg args ''software-url'';
          mask = parse_mask (get_arg args ''mask'')
      in parse_relay_servers resolves (get_arg args ''relay-servers'')
           \<lparr>sn_relay_servers = [], sn_relay_servers0 = [],
            sn_rendezvous_servers = get_servers resolves (get_arg args ''rendezvous-servers''),
            sn_inner = \<lparr>in_serial = serial, in_version = get_version_from_url software_url,
              in_software_url = software_url, in_mask = mask,
              in_local_ip = (if mask = None then [] else get_arg_or args ''local-ip'' host_ip),
              in_sk = sk\<rparr>\<rparr>)"

definition new_world :: "environ \<Rightarrow> database \<Rightarrow> snapshot \<Rightarrow> world" where
  "new_world args db main =
     \<lparr>w_tcp_punch = Map.empty, w_tcp_senders = Map.empty, w_pm = \<lparr>pm_map = Map.empty, pm_db = db\<rparr>,
      w_tx = [], w_main = main, w_rotation = 0,
      w_always_use_relay = (to_uppercase (get_arg args ''ALWAYS_USE_RELAY'') = ''Y''),
      w_punch_reqs = [], w_ip_blocker = Map.empty, w_ip_changes = Map.empty\<rparr>"

lemma new_world_synced:
  assumes "db_wf db" "\<forall>r \<in> set db. r_guid r \<noteq> [] \<and> r_uuid r \<noteq> []"
  shows "pm_synced (w_pm (new_world args db main))"
  using assms by (simp add: new_world_def pm_synced_def)

end
