(* ===== verification/Rv_Register.thy ===== *)
theory Rv_Register
  imports Rv_State
begin

text \<open>
  Registration with the rendezvous server: the limiters, \<open>RegisterPk\<close> over UDP and over an
  authenticated tunnel, \<open>RegisterPeer\<close>, and the rest of \<open>handle_udp\<close>
  (\<open>server/src/rendezvous_server.rs\<close>). A handler is one step here; \<open>Rv_Race\<close> splits the
  registrations at every await. The lemmas show, for handlers that run one after another, that an id stays with
  the UUID that registered it, how often it can be registered, and what the two transports have in common.
\<close>

section \<open>Limiters\<close>

definition reg_pk_limit :: "instant \<Rightarrow> u32 \<times> instant \<Rightarrow> (u32 \<times> instant) option" where
  "reg_pk_limit now req_pk =
     (if elapsed_secs now (snd req_pk) > 6 then Some (0 + 1, now)
      else if fst req_pk > 2 then None
      else Some (fst req_pk + 1, now))"

definition ip_count_limit :: "instant \<Rightarrow> u32 \<times> instant \<Rightarrow> (u32 \<times> instant) option" where
  "ip_count_limit now counter =
     (if elapsed_secs now (snd counter) > ip_block_dur then Some (0 + 1, now)
      else if fst counter > 30 then None
      else Some (fst counter + 1, now))"

text \<open>The second half of \<open>check_ip_blocker\<close>: at most 301 different ids a day.\<close>

definition ip_ids_limit ::
    "instant \<Rightarrow> string \<Rightarrow> string list \<times> instant \<Rightarrow> bool \<times> string list \<times> instant" where
  "ip_ids_limit now pid counter =
     (let is_new = pid \<notin> set (fst counter);
          expired = elapsed_secs now (snd counter) > day_seconds
      in if \<not> expired \<and> length (fst counter) > 300 then (\<not> is_new, counter)
         else
           (let ids = (if expired then [] else fst counter) in
            (True, if is_new then ids @ [pid] else ids, now)))"

definition check_ip_blocker ::
    "instant \<Rightarrow> string \<Rightarrow> string \<Rightarrow> (string \<rightharpoonup> ip_block) \<Rightarrow> bool \<times> (string \<rightharpoonup> ip_block)" where
  "check_ip_blocker now ip pid blocker =
     (case blocker ip of
        None \<Rightarrow> (True, blocker(ip \<mapsto> \<lparr>ib_count = (0, now), ib_ids = ([], now)\<rparr>))
      | Some old \<Rightarrow>
          (case ip_count_limit now (ib_count old) of
             None \<Rightarrow> (False, blocker)
           | Some c \<Rightarrow>
               (let (ok, ids) = ip_ids_limit now pid (ib_ids old)
                in (ok, blocker(ip \<mapsto> \<lparr>ib_count = c, ib_ids = ids\<rparr>)))))"

definition note_ip_change ::
    "instant \<Rightarrow> string \<Rightarrow> string \<Rightarrow> (string \<rightharpoonup> instant \<times> (string \<rightharpoonup> int)) \<Rightarrow>
     (string \<rightharpoonup> instant \<times> (string \<rightharpoonup> int))" where
  "note_ip_change now pid ip changes =
     changes(pid \<mapsto>
       (case changes pid of
          None \<Rightarrow> (now, [ip \<mapsto> 1])
        | Some (tm, ips) \<Rightarrow>
            if elapsed_secs now tm > ip_change_dur then (now, [ip \<mapsto> 1])
            else (tm, ips(ip \<mapsto> (case ips ip of Some v \<Rightarrow> v + 1 | None \<Rightarrow> 1)))))"

section \<open>RegisterPk\<close>

datatype id_decision = Mismatch | Proceed bool bool

definition udp_identity :: "peer \<Rightarrow> register_pk \<Rightarrow> string \<Rightarrow> id_decision" where
  "udp_identity p rk ip =
     (if p_uuid p = [] then Proceed True False
      else if p_uuid p = rk_uuid rk then
        (if pi_ip (p_info p) \<noteq> ip \<and> p_pk p \<noteq> rk_pk rk then Mismatch
         else (let ip_changed = pi_ip (p_info p) \<noteq> ip in
               Proceed (p_uuid p \<noteq> rk_uuid rk \<or> p_pk p \<noteq> rk_pk rk \<or> ip_changed) ip_changed))
      else Mismatch)"

definition tcp_identity :: "peer \<Rightarrow> register_pk \<Rightarrow> string \<Rightarrow> id_decision" where
  "tcp_identity p rk ip =
     (if p_uuid p = [] then Proceed True False
      else if p_uuid p = rk_uuid rk then
        (if pi_ip (p_info p) \<noteq> ip \<and> p_pk p \<noteq> rk_pk rk then Mismatch
         else (let ip_changed = pi_ip (p_info p) \<noteq> ip in
               Proceed (p_pk p \<noteq> rk_pk rk \<or> ip_changed) ip_changed))
      else Mismatch)"

text \<open>The bookkeeping between the identity check and the update, the same text in both handlers:
  \<open>None\<close> where the peer registers too often.\<close>

definition register_bookkeeping ::
    "env \<Rightarrow> string \<Rightarrow> string \<Rightarrow> bool \<Rightarrow> peer \<Rightarrow> world \<Rightarrow> (peer \<times> world) option" where
  "register_bookkeeping e pid ip ip_changed p w =
     (case reg_pk_limit (e_now e) (p_reg_pk p) of
        None \<Rightarrow> None
      | Some req_pk \<Rightarrow>
          (let p = p\<lparr>p_reg_pk := req_pk\<rparr>;
               w = w\<lparr>w_pm := pm_put pid p (w_pm w)\<rparr>
           in Some (p, if ip_changed
                       then w\<lparr>w_ip_changes := note_ip_change (e_now e) pid ip (w_ip_changes w)\<rparr>
                       else w)))"

text \<open>The \<open>RegisterPk\<close> branch of \<open>handle_udp\<close>: the answer, if there is one.\<close>

definition udp_register_pk ::
    "env \<Rightarrow> register_pk \<Rightarrow> socket_addr \<Rightarrow> world \<Rightarrow> register_result option \<times> world" where
  "udp_register_pk e rk addr w =
     (if rk_uuid rk = [] \<or> rk_pk rk = [] then (None, w)
      else
        (let pid = rk_id rk; ip = ip_to_string (sa_ip addr) in
         if length pid < 6 then (Some UUID_MISMATCH, w)
         else
           (case check_ip_blocker (e_now e) ip pid (w_ip_blocker w) of
              (False, b) \<Rightarrow> (Some TOO_FREQUENT, w\<lparr>w_ip_blocker := b\<rparr>)
            | (True, b) \<Rightarrow>
                (let (p, pm) = pm_get_or e pid (w_pm w);
                     w = w\<lparr>w_ip_blocker := b, w_pm := pm\<rparr>
                 in case udp_identity p rk ip of
                      Mismatch \<Rightarrow> (Some UUID_MISMATCH, w)
                    | Proceed changed ip_changed \<Rightarrow>
                        (case register_bookkeeping e pid ip ip_changed p w of
                           None \<Rightarrow> (Some TOO_FREQUENT, w)
                         | Some (p, w) \<Rightarrow>
                             (Some OK,
                              if changed
                              then w\<lparr>w_pm := snd (pm_update_pk e pid p addr (rk_uuid rk) (rk_pk rk) ip (w_pm w))\<rparr>
                              else w))))))"

definition handle_tcp_register_pk ::
    "env \<Rightarrow> register_pk \<Rightarrow> socket_addr \<Rightarrow> world \<Rightarrow> register_result \<times> world" where
  "handle_tcp_register_pk e rk addr w =
     (if rk_uuid rk = [] \<or> rk_pk rk = [] then (NOT_SUPPORT, w)
      else
        (let pid = rk_id rk; ip = ip_to_string (sa_ip addr) in
         if length pid < 6 then (UUID_MISMATCH, w)
         else
           (let (p, pm) = pm_get_or e pid (w_pm w);
                w = w\<lparr>w_pm := pm\<rparr>
            in case tcp_identity p rk ip of
                 Mismatch \<Rightarrow> (UUID_MISMATCH, w)
               | Proceed changed ip_changed \<Rightarrow>
                   (case register_bookkeeping e pid ip ip_changed p w of
                      None \<Rightarrow> (TOO_FREQUENT, w)
                    | Some (p, w) \<Rightarrow>
                        if changed then
                          (let (res, pm) = pm_update_pk e pid p addr (rk_uuid rk) (rk_pk rk) ip (w_pm w)
                           in (res, w\<lparr>w_pm := pm\<rparr>))
                        else (OK, w)))))"

section \<open>RegisterPeer\<close>

definition ip_change_of :: "peer \<Rightarrow> socket_addr \<Rightarrow> bool" where
  "ip_change_of old addr \<longleftrightarrow>
     (if sa_port (p_socket_addr old) \<noteq> 0 then sa_ip addr \<noteq> sa_ip (p_socket_addr old)
      else ip_to_string (sa_ip addr) \<noteq> pi_ip (p_info old))
     \<and> \<not> is_loopback (sa_ip addr)"

text \<open>\<open>update_addr\<close> up to its answer: whether the client has to send its public key.\<close>

definition update_addr :: "env \<Rightarrow> string \<Rightarrow> socket_addr \<Rightarrow> world \<Rightarrow> bool \<times> world" where
  "update_addr e pid addr w =
     (case pm_get_in_memory pid (w_pm w) of
        None \<Rightarrow> (True, w)
      | Some old \<Rightarrow>
          (let request_pk = (p_pk old = [] \<or> ip_change_of old addr) in
           (request_pk,
            if request_pk then w
            else w\<lparr>w_pm := pm_put pid (old\<lparr>p_socket_addr := addr, p_last_reg_time := e_now e\<rparr>) (w_pm w)\<rparr>)))"

text \<open>The \<open>RegisterPeer\<close> branch of \<open>handle_tcp\<close> on an authenticated tunnel.\<close>

definition tcp_register_peer :: "env \<Rightarrow> string \<Rightarrow> socket_addr \<Rightarrow> world \<Rightarrow> bool \<times> world" where
  "tcp_register_peer e pid addr w =
     (case pm_get_in_memory pid (w_pm w) of
        None \<Rightarrow> (True, w)
      | Some old \<Rightarrow>
          (let request_pk = (p_pk old = []) in
           (request_pk,
            if request_pk then w
            else w\<lparr>w_pm := pm_put pid (old\<lparr>p_socket_addr := addr, p_last_reg_time := e_now e\<rparr>) (w_pm w)\<rparr>)))"

section \<open>The UDP handler\<close>

text \<open>Sends that end the handler with an error when they fail: \<open>socket.send(..).await?\<close>.\<close>

fun udp_sends :: "env \<Rightarrow> (rmsg \<times> socket_addr) list \<Rightarrow> bool \<times> effect list" where
  "udp_sends e [] = (True, [])"
| "udp_sends e ((msg, addr) # ms) =
     (if e_udp_ok e msg addr
      then (let (ok, out) = udp_sends e ms in (ok, UdpSend msg addr # out))
      else (False, []))"

definition configure_update :: "env \<Rightarrow> config_update \<Rightarrow> socket_addr \<Rightarrow> snapshot \<Rightarrow> snapshot" where
  "configure_update e cu addr s =
     (if is_loopback (sa_ip (try_into_v4 addr)) \<and> fst cu > in_serial (sn_inner s)
      then s\<lparr>sn_inner := (sn_inner s)\<lparr>in_serial := fst cu\<rparr>,
             sn_rendezvous_servers :=
               filter (\<lambda>x. x \<noteq> [] \<and> test_if_valid_server (e_resolves e) x) (snd cu)\<rparr>
      else s)"

text \<open>The branches of \<open>handle_udp\<close>: the datagrams they send, in order, and the new state. Every
  branch sends last, so a failing send ends the handler with the state already changed.\<close>

definition udp_branch :: "env \<Rightarrow> rmsg \<Rightarrow> socket_addr \<Rightarrow> world \<Rightarrow> (rmsg \<times> socket_addr) list \<times> world" where
  "udp_branch e msg addr w =
     (let inner = sn_inner (w_main w) in
      case msg of
        RegisterPeer pid serial \<Rightarrow>
          if pid = [] then ([], w)
          else
            (let (request_pk, w) = update_addr e pid addr w in
             ((RegisterPeerResponse request_pk, addr) #
                (if in_serial inner > serial
                 then [(ConfigureUpdate (in_serial inner, sn_rendezvous_servers (w_main w)), addr)]
                 else []), w))
      | RegisterPk rk \<Rightarrow>
          (case udp_register_pk e rk addr w of
             (None, w) \<Rightarrow> ([], w)
           | (Some res, w) \<Rightarrow> ([(RegisterPkResponse res, addr)], w))
      | ConfigureUpdate cu \<Rightarrow> ([], w\<lparr>w_main := configure_update e cu addr (w_main w)\<rparr>)
      | SoftwareUpdate url \<Rightarrow>
          if in_version inner \<noteq> [] \<and> url \<noteq> in_version inner
          then ([(SoftwareUpdate (in_software_url inner), addr)], w)
          else ([], w)
      | _ \<Rightarrow> ([], w))"

definition handle_udp :: "env \<Rightarrow> bytes \<Rightarrow> socket_addr \<Rightarrow> world \<Rightarrow> bool \<times> world \<times> effect list" where
  "handle_udp e bs addr w =
     (case e_parse e bs of
        None \<Rightarrow> (True, w, [])
      | Some msg \<Rightarrow>
          (let (ms, w) = udp_branch e msg addr w; (ok, out) = udp_sends e ms in (ok, w, out)))"

section \<open>The contract of a limiter\<close>

text \<open>A limiter counts what it admits. A request that comes more than \<open>window\<close> seconds after the
  last admitted one starts a new count; otherwise it is admitted while the count is below
  \<open>cap\<close>. A refused request changes nothing.\<close>

locale limiter =
  fixes admit :: "instant \<Rightarrow> 'c \<Rightarrow> 'c option"
    and count :: "'c \<Rightarrow> nat"
    and since :: "'c \<Rightarrow> instant"
    and window :: nat
    and cap :: nat
  assumes fresh: "elapsed_secs now (since c) > window \<Longrightarrow> \<exists>c'. admit now c = Some c' \<and> count c' = 1 \<and> since c' = now"
    and refused: "elapsed_secs now (since c) \<le> window \<Longrightarrow> cap \<le> count c \<Longrightarrow> admit now c = None"
    and counted: "elapsed_secs now (since c) \<le> window \<Longrightarrow> count c < cap \<Longrightarrow>
      \<exists>c'. admit now c = Some c' \<and> count c' = Suc (count c) \<and> since c' = now"
    and cap_pos: "0 < cap"
begin

text \<open>What can still be admitted in the window that starts at \<open>t\<close>; an admission uses one up.\<close>

lemma admit_uses_one:
  assumes "admit now c = Some c'" "t \<le> now" "elapsed_secs now t \<le> window"
  shows "(if t \<le> since c' then cap - count c' else cap) < (if t \<le> since c then cap - count c else cap)"
proof (cases "elapsed_secs now (since c) > window")
  case True
  then have "count c' = 1" "since c' = now" using fresh [OF True] assms(1) by auto
  moreover have "\<not> t \<le> since c"
    using True assms(3) elapsed_secs_mono [of t "since c" now] by linarith
  ultimately show ?thesis using assms(2) cap_pos by simp
next
  case False
  then have "count c < cap" using refused [of now c] assms(1) by fastforce
  then have "count c' = Suc (count c)" "since c' = now" using counted [of now c] False assms(1) by auto
  then show ?thesis using assms(2) \<open>count c < cap\<close> by auto
qed

lemma admit_time: "admit now c = Some c' \<Longrightarrow> since c' = now"
  using fresh [where c = c and now = now] refused [of now c] counted [of now c]
  by (cases "elapsed_secs now (since c) > window"; cases "count c < cap") (auto simp: not_less)

end

lemma u32_Suc: "(n :: u32) \<le> 30 \<Longrightarrow> unat (n + 1) = Suc (unat n)"
  using unat_add_lem [of n 1] by (simp add: word_le_nat_alt)

interpretation reg_limit: limiter reg_pk_limit "\<lambda>c. unat (fst c)" snd 6 3
  by unfold_locales
    (auto simp: reg_pk_limit_def word_less_nat_alt u32_Suc word_le_nat_alt)

interpretation ip_limit: limiter ip_count_limit "\<lambda>c. unat (fst c)" snd ip_block_dur 31
  by unfold_locales
    (auto simp: ip_count_limit_def word_less_nat_alt u32_Suc word_le_nat_alt)

section \<open>Registration lemmas\<close>

lemma identity_same: "udp_identity = tcp_identity"
  by (auto simp: fun_eq_iff udp_identity_def tcp_identity_def Let_def)

lemma tcp_identity_Proceed:
  assumes "tcp_identity p rk ip = Proceed changed ip_changed"
  shows "p_uuid p = [] \<or> p_uuid p = rk_uuid rk"
    "\<not> changed \<Longrightarrow> p_uuid p = rk_uuid rk \<and> p_pk p = rk_pk rk \<and> pi_ip (p_info p) = ip"
    "p_uuid p \<noteq> [] \<Longrightarrow> p_pk p \<noteq> rk_pk rk \<Longrightarrow> pi_ip (p_info p) = ip"
  using assms by (auto simp: tcp_identity_def Let_def split: if_splits)

lemma tcp_identity_Mismatch:
  "tcp_identity p rk ip = Mismatch \<longleftrightarrow>
     p_uuid p \<noteq> [] \<and> (p_uuid p \<noteq> rk_uuid rk \<or> pi_ip (p_info p) \<noteq> ip \<and> p_pk p \<noteq> rk_pk rk)"
  by (auto simp: tcp_identity_def Let_def)

lemma register_bookkeeping_Some:
  assumes "register_bookkeeping e pid ip ip_changed p w = Some (p', w')"
  obtains r where "reg_pk_limit (e_now e) (p_reg_pk p) = Some r" "p' = p\<lparr>p_reg_pk := r\<rparr>"
    "w_pm w' = pm_put pid p' (w_pm w)" "w_ip_blocker w' = w_ip_blocker w"
  using assms by (auto simp: register_bookkeeping_def Let_def split: option.splits if_splits)

lemma register_bookkeeping_None:
  "register_bookkeeping e pid ip ip_changed p w = None \<longleftrightarrow> reg_pk_limit (e_now e) (p_reg_pk p) = None"
  by (auto simp: register_bookkeeping_def Let_def split: option.splits)

text \<open>The part that both transports share, on a store that is in order.\<close>

lemma register_core:
  assumes "pm_synced (w_pm w)" "env_ok e (w_pm w)" "pm_get_or e pid (w_pm w) = (p, pm)"
    and "w_pm w1 = pm" "tcp_identity p rk ip = Proceed changed ip_changed" "rk_uuid rk \<noteq> []"
    and "register_bookkeeping e pid ip ip_changed p w1 = Some (p', w')"
  defines "r \<equiv> (registry (w_pm w))(pid \<mapsto> (rk_uuid rk, rk_pk rk))"
  shows "if changed
    then \<exists>pm'. pm_update_pk e pid p' addr (rk_uuid rk) (rk_pk rk) ip (w_pm w') = (OK, pm') \<and>
           pm_synced pm' \<and> registry pm' = r
    else pm_synced (w_pm w') \<and> registry (w_pm w') = r"
proof -
  from assms(7) obtain c where c: "p' = p\<lparr>p_reg_pk := c\<rparr>" "w_pm w' = pm_put pid p' pm"
    by (rule register_bookkeeping_Some) (simp add: assms(4))
  have same: "same_identity p' p" by (simp add: same_identity_def c(1))
  show ?thesis
  proof (cases changed)
    case True
    then show ?thesis
      using ps.owner_update [OF assms(1-3) same assms(6) tcp_identity_Proceed(1) [OF assms(5)]]
      by (simp add: r_def c(2))
  next
    case False
    have "registry (w_pm w) pid = Some (rk_uuid rk, rk_pk rk)"
      using ps.fetch [OF assms(1-3)] ps.entry_reg [of pm pid p] tcp_identity_Proceed(2) [OF assms(5) False] assms(6)
      by (auto simp: peer_identity_def)
    then show ?thesis
      using False ps.fetch_put [OF assms(1-3) same] by (simp add: r_def c(2) fun_upd_idem)
  qed
qed

lemma tcp_register_registry:
  assumes "pm_synced (w_pm w)" "env_ok e (w_pm w)" "handle_tcp_register_pk e rk addr w = (res, w')"
  shows "pm_synced (w_pm w') \<and>
    registry (w_pm w') =
      (if res = OK then (registry (w_pm w))(rk_id rk \<mapsto> (rk_uuid rk, rk_pk rk)) else registry (w_pm w)) \<and>
    (res = OK \<longrightarrow> (\<forall>u k. registry (w_pm w) (rk_id rk) = Some (u, k) \<longrightarrow> u = rk_uuid rk))"
proof (cases "rk_uuid rk = [] \<or> rk_pk rk = [] \<or> length (rk_id rk) < 6")
  case False
  let ?ip = "ip_to_string (sa_ip addr)"
  obtain p pm where p: "pm_get_or e (rk_id rk) (w_pm w) = (p, pm)"
    by (cases "pm_get_or e (rk_id rk) (w_pm w)")
  note fetch = ps.fetch [OF assms(1,2) p]
  show ?thesis
  proof (cases "tcp_identity p rk ?ip")
    case Mismatch
    then show ?thesis using assms(3) False p fetch by (auto simp: handle_tcp_register_pk_def Let_def)
  next
    case (Proceed changed ip_changed)
    let ?b = "register_bookkeeping e (rk_id rk) ?ip ip_changed p (w\<lparr>w_pm := pm\<rparr>)"
    have owner: "\<forall>u k. registry (w_pm w) (rk_id rk) = Some (u, k) \<longrightarrow> u = rk_uuid rk"
      using ps.fetch_owner [OF assms(1,2) p, of "rk_uuid rk"] tcp_identity_Proceed(1) [OF Proceed] by simp
    show ?thesis
    proof (cases ?b)
      case None
      then show ?thesis
        using assms(3) False p fetch Proceed by (auto simp: handle_tcp_register_pk_def Let_def)
    next
      case (Some b)
      obtain p' w1 where b: "?b = Some (p', w1)" using Some by (cases b) simp
      note core = register_core [OF assms(1,2) p _ Proceed _ b, of addr]
      then show ?thesis
        using assms(3) False p Proceed b owner
        by (cases changed) (auto simp: handle_tcp_register_pk_def Let_def)
    qed
  qed
qed (use assms in \<open>auto simp: handle_tcp_register_pk_def Let_def split: if_splits\<close>)

lemma pm_update_pk_result: "fst (pm_update_pk e pid p addr uuid pk ip pm) \<in> {OK, SERVER_ERROR}"
  by (auto simp: pm_update_pk_def Let_def split: option.splits)

lemma udp_as_tcp:
  assumes "rk_uuid rk \<noteq> []" "rk_pk rk \<noteq> []"
    and "check_ip_blocker (e_now e) (ip_to_string (sa_ip addr)) (rk_id rk) (w_ip_blocker w) = (ok, b)"
  shows "udp_register_pk e rk addr w =
    (if length (rk_id rk) < 6 then (Some UUID_MISMATCH, w)
     else if \<not> ok then (Some TOO_FREQUENT, w\<lparr>w_ip_blocker := b\<rparr>)
     else
       (case handle_tcp_register_pk e rk addr (w\<lparr>w_ip_blocker := b\<rparr>) of
          (res, w') \<Rightarrow> (Some (if res = SERVER_ERROR then OK else res), w')))"
proof (cases "length (rk_id rk) < 6 \<or> \<not> ok")
  case False
  let ?ip = "ip_to_string (sa_ip addr)" and ?w = "w\<lparr>w_ip_blocker := b\<rparr>"
  obtain p pm where p: "pm_get_or e (rk_id rk) (w_pm w) = (p, pm)"
    by (cases "pm_get_or e (rk_id rk) (w_pm w)")
  show ?thesis
  proof (cases "tcp_identity p rk ?ip")
    case (Proceed changed ip_changed)
    let ?b = "register_bookkeeping e (rk_id rk) ?ip ip_changed p (?w\<lparr>w_pm := pm\<rparr>)"
    show ?thesis
    proof (cases ?b)
      case (Some x)
      obtain p' w1 where x: "x = (p', w1)" by (cases x)
      obtain res pm' where u: "pm_update_pk e (rk_id rk) p' addr (rk_uuid rk) (rk_pk rk) ?ip (w_pm w1) = (res, pm')"
        by (cases "pm_update_pk e (rk_id rk) p' addr (rk_uuid rk) (rk_pk rk) ?ip (w_pm w1)")
      have "res = OK \<or> res = SERVER_ERROR"
        using pm_update_pk_result [of e "rk_id rk" p' addr "rk_uuid rk" "rk_pk rk" ?ip "w_pm w1"] u by auto
      then show ?thesis
        using assms False p Proceed Some x u
        by (auto simp: udp_register_pk_def handle_tcp_register_pk_def Let_def identity_same)
    qed (use assms False p Proceed in \<open>simp add: udp_register_pk_def handle_tcp_register_pk_def Let_def identity_same\<close>)
  qed (use assms False p in \<open>simp add: udp_register_pk_def handle_tcp_register_pk_def Let_def identity_same\<close>)
qed (use assms in \<open>auto simp: udp_register_pk_def Let_def\<close>)

section \<open>Runs of registrations\<close>

datatype reg_call = UdpReg env register_pk socket_addr | TcpReg env register_pk socket_addr

fun call_env :: "reg_call \<Rightarrow> env" where
  "call_env (UdpReg e _ _) = e" | "call_env (TcpReg e _ _) = e"

fun call_rk :: "reg_call \<Rightarrow> register_pk" where
  "call_rk (UdpReg _ rk _) = rk" | "call_rk (TcpReg _ rk _) = rk"

fun reg_step :: "reg_call \<Rightarrow> world \<Rightarrow> register_result option \<times> world" where
  "reg_step (UdpReg e rk addr) w = udp_register_pk e rk addr w"
| "reg_step (TcpReg e rk addr) w = map_prod Some id (handle_tcp_register_pk e rk addr w)"

fun reg_run :: "reg_call list \<Rightarrow> world \<Rightarrow> (reg_call \<times> register_result option) list \<times> world" where
  "reg_run [] w = ([], w)"
| "reg_run (c # cs) w =
     (let (r, w) = reg_step c w; (rs, w) = reg_run cs w in ((c, r) # rs, w))"

text \<open>The database answers every call, and each guid it draws is new.\<close>

fun run_ok :: "reg_call list \<Rightarrow> world \<Rightarrow> bool" where
  "run_ok [] w = True"
| "run_ok (c # cs) w \<longleftrightarrow> env_ok (call_env c) (w_pm w) \<and> run_ok cs (snd (reg_step c w))"

lemma udp_register_blank: "rk_uuid rk = [] \<or> rk_pk rk = [] \<Longrightarrow> udp_register_pk e rk addr w = (None, w)"
  by (auto simp: udp_register_pk_def)

lemma tcp_register_no_error:
  assumes "pm_synced (w_pm w)" "env_ok e (w_pm w)"
  shows "fst (handle_tcp_register_pk e rk addr w) \<noteq> SERVER_ERROR"
proof (cases "rk_uuid rk = [] \<or> rk_pk rk = [] \<or> length (rk_id rk) < 6")
  case False
  let ?ip = "ip_to_string (sa_ip addr)"
  obtain p pm where p: "pm_get_or e (rk_id rk) (w_pm w) = (p, pm)"
    by (cases "pm_get_or e (rk_id rk) (w_pm w)")
  show ?thesis
  proof (cases "tcp_identity p rk ?ip")
    case (Proceed changed ip_changed)
    let ?b = "register_bookkeeping e (rk_id rk) ?ip ip_changed p (w\<lparr>w_pm := pm\<rparr>)"
    show ?thesis
    proof (cases ?b)
      case (Some b)
      obtain p' w1 where b: "?b = Some (p', w1)" using Some by (cases b) simp
      show ?thesis
        using register_core [OF assms p _ Proceed _ b, of addr] False p Proceed b
        by (cases changed) (auto simp: handle_tcp_register_pk_def Let_def)
    qed (use False p Proceed in \<open>simp add: handle_tcp_register_pk_def Let_def\<close>)
  qed (use False p in \<open>simp add: handle_tcp_register_pk_def Let_def\<close>)
qed (auto simp: handle_tcp_register_pk_def Let_def)

lemma reg_step_registry:
  assumes "pm_synced (w_pm w)" "env_ok (call_env c) (w_pm w)" "reg_step c w = (res, w')"
  shows "pm_synced (w_pm w') \<and>
    registry (w_pm w') =
      (if res = Some OK then (registry (w_pm w))(rk_id (call_rk c) \<mapsto> (rk_uuid (call_rk c), rk_pk (call_rk c)))
       else registry (w_pm w)) \<and>
    (res = Some OK \<longrightarrow>
      (\<forall>u k. registry (w_pm w) (rk_id (call_rk c)) = Some (u, k) \<longrightarrow> u = rk_uuid (call_rk c)))"
proof (cases c)
  case (TcpReg e rk addr)
  obtain r where "handle_tcp_register_pk e rk addr w = (r, w')" "res = Some r"
    using assms(3) TcpReg by (cases "handle_tcp_register_pk e rk addr w") auto
  then show ?thesis using tcp_register_registry [of w e rk addr r w'] assms TcpReg by simp
next
  case (UdpReg e rk addr)
  obtain ok b where b: "check_ip_blocker (e_now e) (ip_to_string (sa_ip addr)) (rk_id rk) (w_ip_blocker w) = (ok, b)"
    by fastforce
  obtain r w1 where r: "handle_tcp_register_pk e rk addr (w\<lparr>w_ip_blocker := b\<rparr>) = (r, w1)"
    by fastforce
  have "r \<noteq> SERVER_ERROR" using tcp_register_no_error [of "w\<lparr>w_ip_blocker := b\<rparr>" e rk addr] r assms UdpReg by simp
  then show ?thesis
    using tcp_register_registry [OF _ _ r] udp_as_tcp [OF _ _ b] r assms UdpReg udp_register_blank [of rk e addr w]
    by (cases "rk_uuid rk = [] \<or> rk_pk rk = []") (auto split: if_splits)
qed

section \<open>Frequency of registrations\<close>

definition reg_budget :: "instant \<Rightarrow> string \<Rightarrow> (string \<rightharpoonup> peer) \<Rightarrow> nat" where
  "reg_budget t i m =
     (case m i of
        None \<Rightarrow> 3
      | Some p \<Rightarrow> if t \<le> snd (p_reg_pk p) then 3 - unat (fst (p_reg_pk p)) else 3)"

lemma pm_get_or_map:
  assumes "pm_get_or e pid pm = (p, pm')"
  shows "pm_map pm' = (pm_map pm)(pid \<mapsto> p)" "pm_db pm' = pm_db pm"
    "pm_map pm pid = Some p \<or> pm_map pm pid = None \<and> fst (p_reg_pk p) = 0"
  using assms
  by (auto simp: pm_get_or_def pm_get_def peer_of_row_def default_peer_def Let_def fun_upd_idem
      split: option.splits)

lemma pm_update_pk_map:
  "\<exists>p'. pm_map (snd (pm_update_pk e pid p addr uuid pk ip pm)) = (pm_map pm)(pid \<mapsto> p') \<and>
     p_reg_pk p' = p_reg_pk p"
  by (auto simp: pm_update_pk_def Let_def split: option.splits)

lemma reg_budget_upd:
  "reg_budget t i (m(j \<mapsto> p)) =
     (if i = j then if t \<le> snd (p_reg_pk p) then 3 - unat (fst (p_reg_pk p)) else 3 else reg_budget t i m)"
  by (simp add: reg_budget_def)

lemma reg_budget_fetch: "pm_get_or e j pm = (p, pm') \<Longrightarrow> reg_budget t i (pm_map pm') = reg_budget t i (pm_map pm)"
  using pm_get_or_map [of e j pm p pm'] by (auto simp: reg_budget_def)

lemma tcp_register_budget:
  assumes "t \<le> e_now e" "elapsed_secs (e_now e) t \<le> 6" "handle_tcp_register_pk e rk addr w = (res, w')"
  shows "reg_budget t i (pm_map (w_pm w')) + (if res \<in> {OK, SERVER_ERROR} \<and> rk_id rk = i then 1 else 0)
     \<le> reg_budget t i (pm_map (w_pm w))"
proof (cases "rk_uuid rk = [] \<or> rk_pk rk = [] \<or> length (rk_id rk) < 6")
  case False
  let ?ip = "ip_to_string (sa_ip addr)"
  obtain p pm where p: "pm_get_or e (rk_id rk) (w_pm w) = (p, pm)"
    by (cases "pm_get_or e (rk_id rk) (w_pm w)")
  note fetch = reg_budget_fetch [OF p, of t i]
  show ?thesis
  proof (cases "tcp_identity p rk ?ip")
    case (Proceed changed ip_changed)
    let ?b = "register_bookkeeping e (rk_id rk) ?ip ip_changed p (w\<lparr>w_pm := pm\<rparr>)"
    show ?thesis
    proof (cases ?b)
      case (Some b)
      obtain p' w1 where b: "?b = Some (p', w1)" using Some by (cases b) simp
      from b obtain c where c: "reg_pk_limit (e_now e) (p_reg_pk p) = Some c" "p' = p\<lparr>p_reg_pk := c\<rparr>"
          "w_pm w1 = pm_put (rk_id rk) p' pm"
        by (rule register_bookkeeping_Some) simp
      obtain p'' where "pm_map (w_pm w') = (pm_map pm)(rk_id rk \<mapsto> p'')" "p_reg_pk p'' = c"
        using assms(3) False p Proceed b c
          pm_update_pk_map [of e "rk_id rk" p' addr "rk_uuid rk" "rk_pk rk" ?ip "w_pm w1"]
        by (cases changed) (auto simp: handle_tcp_register_pk_def Let_def split: prod.splits)
      then show ?thesis
        using reg_limit.admit_uses_one [OF c(1) assms(1,2)] fetch pm_get_or_map(1) [OF p]
        by (auto simp: reg_budget_upd)
    qed (use assms(3) False p Proceed fetch in \<open>auto simp: handle_tcp_register_pk_def Let_def\<close>)
  qed (use assms(3) False p fetch in \<open>auto simp: handle_tcp_register_pk_def Let_def\<close>)
qed (use assms(3) in \<open>auto simp: handle_tcp_register_pk_def Let_def split: if_splits\<close>)

lemma reg_step_budget:
  assumes "t \<le> e_now (call_env c)" "elapsed_secs (e_now (call_env c)) t \<le> 6" "reg_step c w = (res, w')"
  shows "reg_budget t i (pm_map (w_pm w')) + (if res = Some OK \<and> rk_id (call_rk c) = i then 1 else 0)
     \<le> reg_budget t i (pm_map (w_pm w))"
proof (cases c)
  case (TcpReg e rk addr)
  then show ?thesis
    using assms tcp_register_budget [of t e rk addr w _ w' i]
    by (cases "handle_tcp_register_pk e rk addr w") fastforce
next
  case (UdpReg e rk addr)
  obtain ok b where b: "check_ip_blocker (e_now e) (ip_to_string (sa_ip addr)) (rk_id rk) (w_ip_blocker w) = (ok, b)"
    by fastforce
  obtain r w1 where r: "handle_tcp_register_pk e rk addr (w\<lparr>w_ip_blocker := b\<rparr>) = (r, w1)"
    by fastforce
  show ?thesis
    using tcp_register_budget [OF _ _ r, of t i] udp_as_tcp [OF _ _ b] r assms UdpReg udp_register_blank [of rk e addr w]
    by (cases "rk_uuid rk = [] \<or> rk_pk rk = []") (auto split: if_splits)
qed

definition accepted :: "string \<Rightarrow> (reg_call \<times> register_result option) list \<Rightarrow> nat" where
  "accepted i rs = length (filter (\<lambda>(c, r). r = Some OK \<and> rk_id (call_rk c) = i) rs)"

lemma reg_run_budget:
  assumes "\<forall>c \<in> set cs. t \<le> e_now (call_env c) \<and> elapsed_secs (e_now (call_env c)) t \<le> 6"
  shows "accepted i (fst (reg_run cs w)) + reg_budget t i (pm_map (w_pm (snd (reg_run cs w))))
     \<le> reg_budget t i (pm_map (w_pm w))"
  using assms
proof (induction cs arbitrary: w)
  case (Cons c cs)
  obtain r w1 where r: "reg_step c w = (r, w1)" by fastforce
  show ?case
    using Cons.IH [of w1] Cons.prems reg_step_budget [of t c w r w1 i] r
    by (auto simp: accepted_def split: prod.splits)
qed (simp add: accepted_def)

text \<open>The requests of one source address, with the ids they are for.\<close>

fun blocker_run ::
    "string \<Rightarrow> (instant \<times> string) list \<Rightarrow> (string \<rightharpoonup> ip_block) \<Rightarrow> bool list \<times> (string \<rightharpoonup> ip_block)" where
  "blocker_run ip [] b = ([], b)"
| "blocker_run ip ((now, pid) # rs) b =
     (let (ok, b) = check_ip_blocker now ip pid b; (oks, b) = blocker_run ip rs b in (ok # oks, b))"

definition ip_budget :: "instant \<Rightarrow> ip_block option \<Rightarrow> nat" where
  "ip_budget t b =
     (case b of
        None \<Rightarrow> 32
      | Some x \<Rightarrow> if t \<le> snd (ib_count x) then 31 - unat (fst (ib_count x)) else 31)"

lemma check_ip_blocker_budget:
  assumes "t \<le> now" "elapsed_secs now t \<le> ip_block_dur" "check_ip_blocker now ip pid b = (ok, b')"
  shows "ip_budget t (b' ip) + (if ok then 1 else 0) \<le> ip_budget t (b ip)"
proof (cases "b ip")
  case (Some old)
  show ?thesis
  proof (cases "ip_count_limit now (ib_count old)")
    case (Some c)
    note ip_limit.admit_uses_one [OF Some assms(1,2)] ip_limit.admit_time [OF Some]
    then show ?thesis
      using assms(1,3) Some \<open>b ip = Some old\<close>
      by (auto simp: check_ip_blocker_def ip_budget_def Let_def split: prod.splits)
  qed (use assms(3) Some in \<open>auto simp: check_ip_blocker_def ip_budget_def\<close>)
qed (use assms in \<open>auto simp: check_ip_blocker_def ip_budget_def\<close>)

lemma blocker_run_budget:
  assumes "\<forall>(now, pid) \<in> set rs. t \<le> now \<and> elapsed_secs now t \<le> ip_block_dur"
  shows "length (filter (\<lambda>ok. ok) (fst (blocker_run ip rs b))) \<le> ip_budget t (b ip)"
  using assms
proof (induction rs arbitrary: b)
  case (Cons r rs)
  obtain now pid where r: "r = (now, pid)" by fastforce
  obtain ok b1 where b1: "check_ip_blocker now ip pid b = (ok, b1)" by fastforce
  show ?case
    using Cons.IH [of b1] Cons.prems check_ip_blocker_budget [OF _ _ b1, of t] r b1
    by (auto split: prod.splits)
qed simp

section \<open>Outages of the database\<close>

lemma register_during_outage:
  assumes "\<not> e_db_ok e" "pm_map (w_pm w) (rk_id rk) = None" "6 \<le> length (rk_id rk)"
    and "rk_uuid rk \<noteq> []" "rk_pk rk \<noteq> []" "handle_tcp_register_pk e rk addr w = (res, w')"
  shows "res = SERVER_ERROR \<and> pm_db (w_pm w') = pm_db (w_pm w) \<and>
    (\<exists>p. pm_map (w_pm w') (rk_id rk) = Some p \<and> p_uuid p = rk_uuid rk \<and> p_pk p = rk_pk rk \<and>
       p_guid p = [] \<and> pi_ip (p_info p) = ip_to_string (sa_ip addr) \<and> fst (p_reg_pk p) = 1)"
proof -
  have get: "pm_get_or e (rk_id rk) (w_pm w) = (default_peer (e_now e), pm_put (rk_id rk) (default_peer (e_now e)) (w_pm w))"
    using assms(1,2) by (simp add: pm_get_or_def pm_get_def Let_def)
  have "reg_pk_limit (e_now e) (p_reg_pk (default_peer (e_now e))) = Some (1, e_now e)"
    by (simp add: reg_pk_limit_def default_peer_def)
  then show ?thesis
    using assms get
    by (auto simp: handle_tcp_register_pk_def tcp_identity_def register_bookkeeping_def pm_update_pk_def
        default_peer_def Let_def not_less)
qed

lemma register_again:
  assumes "pm_map (w_pm w) (rk_id rk) = Some p" "p_uuid p = rk_uuid rk" "p_pk p = rk_pk rk"
    and "pi_ip (p_info p) = ip_to_string (sa_ip addr)" "fst (p_reg_pk p) \<le> 2"
    and "6 \<le> length (rk_id rk)" "rk_uuid rk \<noteq> []" "rk_pk rk \<noteq> []"
  shows "\<exists>w'. handle_tcp_register_pk e rk addr w = (OK, w') \<and> pm_db (w_pm w') = pm_db (w_pm w)"
proof -
  have get: "pm_get_or e (rk_id rk) (w_pm w) = (p, w_pm w)"
    using assms(1) by (simp add: pm_get_or_def pm_get_def)
  have "reg_pk_limit (e_now e) (p_reg_pk p) \<noteq> None"
    using assms(5) by (auto simp: reg_pk_limit_def dest: leD)
  then show ?thesis
    using assms get
    by (auto simp: handle_tcp_register_pk_def tcp_identity_def register_bookkeeping_def Let_def not_less)
qed

section \<open>Lemmas on the UDP handler\<close>

lemma udp_sends_to:
  assumes "udp_sends e ms = (ok, out)"
  shows "set out \<subseteq> (\<lambda>(m, a). UdpSend m a) ` set ms" "length out \<le> length ms"
  using assms by (induction ms arbitrary: ok out) (fastforce split: if_splits prod.splits)+

lemma identity_step:
  assumes "pm_synced (w_pm w)" "env_ok (call_env c) (w_pm w)" "registry (w_pm w) i = Some (u, k)"
  shows "\<exists>k'. registry (w_pm (snd (reg_step c w))) i = Some (u, k')"
proof -
  obtain r w' where "reg_step c w = (r, w')" by fastforce
  with reg_step_registry [OF assms(1,2) this] assms(3) show ?thesis by fastforce
qed

abbreviation same_channels :: "world \<Rightarrow> world \<Rightarrow> bool" where
  "same_channels w w' \<equiv>
     w_tx w' = w_tx w \<and> w_tcp_punch w' = w_tcp_punch w \<and> w_tcp_senders w' = w_tcp_senders w"

lemma udp_register_pk_frame:
  "udp_register_pk e rk addr w = (r, w') \<Longrightarrow> w_main w' = w_main w \<and> same_channels w w'"
  by (auto simp: udp_register_pk_def register_bookkeeping_def Let_def
      split: if_splits prod.splits bool.splits id_decision.splits option.splits)

lemma update_addr_frame:
  "update_addr e pid addr w = (r, w') \<Longrightarrow> w_main w' = w_main w \<and> same_channels w w'"
  by (auto simp: update_addr_def Let_def split: option.splits)

lemma udp_branch_replies:
  assumes "udp_branch e msg addr w = (ms, w')"
  shows "list_all (\<lambda>m. snd m = addr) ms \<and> length ms \<le> 2 \<and> same_channels w w' \<and>
    (w_main w' = w_main w \<or> (\<exists>cu. msg = ConfigureUpdate cu))"
  using assms
  by (cases msg)
     (auto simp: udp_branch_def Let_def dest: update_addr_frame udp_register_pk_frame
       split: if_splits prod.splits option.splits)

lemma handle_udp_branch:
  assumes "handle_udp e bs addr w = (ok, w', out)"
  shows "w' = w \<and> out = [] \<or> (\<exists>msg ms. e_parse e bs = Some msg \<and> udp_branch e msg addr w = (ms, w') \<and>
     udp_sends e ms = (ok, out))"
  using assms by (auto simp: handle_udp_def Let_def split: option.splits prod.splits)

section \<open>Properties\<close>

text \<open>An environment for concrete runs: a fixed clock reading, a database that answers, and
  stand-ins for the functions that are parameters.\<close>

definition plain_env :: "instant \<Rightarrow> bytes \<Rightarrow> env" where
  "plain_env now guid =
     \<lparr>e_now = now, e_db_ok = True, e_guid = guid, e_info_str = pi_ip, e_info_of = (\<lambda>s. \<lparr>pi_ip = s\<rparr>),
      e_tm = 0, e_resolves = (\<lambda>_. True), e_parse = (\<lambda>_. None), e_idpk = (\<lambda>_ pk. pk),
      e_sign = (\<lambda>m sk. sk @ m), e_udp_ok = (\<lambda>_ _. True)\<rparr>"

definition plain_server :: "string list \<Rightarrow> snapshot" where
  "plain_server relays =
     \<lparr>sn_relay_servers = relays, sn_relay_servers0 = relays, sn_rendezvous_servers = [],
      sn_inner = \<lparr>in_serial = 0, in_version = [], in_software_url = [], in_mask = None,
        in_local_ip = [], in_sk = None\<rparr>\<rparr>"

lemmas register_eval =
  udp_register_pk_def handle_tcp_register_pk_def check_ip_blocker_def pm_get_or_def pm_get_def
  db_get_peer_def udp_identity_def tcp_identity_def register_bookkeeping_def reg_pk_limit_def
  pm_update_pk_def db_insert_peer_def db_update_pk_def peer_of_row_def default_peer_def
  new_world_def plain_env_def plain_server_def Let_def

abbreviation sample_rk :: "bytes \<Rightarrow> bytes \<Rightarrow> register_pk" where
  "sample_rk uuid pk \<equiv> \<lparr>rk_id = ''123456'', rk_uuid = uuid, rk_pk = pk\<rparr>"

text \<open>Requests that are handled one after the other, while the database answers. Take any
  sequence of registrations over UDP and over tunnels, for any ids and from any addresses. Memory and database agree after it; every id that was registered before is still
  registered with the same UUID; and the registry that the server reads back from its database after
  a restart is the one it had.\<close>

theorem sequential_identity_stable:
  assumes "pm_synced (w_pm w)" and "run_ok cs w"
  shows "pm_synced (w_pm (snd (reg_run cs w))) \<and>
    (\<forall>i u k. registry (w_pm w) i = Some (u, k) \<longrightarrow>
       (\<exists>k'. registry (w_pm (snd (reg_run cs w))) i = Some (u, k'))) \<and>
    registry (pm_restart (w_pm (snd (reg_run cs w)))) = registry (w_pm (snd (reg_run cs w)))"
proof -
  have "pm_synced (w_pm (snd (reg_run cs w))) \<and>
    (\<forall>i u k. registry (w_pm w) i = Some (u, k) \<longrightarrow> (\<exists>k'. registry (w_pm (snd (reg_run cs w))) i = Some (u, k')))"
    using assms
  proof (induction cs arbitrary: w)
    case (Cons c cs)
    obtain r w1 where r: "reg_step c w = (r, w1)" by fastforce
    have w1: "pm_synced (w_pm w1)" using reg_step_registry [OF Cons.prems(1) _ r] Cons.prems(2) by simp
    have run: "snd (reg_run (c # cs) w) = snd (reg_run cs w1)" by (simp add: r split: prod.splits)
    have keep: "\<exists>k'. registry (w_pm w1) i = Some (u, k')" if "registry (w_pm w) i = Some (u, k)" for i u k
      using identity_step [OF Cons.prems(1) _ that] Cons.prems(2) r by fastforce
    show ?case unfolding run using Cons.IH [OF w1] Cons.prems(2) r keep by fastforce
  qed simp
  then show ?thesis using registry_restart by simp
qed

text \<open>Requests that are handled one after the other: at most three of the \<open>RegisterPk\<close> requests for an id that fall into a
  period of six seconds are answered with OK, whether or not the database answers.\<close>

lemma sequential_frequency:
  assumes "\<forall>c \<in> set cs. t \<le> e_now (call_env c) \<and> elapsed_secs (e_now (call_env c)) t \<le> 6"
  shows "accepted i (fst (reg_run cs w)) \<le> 3"
proof -
  have "reg_budget t i (pm_map (w_pm w)) \<le> 3" by (simp add: reg_budget_def split: option.splits)
  with reg_run_budget [OF assms, of i w] show ?thesis by linarith
qed

text \<open>C31. Both transports apply the same rules. A well-formed \<open>RegisterPk\<close> over UDP is treated
  exactly as over a tunnel, in its answer and in its effect on the whole state, with two differences:
  UDP first consults the limiter for the source address and is refused where that is exhausted, and
  it answers OK where the tunnel reports that the database failed.\<close>

theorem udp_tcp_register_agree:
  assumes "rk_uuid rk \<noteq> []" "rk_pk rk \<noteq> []" "6 \<le> length (rk_id rk)"
  shows "udp_register_pk e rk addr w =
    (case check_ip_blocker (e_now e) (ip_to_string (sa_ip addr)) (rk_id rk) (w_ip_blocker w) of
       (False, b) \<Rightarrow> (Some TOO_FREQUENT, w\<lparr>w_ip_blocker := b\<rparr>)
     | (True, b) \<Rightarrow>
         (case handle_tcp_register_pk e rk addr (w\<lparr>w_ip_blocker := b\<rparr>) of
            (res, w') \<Rightarrow> (Some (if res = SERVER_ERROR then OK else res), w')))"
proof -
  obtain ok b where b: "check_ip_blocker (e_now e) (ip_to_string (sa_ip addr)) (rk_id rk) (w_ip_blocker w) = (ok, b)"
    by fastforce
  from udp_as_tcp [OF assms(1,2) b] assms(3) b show ?thesis by (cases ok) auto
qed

theorem udp_tcp_register_agree_witness:
  "fst (udp_register_pk (plain_env 0 [1]\<lparr>e_db_ok := False\<rparr>) (sample_rk [7] [4]) (SockV4 2 1)
       (new_world [] [] (plain_server []))) = Some OK \<and>
   fst (handle_tcp_register_pk (plain_env 0 [1]\<lparr>e_db_ok := False\<rparr>) (sample_rk [7] [4]) (SockV4 2 1)
       (new_world [] [] (plain_server []))) = SERVER_ERROR"
proof -
  let ?e = "plain_env 0 [1]\<lparr>e_db_ok := False\<rparr>" and ?rk = "sample_rk [7] [4]" and ?a = "SockV4 2 1"
    and ?w = "new_world [] [] (plain_server [])"
  obtain b where b: "check_ip_blocker (e_now ?e) (ip_to_string (sa_ip ?a)) (rk_id ?rk) (w_ip_blocker ?w) = (True, b)"
    by (simp add: check_ip_blocker_def new_world_def)
  have err: "fst (handle_tcp_register_pk ?e ?rk ?a (?w\<lparr>w_ip_blocker := c\<rparr>)) = SERVER_ERROR" for c
    by (simp add: register_eval)
  have "fst (handle_tcp_register_pk ?e ?rk ?a ?w) = SERVER_ERROR"
    by (simp add: register_eval)
  then show ?thesis
    using udp_tcp_register_agree [of ?rk ?e ?a ?w] b err [of b]
    by (cases "handle_tcp_register_pk ?e ?rk ?a (?w\<lparr>w_ip_blocker := b\<rparr>)") simp
qed

text \<open>A key changes only from the address it was registered from, for a request that nothing interrupts,
  while the database answers and memory agrees with it. If a registration for an id
  that has a UUID and a key is accepted with another key, then it carries that UUID, and its source
  address is the one on record for the id.\<close>

theorem key_change_needs_same_ip:
  assumes "pm_synced (w_pm w)" "env_ok e (w_pm w)"
    and "registry (w_pm w) (rk_id rk) = Some (u, k)" "rk_pk rk \<noteq> k"
    and "fst (handle_tcp_register_pk e rk addr w) = OK \<or> fst (udp_register_pk e rk addr w) = Some OK"
  shows "rk_uuid rk = u \<and>
    pi_ip (p_info (fst (pm_get_or e (rk_id rk) (w_pm w)))) = ip_to_string (sa_ip addr)"
proof -
  obtain p pm where p: "pm_get_or e (rk_id rk) (w_pm w) = (p, pm)"
    by (cases "pm_get_or e (rk_id rk) (w_pm w)")
  have ident: "p_uuid p = u" "p_pk p = k" "p_uuid p \<noteq> []"
    using ps.fetch [OF assms(1,2) p] ps.entry_reg [of pm "rk_id rk" p] assms(3)
    by (auto simp: peer_identity_def split: if_splits)
  have "tcp_identity p rk (ip_to_string (sa_ip addr)) \<noteq> Mismatch"
    using assms(5) p
    by (auto simp: handle_tcp_register_pk_def udp_register_pk_def identity_same Let_def
        split: if_splits prod.splits bool.splits)
  then show ?thesis using ident assms(4) p by (auto simp: tcp_identity_Mismatch)
qed

theorem key_change_needs_same_ip_witness:
  "\<exists>w. registry (w_pm w) ''123456'' = Some ([7], [5]) \<and>
     fst (handle_tcp_register_pk (plain_env 0 [2]) (sample_rk [7] [4]) (SockV4 2 1) w) = OK \<and>
     pi_ip (p_info (fst (pm_get_or (plain_env 0 [2]) ''123456'' (w_pm w)))) = show_ipv4 2"
proof -
  let ?w = "new_world [] [\<lparr>r_guid = [1], r_id = ''123456'', r_uuid = [7 :: u8], r_pk = [5], r_user = None,
        r_status = None, r_info = show_ipv4 2\<rparr>] (plain_server [])"
  have w: "pm_synced (w_pm ?w)" by (rule new_world_synced) (simp_all add: db_wf_def)
  have e: "env_ok (plain_env 0 [2]) (w_pm ?w)" by (simp add: env_ok_def plain_env_def new_world_def)
  have reg: "registry (w_pm ?w) ''123456'' = Some ([7], [5])"
    by (simp add: registry_def new_world_def db_get_peer_def)
  have ok: "fst (handle_tcp_register_pk (plain_env 0 [2]) (sample_rk [7] [4]) (SockV4 2 1) ?w) = OK"
    by (simp add: register_eval)
  from key_change_needs_same_ip [OF w e, of "sample_rk [7] [4]" "[7]" "[5]" "SockV4 2 1"] reg ok
  show ?thesis by (intro exI [of _ ?w]) simp
qed

text \<open>A source address gets at most 32 registrations a minute. Of the requests from one
  address that fall into a period of 60 seconds, for whatever ids, the limiter for source addresses
  lets at most 32 through.\<close>

theorem ip_blocker_bound:
  assumes "\<forall>(now, pid) \<in> set rs. t \<le> now \<and> elapsed_secs now t \<le> 60"
  shows "length (filter (\<lambda>ok. ok) (fst (blocker_run ip rs b))) \<le> 32"
proof -
  have "ip_budget t (b ip) \<le> 32"
    by (auto simp: ip_budget_def intro: le_trans [OF diff_le_self] split: option.splits)
  moreover have "length (filter (\<lambda>ok. ok) (fst (blocker_run ip rs b))) \<le> ip_budget t (b ip)"
    by (rule blocker_run_budget) (use assms in \<open>simp add: ip_block_dur_def\<close>)
  ultimately show ?thesis by linarith
qed

theorem ip_blocker_bound_witness:
  "length (filter (\<lambda>ok. ok) (fst (blocker_run ''1.2.3.4'' (replicate 40 (9, ''123456'')) Map.empty))) \<le> 32"
  by (rule ip_blocker_bound [where t = 9]) simp

text \<open>C36. A registration that was not saved is acknowledged when it is repeated. If the database
  does not answer while an id that is not in memory is registered, the tunnel reports a server error
  and nothing is stored, yet the registration is in force in memory even if the database has the id
  for another UUID; and the same request, sent again, is answered with OK, still without anything
  being stored, whether or not the database answers by then.\<close>

theorem unsaved_registration_acknowledged:
  assumes "\<not> e_db_ok e" "pm_map (w_pm w) (rk_id rk) = None" "6 \<le> length (rk_id rk)"
    and "rk_uuid rk \<noteq> []" "rk_pk rk \<noteq> []"
  shows "\<exists>w1 w2. handle_tcp_register_pk e rk addr w = (SERVER_ERROR, w1) \<and>
    registry (w_pm w1) (rk_id rk) = Some (rk_uuid rk, rk_pk rk) \<and>
    handle_tcp_register_pk e' rk addr w1 = (OK, w2) \<and>
    pm_db (w_pm w1) = pm_db (w_pm w) \<and> pm_db (w_pm w2) = pm_db (w_pm w)"
proof -
  obtain res w1 where r: "handle_tcp_register_pk e rk addr w = (res, w1)" by fastforce
  from register_during_outage [OF assms r] obtain p where p: "res = SERVER_ERROR"
      "pm_db (w_pm w1) = pm_db (w_pm w)" "pm_map (w_pm w1) (rk_id rk) = Some p" "p_uuid p = rk_uuid rk"
      "p_pk p = rk_pk rk" "pi_ip (p_info p) = ip_to_string (sa_ip addr)" "fst (p_reg_pk p) = 1"
    by auto
  have "fst (p_reg_pk p) \<le> 2" using p(7) by simp
  from register_again [OF p(3-6) this assms(3-5), of e'] r p assms(4) show ?thesis
    by (auto simp: registry_def peer_identity_def)
qed

theorem unsaved_registration_acknowledged_witness:
  "\<exists>w w1 w2. registry (w_pm w) ''123456'' = Some ([7], [5]) \<and>
     handle_tcp_register_pk (plain_env 0 [2]\<lparr>e_db_ok := False\<rparr>) (sample_rk [8] [4]) (SockV4 2 1) w = (SERVER_ERROR, w1) \<and>
     registry (w_pm w1) ''123456'' = Some ([8], [4]) \<and>
     handle_tcp_register_pk (plain_env 1 [2]) (sample_rk [8] [4]) (SockV4 2 1) w1 = (OK, w2)"
proof -
  let ?w = "new_world [] [\<lparr>r_guid = [1], r_id = ''123456'', r_uuid = [7 :: u8], r_pk = [5], r_user = None,
        r_status = None, r_info = []\<rparr>] (plain_server [])"
  have "registry (w_pm ?w) ''123456'' = Some ([7], [5])"
    by (simp add: registry_def new_world_def db_get_peer_def)
  moreover have "\<not> e_db_ok (plain_env 0 [2]\<lparr>e_db_ok := False\<rparr>)" by simp
  moreover have "pm_map (w_pm ?w) (rk_id (sample_rk [8] [4])) = None" by (simp add: new_world_def)
  moreover have "6 \<le> length (rk_id (sample_rk [8] [4]))" by simp
  ultimately obtain w1 w2 where
      "handle_tcp_register_pk (plain_env 0 [2]\<lparr>e_db_ok := False\<rparr>) (sample_rk [8] [4]) (SockV4 2 1) ?w = (SERVER_ERROR, w1)"
      "registry (w_pm w1) ''123456'' = Some ([8], [4])"
      "handle_tcp_register_pk (plain_env 1 [2]) (sample_rk [8] [4]) (SockV4 2 1) w1 = (OK, w2)"
      "registry (w_pm ?w) ''123456'' = Some ([7], [5])"
    using unsaved_registration_acknowledged [of "plain_env 0 [2]\<lparr>e_db_ok := False\<rparr>" ?w "sample_rk [8] [4]"
        "SockV4 2 1" "plain_env 1 [2]"] by auto
  then show ?thesis by blast
qed

text \<open>C37. A keep-alive cannot take over the identity of a peer. \<open>RegisterPeer\<close>, which carries no credential, never changes who
  owns an id or its key and touches no other id, over UDP or over a tunnel. It moves the peer to the sender's address only if
  the peer has a key, and otherwise asks for the key and changes nothing. Over UDP the sender must moreover have the address on
  record or a loopback address; over a tunnel the address is that of the gateway and is not compared, so every tunnel can
  move every peer.\<close>

theorem register_peer_no_hijack:
  assumes "update_addr e pid addr w = (request_pk, w') \<or> tcp_register_peer e pid addr w = (request_pk, w')"
  shows "registry (w_pm w') = registry (w_pm w) \<and> pm_db (w_pm w') = pm_db (w_pm w) \<and>
    (if request_pk then w' = w
     else \<exists>p. pm_map (w_pm w) pid = Some p \<and> p_pk p \<noteq> [] \<and>
       pm_map (w_pm w') = (pm_map (w_pm w))(pid \<mapsto> p\<lparr>p_socket_addr := addr, p_last_reg_time := e_now e\<rparr>) \<and>
       (update_addr e pid addr w = (False, w') \<longrightarrow>
          is_loopback (sa_ip addr) \<or> sa_ip addr = sa_ip (p_socket_addr p) \<or>
          sa_port (p_socket_addr p) = 0 \<and> ip_to_string (sa_ip addr) = pi_ip (p_info p)))"
proof (cases "pm_map (w_pm w) pid")
  case (Some p)
  let ?p = "p\<lparr>p_socket_addr := addr, p_last_reg_time := e_now e\<rparr>"
  have reg: "registry (pm_put pid ?p (w_pm w)) = registry (w_pm w)"
    using Some by (auto simp: registry_put fun_upd_idem_iff registry_def peer_identity_def)
  have udp: "update_addr e pid addr w = (p_pk p = [] \<or> ip_change_of p addr,
      if p_pk p = [] \<or> ip_change_of p addr then w else w\<lparr>w_pm := pm_put pid ?p (w_pm w)\<rparr>)"
    using Some by (simp add: update_addr_def pm_get_in_memory_def Let_def)
  have tcp: "tcp_register_peer e pid addr w = (p_pk p = [], if p_pk p = [] then w else w\<lparr>w_pm := pm_put pid ?p (w_pm w)\<rparr>)"
    using Some by (simp add: tcp_register_peer_def pm_get_in_memory_def Let_def)
  have addr: "\<not> ip_change_of p addr \<Longrightarrow> is_loopback (sa_ip addr) \<or> sa_ip addr = sa_ip (p_socket_addr p) \<or>
      sa_port (p_socket_addr p) = 0 \<and> ip_to_string (sa_ip addr) = pi_ip (p_info p)"
    by (auto simp: ip_change_of_def split: if_splits)
  show ?thesis using assms udp tcp Some reg addr by (auto split: if_splits)
qed (use assms in \<open>auto simp: update_addr_def tcp_register_peer_def pm_get_in_memory_def\<close>)

theorem register_peer_no_hijack_witness:
  "\<exists>w p. pm_map (w_pm w) ''123456'' = Some p \<and> p_socket_addr p = SockV4 2 5 \<and>
     update_addr (plain_env 9 [1]) ''123456'' (SockV4 3 7) w = (True, w)"
proof -
  let ?p = "(default_peer 0)\<lparr>p_socket_addr := SockV4 2 5, p_pk := [4]\<rparr>"
  let ?w = "(new_world [] [] (plain_server []))\<lparr>w_pm := \<lparr>pm_map = [''123456'' \<mapsto> ?p], pm_db = []\<rparr>\<rparr>"
  have fst: "fst (update_addr (plain_env 9 [1]) ''123456'' (SockV4 3 7) ?w)"
    by (simp add: update_addr_def pm_get_in_memory_def ip_change_of_def Let_def ipv4_octets_def to_be_def)
  obtain w' where w': "update_addr (plain_env 9 [1]) ''123456'' (SockV4 3 7) ?w = (True, w')"
    using fst by (cases "update_addr (plain_env 9 [1]) ''123456'' (SockV4 3 7) ?w") simp
  with register_peer_no_hijack [OF disjI1 [OF w']] show ?thesis
    by (intro exI [of _ ?w] exI [of _ ?p]) simp
qed

text \<open>C38. A datagram is answered to its sender only, with at most two datagrams. Whatever a
  datagram contains, everything that \<open>handle_udp\<close> sends goes back to the address it came from,
  it sends at most two messages, and nothing reaches another peer: the channel to the main loop, the
  waiting TCP sinks and the tunnel channels are as before.\<close>

theorem udp_no_reflection:
  assumes "handle_udp e bs addr w = (ok, w', out)"
  shows "(\<forall>x \<in> set out. \<exists>m. x = UdpSend m addr) \<and> length out \<le> 2 \<and> same_channels w w'"
  using handle_udp_branch [OF assms]
proof (elim disjE exE conjE)
  fix msg ms assume "udp_branch e msg addr w = (ms, w')" and sent: "udp_sends e ms = (ok, out)"
  note b = udp_branch_replies [OF this(1)]
  show ?thesis using b udp_sends_to [OF sent] by (fastforce simp: list_all_iff)
qed simp

theorem udp_no_reflection_witness:
  "\<exists>w'. handle_udp (plain_env 0 [1]\<lparr>e_parse := \<lambda>_. Some (RegisterPeer ''123456'' (-1))\<rparr>) [] (SockV4 2 1)
      (new_world [] [] (plain_server [])) =
     (True, w', [UdpSend (RegisterPeerResponse True) (SockV4 2 1), UdpSend (ConfigureUpdate (0, [])) (SockV4 2 1)]) \<and>
     w_tx w' = []"
proof -
  let ?e = "plain_env 0 [1]\<lparr>e_parse := \<lambda>_. Some (RegisterPeer ''123456'' (-1))\<rparr>"
  let ?w = "new_world [] [] (plain_server [])"
  have run: "handle_udp ?e [] (SockV4 2 1) ?w =
     (True, ?w, [UdpSend (RegisterPeerResponse True) (SockV4 2 1), UdpSend (ConfigureUpdate (0, [])) (SockV4 2 1)])"
    by (simp add: handle_udp_def udp_branch_def update_addr_def pm_get_in_memory_def new_world_def
        plain_server_def plain_env_def Let_def)
  from udp_no_reflection [OF run] run show ?thesis
    by (intro exI [of _ ?w]) (simp add: new_world_def)
qed

text \<open>Only this host can reconfigure the server. A datagram changes the configuration only if
  it comes from a loopback address and carries a greater serial; then the serial is that one, and the
  rendezvous servers are those of the message that are not empty and resolve. The serial never
  decreases, and the relay servers, the key and the rest of the configuration never change.\<close>

theorem reconfigured_from_loopback_only:
  assumes "handle_udp e bs addr w = (ok, w', out)"
  shows "in_serial (sn_inner (w_main w)) \<le> in_serial (sn_inner (w_main w')) \<and>
    sn_inner (w_main w') = (sn_inner (w_main w))\<lparr>in_serial := in_serial (sn_inner (w_main w'))\<rparr> \<and>
    sn_relay_servers (w_main w') = sn_relay_servers (w_main w) \<and>
    sn_relay_servers0 (w_main w') = sn_relay_servers0 (w_main w) \<and>
    (w_main w' \<noteq> w_main w \<longrightarrow>
       is_loopback (sa_ip (try_into_v4 addr)) \<and>
       (\<exists>servers. e_parse e bs = Some (ConfigureUpdate (in_serial (sn_inner (w_main w')), servers)) \<and>
          sn_rendezvous_servers (w_main w') =
            filter (\<lambda>x. x \<noteq> [] \<and> test_if_valid_server (e_resolves e) x) servers))"
proof (cases "\<exists>cu. e_parse e bs = Some (ConfigureUpdate cu)")
  case False
  then have "w_main w' = w_main w"
    using handle_udp_branch [OF assms] udp_branch_replies by blast
  then show ?thesis by simp
qed (use assms in \<open>auto simp: handle_udp_def udp_branch_def configure_update_def Let_def split: if_splits\<close>)

theorem reconfigured_from_loopback_only_witness:
  "\<exists>w'. handle_udp (plain_env 0 [1]\<lparr>e_parse := \<lambda>_. Some (ConfigureUpdate (3, [''a'', []]))\<rparr>) [] (SockV4 0x7F000001 1)
      (new_world [] [] (plain_server [])) = (True, w', []) \<and>
     sn_rendezvous_servers (w_main w') = [''a'']"
proof -
  let ?e = "plain_env 0 [1]\<lparr>e_parse := \<lambda>_. Some (ConfigureUpdate (3, [''a'', []]))\<rparr>"
  let ?w = "new_world [] [] (plain_server [])"
  let ?w' = "?w\<lparr>w_main := configure_update ?e (3, [''a'', []]) (SockV4 0x7F000001 1) (w_main ?w)\<rparr>"
  have run: "handle_udp ?e [] (SockV4 0x7F000001 1) ?w = (True, ?w', [])"
    by (simp add: handle_udp_def udp_branch_def)
  have serial: "in_serial (sn_inner (w_main ?w')) = 3" "in_serial (sn_inner (w_main ?w)) = 0"
    by (simp_all add: configure_update_def new_world_def plain_server_def)
  then have "w_main ?w' \<noteq> w_main ?w" by auto
  with reconfigured_from_loopback_only [OF run] run serial show ?thesis
    by (intro exI [of _ ?w']) (auto simp: test_if_valid_server_def plain_env_def)
qed

end
