(* ===== verification/Rv_Punch.thy ===== *)
theory Rv_Punch
  imports Rv_Register
begin

text \<open>
  Bringing two peers together: \<open>handle_punch_hole_request\<close>, \<open>handle_hole_sent\<close>,
  \<open>handle_local_addr\<close>, \<open>handle_online_request\<close> and the choice of a relay server
  (\<open>server/src/rendezvous_server.rs\<close>). The lemmas give the outcome of a request on every
  branch, who can be asked for local addresses, and what the answers contain.
\<close>

section \<open>Punch hole requests\<close>

definition punch_dup :: "instant \<Rightarrow> string \<Rightarrow> string \<Rightarrow> punch_req list \<Rightarrow> bool" where
  "punch_dup now from_ip to_id reqs =
     (case find (\<lambda>r. pr_from_ip r = from_ip \<and> pr_to_id r = to_id) (take 30 (rev reqs)) of
        Some r \<Rightarrow> elapsed_secs now (pr_tm r) < punch_req_dedupe_sec
      | None \<Rightarrow> False)"

definition record_punch ::
    "instant \<Rightarrow> socket_addr \<Rightarrow> string \<Rightarrow> socket_addr \<Rightarrow> punch_req list \<Rightarrow> punch_req list" where
  "record_punch now addr to_id peer_addr reqs =
     (let from_ip = ip_to_string (sa_ip (try_into_v4 addr));
          to_ip = ip_to_string (sa_ip (try_into_v4 peer_addr))
      in if punch_dup now from_ip to_id reqs then reqs
         else reqs @ [\<lparr>pr_tm = now, pr_from_ip = from_ip, pr_to_ip = to_ip, pr_to_id = to_id\<rparr>])"

fun same_family_ip :: "socket_addr \<Rightarrow> socket_addr \<Rightarrow> bool" where
  "same_family_ip (SockV4 a _) (SockV4 b _) \<longleftrightarrow> a = b"
| "same_family_ip (SockV6 a _ _ _) (SockV6 b _ _ _) \<longleftrightarrow> a = b"
| "same_family_ip _ _ \<longleftrightarrow> False"

text \<open>The part after the peer has been found online.\<close>

definition forward_punch ::
    "env \<Rightarrow> snapshot \<Rightarrow> socket_addr \<Rightarrow> punch_hole_request \<Rightarrow> bool \<Rightarrow> bool \<Rightarrow> socket_addr \<Rightarrow> world \<Rightarrow> rmsg \<times> world" where
  "forward_punch e s addr ph ws vless_authenticated peer_addr w =
     (let peer_is_vless = (w_tcp_senders w (try_into_v4 peer_addr) \<noteq> None);
          peer_is_lan = (\<not> peer_is_vless \<and> is_lan s peer_addr);
          lan = (\<not> vless_authenticated \<and> is_lan s addr);
          (relay_server, w) = get_relay_server s w;
          force = (w_always_use_relay w \<or> peer_is_lan \<noteq> lan);
          relay_server = (if force \<and> peer_is_lan then in_local_ip (sn_inner s) else relay_server);
          nat_type = (if force then KnownNat SYMMETRIC else ph_nat_type ph);
          same_intranet = (\<not> vless_authenticated \<and> \<not> peer_is_vless \<and> \<not> ws \<and>
            (peer_is_lan \<and> lan \<or> same_family_ip peer_addr addr));
          socket_addr = addr_mangle_encode (e_tm e) addr
      in (if same_intranet then FetchLocalAddr socket_addr relay_server
          else PunchHole socket_addr nat_type relay_server, w))"

definition handle_punch_hole_request ::
    "env \<Rightarrow> snapshot \<Rightarrow> socket_addr \<Rightarrow> punch_hole_request \<Rightarrow> string \<Rightarrow> bool \<Rightarrow> bool \<Rightarrow> world \<Rightarrow>
     (rmsg \<times> socket_addr option) \<times> world" where
  "handle_punch_hole_request e s addr ph key ws vless_authenticated w =
     (if key \<noteq> [] \<and> ph_licence_key ph \<noteq> key then ((punch_failure_msg LICENSE_MISMATCH, None), w)
      else
        (case pm_get e (ph_id ph) (w_pm w) of
           (None, pm) \<Rightarrow> ((punch_failure_msg ID_NOT_EXIST, None), w\<lparr>w_pm := pm\<rparr>)
         | (Some p, pm) \<Rightarrow>
             (let w = w\<lparr>w_pm := pm\<rparr> in
              if millis_i64 (e_now e) (p_last_reg_time p) \<ge> reg_timeout
              then ((punch_failure_msg OFFLINE, None), w)
              else
                (let w = w\<lparr>w_punch_reqs :=
                           record_punch (e_now e) addr (ph_id ph) (p_socket_addr p) (w_punch_reqs w)\<rparr>;
                     (msg, w) = forward_punch e s addr ph ws vless_authenticated (p_socket_addr p) w
                 in ((msg, Some (p_socket_addr p)), w)))))"

definition handle_tcp_punch_hole_request ::
    "env \<Rightarrow> snapshot \<Rightarrow> socket_addr \<Rightarrow> punch_hole_request \<Rightarrow> string \<Rightarrow> bool \<Rightarrow> bool \<Rightarrow> world \<Rightarrow>
     world \<times> effect list" where
  "handle_tcp_punch_hole_request e s addr ph key ws vless_authenticated w =
     (case handle_punch_hole_request e s addr ph key ws vless_authenticated w of
        ((msg, Some to_addr), w) \<Rightarrow> (to_tx (Msg msg to_addr) w, [])
      | ((msg, None), w) \<Rightarrow> send_to_tcp msg addr w)"

definition handle_udp_punch_hole_request ::
    "env \<Rightarrow> snapshot \<Rightarrow> socket_addr \<Rightarrow> punch_hole_request \<Rightarrow> string \<Rightarrow> world \<Rightarrow> world" where
  "handle_udp_punch_hole_request e s addr ph key w =
     (case handle_punch_hole_request e s addr ph key False False w of
        ((msg, to_addr), w) \<Rightarrow> to_tx (Msg msg (case to_addr of Some a \<Rightarrow> a | None \<Rightarrow> addr)) w)"

section \<open>Answers of the controlled side\<close>

text \<open>Every caller of \<open>handle_hole_sent\<close> and \<open>handle_local_addr\<close> passes no UDP socket, so their branch that answers
  over one is never taken and has no counterpart here.\<close>

definition handle_hole_sent :: "env \<Rightarrow> snapshot \<Rightarrow> punch_hole_sent \<Rightarrow> socket_addr \<Rightarrow> world \<Rightarrow> world \<times> effect list" where
  "handle_hole_sent e s phs addr w =
     (let addr_a = addr_mangle_decode (phs_socket_addr phs);
          (pk, w) = get_pk e s (phs_version phs) (phs_id phs) w;
          p = default_punch_response\<lparr>phr_socket_addr := addr_mangle_encode (e_tm e) addr, phr_pk := pk,
                phr_relay_server := phs_relay_server phs\<rparr>;
          p = (case phs_nat_type phs of KnownNat t \<Rightarrow> p\<lparr>phr_union := PunchNatType t\<rparr> | UnknownNat _ \<Rightarrow> p)
      in send_to_tcp (PunchHoleResponse p) addr_a w)"

definition handle_local_addr :: "env \<Rightarrow> snapshot \<Rightarrow> local_addr \<Rightarrow> world \<Rightarrow> world \<times> effect list" where
  "handle_local_addr e s la w =
     (let addr_a = addr_mangle_decode (la_socket_addr la);
          (pk, w) = get_pk e s (la_version la) (la_id la) w;
          p = default_punch_response\<lparr>phr_socket_addr := la_local_addr la, phr_pk := pk,
                phr_relay_server := la_relay_server la, phr_union := PunchIsLocal True\<rparr>
      in send_to_tcp (PunchHoleResponse p) addr_a w)"

section \<open>Online states\<close>

definition peer_online :: "instant \<Rightarrow> peer_map \<Rightarrow> string \<Rightarrow> bool" where
  "peer_online now pm pid =
     (case pm_get_in_memory pid pm of
        Some p \<Rightarrow> millis_i64 now (p_last_reg_time p) < reg_timeout
      | None \<Rightarrow> False)"

fun online_states :: "instant \<Rightarrow> peer_map \<Rightarrow> nat \<Rightarrow> string list \<Rightarrow> bytes \<Rightarrow> bytes" where
  "online_states now pm i [] states = states"
| "online_states now pm i (pid # peers) states =
     online_states now pm (Suc i) peers
       (if peer_online now pm pid
        then states[i div 8 := states ! (i div 8) OR push_bit (7 - i mod 8) 1]
        else states)"

definition handle_online_request :: "instant \<Rightarrow> peer_map \<Rightarrow> string list \<Rightarrow> rmsg" where
  "handle_online_request now pm peers =
     OnlineResponse (online_states now pm 0 peers (replicate ((length peers + 7) div 8) 0))"

section \<open>Lemmas\<close>

lemma get_relay_server_frame:
  "get_relay_server s w = (r, w') \<Longrightarrow> w' = w\<lparr>w_rotation := w_rotation w'\<rparr>"
  by (auto simp: get_relay_server_def Let_def split: if_splits)

lemma forward_punch_frame:
  "forward_punch e s addr ph ws v a w = (msg, w') \<Longrightarrow> w' = w\<lparr>w_rotation := w_rotation w'\<rparr>"
  by (auto simp: forward_punch_def Let_def dest: get_relay_server_frame split: prod.splits)

text \<open>The address of the requester in a message to the controlled side.\<close>

fun punch_addr :: "rmsg \<Rightarrow> bytes option" where
  "punch_addr (FetchLocalAddr a _) = Some a"
| "punch_addr (PunchHole a _ _) = Some a"
| "punch_addr _ = None"

lemma forward_punch_addr:
  "forward_punch e s addr ph ws v a w = (msg, w') \<Longrightarrow> punch_addr msg = Some (addr_mangle_encode (e_tm e) addr)"
  by (auto simp: forward_punch_def Let_def split: prod.splits)

lemma punch_request_cases:
  assumes "handle_punch_hole_request e s addr ph key ws v w = ((msg, to), w')"
  obtains (licence) "key \<noteq> []" "ph_licence_key ph \<noteq> key" "msg = punch_failure_msg LICENSE_MISMATCH" "to = None" "w' = w"
  | (unknown) pm where "key = [] \<or> ph_licence_key ph = key" "pm_get e (ph_id ph) (w_pm w) = (None, pm)"
      "msg = punch_failure_msg ID_NOT_EXIST" "to = None" "w' = w\<lparr>w_pm := pm\<rparr>"
  | (offline) p pm where "key = [] \<or> ph_licence_key ph = key" "pm_get e (ph_id ph) (w_pm w) = (Some p, pm)"
      "reg_timeout \<le> millis_i64 (e_now e) (p_last_reg_time p)"
      "msg = punch_failure_msg OFFLINE" "to = None" "w' = w\<lparr>w_pm := pm\<rparr>"
  | (forward) p pm where "key = [] \<or> ph_licence_key ph = key" "pm_get e (ph_id ph) (w_pm w) = (Some p, pm)"
      "millis_i64 (e_now e) (p_last_reg_time p) < reg_timeout" "to = Some (p_socket_addr p)"
      "forward_punch e s addr ph ws v (p_socket_addr p)
         (w\<lparr>w_pm := pm, w_punch_reqs := record_punch (e_now e) addr (ph_id ph) (p_socket_addr p) (w_punch_reqs w)\<rparr>) =
       (msg, w')"
proof (cases "key \<noteq> [] \<and> ph_licence_key ph \<noteq> key")
  case True
  then show ?thesis using assms licence by (simp add: handle_punch_hole_request_def)
next
  case False
  obtain q pm where q: "pm_get e (ph_id ph) (w_pm w) = (q, pm)" by fastforce
  show ?thesis
  proof (cases q)
    case None
    then show ?thesis using assms False q unknown by (auto simp: handle_punch_hole_request_def)
  next
    case (Some p)
    then show ?thesis
      using assms False q offline forward
      by (auto simp: handle_punch_hole_request_def Let_def not_le split: if_splits prod.splits)
  qed
qed

lemma send_to_tcp_delivers:
  assumes "w_tcp_punch w (try_into_v4 addr) = Some sink"
  shows "send_to_tcp msg addr w =
    (w\<lparr>w_tcp_punch := (w_tcp_punch w)(try_into_v4 addr := None)\<rparr>, [SinkSend sink msg])"
  using assms by (simp add: send_to_tcp_def send_to_sink_def)

lemma get_pk_frame: "get_pk e s v pid w = (k, w') \<Longrightarrow> w' = w\<lparr>w_pm := w_pm w'\<rparr>"
  by (auto simp: get_pk_def split: option.splits if_splits prod.splits)

text \<open>A peer that is read from the database has been seen an hour ago.\<close>

lemma expired_offline:
  assumes "3600 * 1000000000 \<le> now"
  shows "millis_i64 now (get_expired_time now) \<ge> reg_timeout"
proof -
  have "elapsed_millis now (get_expired_time now) = 3600000"
    using assms by (simp add: elapsed_millis_def elapsed_def as_millis_def get_expired_time_def)
  then show ?thesis by (simp add: millis_i64_def reg_timeout_def)
qed

lemma online_in_memory:
  assumes "pm_get e pid pm = (Some p, pm')" "3600 * 1000000000 \<le> e_now e"
    and "millis_i64 (e_now e) (p_last_reg_time p) < reg_timeout"
  shows "pm_map pm pid = Some p \<and> pm' = pm"
  using assms expired_offline [of "e_now e"]
  by (auto simp: pm_get_def peer_of_row_def default_peer_def Let_def split: option.splits if_splits)

lemma online_where:
  assumes "pm_get e pid pm = (Some p, pm')" "millis_i64 (e_now e) (p_last_reg_time p) < reg_timeout"
  shows "pm_map pm pid = Some p \<or>
    pm_map pm pid = None \<and> e_now e < 3600 * 1000000000 \<and> (\<exists>r. db_get_peer pid (pm_db pm) = Some r \<and> p = peer_of_row e r)"
proof (cases "pm_map pm pid")
  case None
  then show ?thesis using assms online_in_memory [OF assms(1) _ assms(2)]
    by (cases "3600 * 1000000000 \<le> e_now e") (auto simp: pm_get_def Let_def split: option.splits if_splits)
qed (use assms in \<open>auto simp: pm_get_def\<close>)

subsection \<open>Online states\<close>

definition state_bit :: "bytes \<Rightarrow> nat \<Rightarrow> bool" where
  "state_bit states k \<longleftrightarrow> bit (states ! (k div 8)) (7 - k mod 8)"

lemma state_bit_set:
  assumes "i < 8 * length states" "k < 8 * length states"
  shows "state_bit (states[i div 8 := states ! (i div 8) OR push_bit (7 - i mod 8) 1]) k \<longleftrightarrow>
    state_bit states k \<or> k = i"
proof -
  have "bit (push_bit (7 - i mod 8) 1 :: u8) (7 - k mod 8) \<longleftrightarrow> k mod 8 = i mod 8"
  proof -
    have "7 - a = 7 - b \<longleftrightarrow> b = a" if "a < 8" "b < 8" for a b :: nat
      using that by arith
    then show ?thesis by (auto simp: bit_exp_iff less_imp_diff_less)
  qed
  moreover have "k = i \<longleftrightarrow> k div 8 = i div 8 \<and> k mod 8 = i mod 8"
    by (metis div_mult_mod_eq)
  moreover have "k div 8 < length states" using assms(2) by linarith
  ultimately show ?thesis
    by (cases "k div 8 = i div 8") (auto simp: state_bit_def bit_or_iff)
qed

lemma online_states_bits:
  assumes "i + length peers \<le> 8 * length states" "k < 8 * length states"
  shows "length (online_states now pm i peers states) = length states \<and>
    (state_bit (online_states now pm i peers states) k \<longleftrightarrow>
       state_bit states k \<or> i \<le> k \<and> k < i + length peers \<and> peer_online now pm (peers ! (k - i)))"
  using assms
proof (induction now pm i peers states rule: online_states.induct)
  case (2 now pm i pid peers states)
  let ?s = "if peer_online now pm pid then states[i div 8 := states ! (i div 8) OR push_bit (7 - i mod 8) 1] else states"
  have "state_bit ?s k \<longleftrightarrow> state_bit states k \<or> k = i \<and> peer_online now pm pid"
    using state_bit_set [of i states k] 2(2,3) by simp
  moreover have "length ?s = length states" by simp
  moreover have "k = i \<or> Suc i \<le> k \<longleftrightarrow> i \<le> k" by auto
  ultimately show ?case
    using 2(1) [unfolded 2] 2 by (auto simp: nth_Cons' Suc_diff_le simp del: length_list_update)
qed auto

subsection \<open>Relay rotation\<close>

fun relay_picks :: "snapshot \<Rightarrow> nat \<Rightarrow> world \<Rightarrow> string list \<times> world" where
  "relay_picks s 0 w = ([], w)"
| "relay_picks s (Suc n) w =
     (let (r, w) = get_relay_server s w; (rs, w) = relay_picks s n w in (r # rs, w))"

lemma relay_picks_rotation:
  assumes "2 \<le> length (sn_relay_servers s)" "unat (w_rotation w) + n \<le> 2 ^ 64"
  shows "fst (relay_picks s n w) =
    map (\<lambda>i. sn_relay_servers s ! ((unat (w_rotation w) + i) mod length (sn_relay_servers s))) [0..<n]"
  using assms(2)
proof (induction n arbitrary: w)
  case (Suc n)
  let ?n = "length (sn_relay_servers s)"
  have pick: "get_relay_server s w =
      (sn_relay_servers s ! (unat (w_rotation w) mod ?n), w\<lparr>w_rotation := w_rotation w + 1\<rparr>)"
    using assms(1) by (auto simp: get_relay_server_def Let_def)
  show ?case
  proof (cases n)
    case (Suc m)
    then have "unat (w_rotation w + 1) = Suc (unat (w_rotation w))"
      using unat_add_lem [of "w_rotation w" 1] Suc.prems by simp
    then show ?thesis
      using Suc.IH [of "w\<lparr>w_rotation := w_rotation w + 1\<rparr>"] Suc.prems
      by (cases "relay_picks s n (w\<lparr>w_rotation := w_rotation w + 1\<rparr>)") (simp add: pick map_upt_Suc del: upt_Suc)
  qed (simp add: pick)
qed simp

subsection \<open>Recorded requests\<close>

definition same_request :: "punch_req \<Rightarrow> punch_req \<Rightarrow> bool" where
  "same_request r q \<longleftrightarrow> pr_from_ip r = pr_from_ip q \<and> pr_to_id r = pr_to_id q"

text \<open>The record is in the order of time, and of two entries for the same request that are at most
  30 places apart the later one is at least a minute younger.\<close>

definition punch_reqs_wf :: "punch_req list \<Rightarrow> bool" where
  "punch_reqs_wf rs \<longleftrightarrow> sorted (map pr_tm rs) \<and>
     (\<forall>i j. i < j \<and> j < length rs \<and> j \<le> i + 30 \<and> same_request (rs ! i) (rs ! j) \<longrightarrow>
        60 \<le> elapsed_secs (pr_tm (rs ! j)) (pr_tm (rs ! i)))"

text \<open>The search finds the latest of the last 30 entries.\<close>

lemma find_rev_latest:
  assumes "P (rs ! i)" "i < length rs" "length rs \<le> i + n"
  obtains k where "find P (take n (rev rs)) = Some (rs ! k)" "i \<le> k" "k < length rs"
proof -
  let ?l = "take n (rev rs)"
  have nth: "?l ! j = rs ! (length rs - Suc j)" if "j < length ?l" for j
    using that by (simp add: rev_nth)
  have i: "length rs - Suc i < n" using assms(2,3) by linarith
  then have pos: "length rs - Suc i < length ?l" "?l ! (length rs - Suc i) = rs ! i"
    using assms(2,3) by (simp_all add: rev_nth)
  then have "find P ?l \<noteq> None" using assms(1) by (metis find_None_iff nth_mem)
  then obtain x where x: "find P ?l = Some x" by blast
  then obtain j where j: "j < length ?l" "x = ?l ! j" "\<And>m. m < j \<Longrightarrow> \<not> P (?l ! m)"
    by (auto simp: find_Some_iff)
  have "j \<le> length rs - Suc i" using j(3) [of "length rs - Suc i"] pos(2) assms(1) by (metis not_le)
  then show thesis
    using that [of "length rs - Suc j"] x j nth assms(2) by auto
qed

lemma record_punch_wf:
  assumes "punch_reqs_wf rs" "\<forall>r \<in> set rs. pr_tm r \<le> now"
  shows "punch_reqs_wf (record_punch now addr to_id peer_addr rs)"
proof -
  let ?from = "ip_to_string (sa_ip (try_into_v4 addr))"
  let ?new = "\<lparr>pr_tm = now, pr_from_ip = ?from, pr_to_ip = ip_to_string (sa_ip (try_into_v4 peer_addr)), pr_to_id = to_id\<rparr>"
  show ?thesis
  proof (cases "punch_dup now ?from to_id rs")
    case False
    have mono: "pr_tm (rs ! i) \<le> pr_tm (rs ! j)" if "i \<le> j" "j < length rs" for i j
      using assms(1) that sorted_nth_mono [of "map pr_tm rs" i j] by (simp add: punch_reqs_wf_def)
    have old: "60 \<le> elapsed_secs now (pr_tm (rs ! i))"
      if i: "i < length rs" "length rs \<le> i + 30" "same_request (rs ! i) ?new" for i
    proof -
      have m: "pr_from_ip (rs ! i) = ?from \<and> pr_to_id (rs ! i) = to_id"
        using i(3) by (simp add: same_request_def)
      obtain k where k: "find (\<lambda>r. pr_from_ip r = ?from \<and> pr_to_id r = to_id) (take 30 (rev rs)) = Some (rs ! k)"
          "i \<le> k" "k < length rs"
        using find_rev_latest [of "\<lambda>r. pr_from_ip r = ?from \<and> pr_to_id r = to_id", OF m i(1,2)] by metis
      have "60 \<le> elapsed_secs now (pr_tm (rs ! k))"
        using False k(1) by (simp add: punch_dup_def punch_req_dedupe_sec_def)
      then show ?thesis
        using elapsed_secs_mono [OF mono [OF k(2,3)], of now] by linarith
    qed
    have "60 \<le> elapsed_secs (pr_tm ((rs @ [?new]) ! j)) (pr_tm ((rs @ [?new]) ! i))"
      if "i < j" "j < length (rs @ [?new])" "j \<le> i + 30" "same_request ((rs @ [?new]) ! i) ((rs @ [?new]) ! j)" for i j
    proof (cases "j < length rs")
      case True
      then show ?thesis using that assms(1) by (simp add: punch_reqs_wf_def nth_append)
    next
      case False
      then have "j = length rs" using that(2) by simp
      then show ?thesis using that old [of i] by (simp add: nth_append)
    qed
    moreover have "sorted (map pr_tm (rs @ [?new]))"
      using assms by (simp add: punch_reqs_wf_def sorted_append)
    ultimately have "punch_reqs_wf (rs @ [?new])" unfolding punch_reqs_wf_def by blast
    then show ?thesis using False by (simp add: record_punch_def)
  qed (simp add: record_punch_def assms(1))
qed

section \<open>Properties\<close>

text \<open>A server that knows one peer, just seen at the given address, and a request for it.\<close>

definition one_peer_world :: "socket_addr \<Rightarrow> world" where
  "one_peer_world a =
     (new_world [] [] (plain_server []))\<lparr>w_pm := \<lparr>pm_map = [''123456'' \<mapsto> (default_peer 0)\<lparr>p_socket_addr := a,
        p_uuid := [7], p_pk := [4]\<rparr>], pm_db = []\<rparr>\<rparr>"

abbreviation sample_ph :: punch_hole_request where
  "sample_ph \<equiv> \<lparr>ph_id = ''123456'', ph_nat_type = KnownNat ASYMMETRIC, ph_licence_key = []\<rparr>"

lemma no_relay_flag: "to_uppercase (get_arg [] ''ALWAYS_USE_RELAY'') \<noteq> ''Y''"
  by (simp add: get_arg_def get_arg_or_def get_arg_opt_def arg_aliases_def Let_def to_uppercase_def)

lemmas sample_eval = handle_punch_hole_request_def pm_get_def one_peer_world_def default_peer_def get_expired_time_def
  millis_i64_def reg_timeout_def forward_punch_def get_relay_server_def is_lan_def plain_env_def plain_server_def new_world_def
  no_relay_flag Let_def

lemma sample_request:
  "\<exists>w'. handle_punch_hole_request (plain_env 0 [1]) (plain_server []) addr sample_ph [] ws v (one_peer_world a) =
     ((if \<not> v \<and> \<not> ws \<and> same_family_ip a addr then FetchLocalAddr (addr_mangle_encode 0 addr) []
       else PunchHole (addr_mangle_encode 0 addr) (KnownNat ASYMMETRIC) [], Some a), w')"
  by (simp add: sample_eval)

text \<open>C27. A request reaches a peer only if the key fits and the peer is online. When the server
  forwards a punch hole request, the requester gave the server's key (if it has one), and the message
  goes to the address of a peer that was seen in the last 30 seconds: one that is in memory, or, while
  the clock of the server shows less than an hour, one that has just been read from the database, since
  \<open>get_expired_time\<close> is then the present time. In every other case the requester gets the failure
  that applies, the wrong key before an unknown id before an offline peer, and nothing is recorded or
  rotated.\<close>

theorem punch_forwarded_only_if_online:
  assumes "handle_punch_hole_request e s addr ph key ws v w = ((msg, to), w')"
  shows "(case to of
       Some a \<Rightarrow> (key = [] \<or> ph_licence_key ph = key) \<and>
         (\<exists>p. a = p_socket_addr p \<and> millis_i64 (e_now e) (p_last_reg_time p) < 30000 \<and>
            (pm_map (w_pm w) (ph_id ph) = Some p \<or>
             pm_map (w_pm w) (ph_id ph) = None \<and> e_now e < 3600 * 1000000000 \<and>
             (\<exists>r. db_get_peer (ph_id ph) (pm_db (w_pm w)) = Some r \<and> p = peer_of_row e r)))
     | None \<Rightarrow>
         msg = punch_failure_msg
           (if key \<noteq> [] \<and> ph_licence_key ph \<noteq> key then LICENSE_MISMATCH
            else if fst (pm_get e (ph_id ph) (w_pm w)) = None then ID_NOT_EXIST else OFFLINE) \<and>
         w_punch_reqs w' = w_punch_reqs w \<and> w_rotation w' = w_rotation w)"
  using assms
proof (cases rule: punch_request_cases)
  case (forward p pm)
  then show ?thesis
    using online_where [OF forward(2,3)] by (auto simp: reg_timeout_def)
qed auto

theorem punch_forwarded_only_if_online_witness:
  "\<exists>msg a w' p. handle_punch_hole_request (plain_env 0 [1]) (plain_server []) (SockV4 1 5) sample_ph [] False False
     (one_peer_world (SockV4 9 9)) = ((msg, Some a), w') \<and>
     pm_map (w_pm (one_peer_world (SockV4 9 9))) ''123456'' = Some p \<and> a = p_socket_addr p \<and>
     millis_i64 0 (p_last_reg_time p) < 30000"
proof -
  obtain msg w' where h: "handle_punch_hole_request (plain_env 0 [1]) (plain_server []) (SockV4 1 5) sample_ph [] False False
      (one_peer_world (SockV4 9 9)) = ((msg, Some (SockV4 9 9)), w')"
    using sample_request [of "SockV4 1 5" False False "SockV4 9 9"] by auto
  from punch_forwarded_only_if_online [OF h] h show ?thesis by (auto simp: one_peer_world_def plain_env_def)
qed

text \<open>An answer of the controlled side goes to the write half that waits under the address in it.\<close>

lemma hole_sent_delivers:
  assumes "addr_mangle_decode (phs_socket_addr phs) = try_into_v4 addr" "w_tcp_punch w (try_into_v4 addr) = Some sink"
  shows "\<exists>w' p. handle_hole_sent e s phs b w = (w', [SinkSend sink (PunchHoleResponse p)]) \<and>
    w_tcp_punch w' = (w_tcp_punch w)(try_into_v4 addr := None) \<and> phr_relay_server p = phs_relay_server phs \<and>
    (unscoped b \<longrightarrow> addr_mangle_decode (phr_socket_addr p) = try_into_v4 b)"
proof -
  obtain k w1 where k: "get_pk e s (phs_version phs) (phs_id phs) w = (k, w1)" by fastforce
  have "w_tcp_punch w1 = w_tcp_punch w" using arg_cong [OF get_pk_frame [OF k], of w_tcp_punch] by simp
  then show ?thesis
    using assms k decode_encode_unscoped [of b "e_tm e"]
    by (cases "phs_nat_type phs") (simp_all add: handle_hole_sent_def send_to_tcp_delivers Let_def)
qed

lemma local_addr_delivers:
  assumes "addr_mangle_decode (la_socket_addr la) = try_into_v4 addr" "w_tcp_punch w (try_into_v4 addr) = Some sink"
  shows "\<exists>w' p. handle_local_addr e s la w = (w', [SinkSend sink (PunchHoleResponse p)]) \<and>
    w_tcp_punch w' = (w_tcp_punch w)(try_into_v4 addr := None) \<and> phr_socket_addr p = la_local_addr la \<and>
    phr_union p = PunchIsLocal True"
proof -
  obtain k w1 where k: "get_pk e s (la_version la) (la_id la) w = (k, w1)" by fastforce
  have "w_tcp_punch w1 = w_tcp_punch w" using arg_cong [OF get_pk_frame [OF k], of w_tcp_punch] by simp
  then show ?thesis using assms k by (simp add: handle_local_addr_def send_to_tcp_delivers Let_def)
qed

text \<open>Peers behind a tunnel are never treated as neighbours. The server asks the controlled side
  for its local addresses only if neither side is connected through a tunnel, the request did not
  come over a web socket, and both sides are in the configured LAN or have the same address; whenever
  all this holds it does ask. In all other cases the hole is punched, and the connection is forced
  through a relay exactly when the server always relays or one side only is in the LAN.\<close>

theorem local_addresses_only_for_neighbours:
  assumes "handle_punch_hole_request e s addr ph key ws v w = ((msg, Some a), w')"
  shows "let tunnel = (w_tcp_senders w (try_into_v4 a) \<noteq> None);
             peer_lan = (\<not> tunnel \<and> is_lan s a); lan = (\<not> v \<and> is_lan s addr)
         in ((\<exists>x r. msg = FetchLocalAddr x r) \<longleftrightarrow>
              \<not> v \<and> \<not> tunnel \<and> \<not> ws \<and> (is_lan s a \<and> is_lan s addr \<or> same_family_ip a addr)) \<and>
            (\<forall>x n r. msg = PunchHole x n r \<longrightarrow>
               n = (if w_always_use_relay w \<or> peer_lan \<noteq> lan then KnownNat SYMMETRIC else ph_nat_type ph))"
  using assms
proof (cases rule: punch_request_cases)
  case (forward p pm)
  obtain r w1 where r: "get_relay_server s (w\<lparr>w_pm := pm, w_punch_reqs := record_punch (e_now e) addr (ph_id ph) (p_socket_addr p) (w_punch_reqs w)\<rparr>) = (r, w1)"
    by fastforce
  have "w_always_use_relay w1 = w_always_use_relay w"
    using arg_cong [OF get_relay_server_frame [OF r], of w_always_use_relay] by simp
  then show ?thesis
    using r forward(4,5)
    by (cases "w_tcp_senders w (try_into_v4 a)"; cases v; cases ws; cases "is_lan s a"; cases "is_lan s addr")
       (auto simp: forward_punch_def Let_def split: if_splits)
qed auto

theorem local_addresses_only_for_neighbours_witness:
  "\<exists>w'. handle_punch_hole_request (plain_env 0 [1]) (plain_server []) (SockV4 9 5) sample_ph [] False False
     (one_peer_world (SockV4 9 9)) = ((FetchLocalAddr (addr_mangle_encode 0 (SockV4 9 5)) [], Some (SockV4 9 9)), w') \<and>
     w_tcp_senders (one_peer_world (SockV4 9 9)) (SockV4 9 9) = None"
proof -
  obtain w' where r: "handle_punch_hole_request (plain_env 0 [1]) (plain_server []) (SockV4 9 5) sample_ph [] False False
      (one_peer_world (SockV4 9 9)) = ((FetchLocalAddr (addr_mangle_encode 0 (SockV4 9 5)) [], Some (SockV4 9 9)), w')"
    using sample_request [of "SockV4 9 5" False False "SockV4 9 9"] by auto
  with local_addresses_only_for_neighbours [OF r] show ?thesis by (simp add: Let_def)
qed

text \<open>The online states are the ones asked for. The answer to an online request has one bit for
  each peer asked for, in order and from the left, padded with zeros to full bytes; the bit of a peer
  is set exactly if it is in memory and was seen in the last 30 seconds.\<close>

theorem online_states_correct:
  "\<exists>states. handle_online_request now pm peers = OnlineResponse states \<and>
     length states = (length peers + 7) div 8 \<and>
     (\<forall>k < 8 * length states. state_bit states k \<longleftrightarrow> k < length peers \<and> peer_online now pm (peers ! k))"
proof -
  let ?z = "replicate ((length peers + 7) div 8) 0 :: bytes"
  have fits: "0 + length peers \<le> 8 * length ?z" by simp
  have zero: "\<not> state_bit ?z k" if "k < 8 * length ?z" for k
    using that by (auto simp: state_bit_def)
  have len: "length (online_states now pm 0 peers ?z) = length ?z"
  proof (cases peers)
    case (Cons p ps)
    then have "0 < 8 * length ?z" by simp
    with online_states_bits [OF fits, of 0 now pm] show ?thesis by blast
  qed simp
  show ?thesis
    using len online_states_bits [OF fits] zero
    by (intro exI [of _ "online_states now pm 0 peers ?z"]) (simp add: handle_online_request_def)
qed

theorem online_states_correct_witness:
  "\<exists>states. handle_online_request 0 \<lparr>pm_map = [''b'' \<mapsto> default_peer 0], pm_db = []\<rparr> [''a'', ''b''] = OnlineResponse states \<and>
     state_bit states 1 \<and> \<not> state_bit states 0"
proof -
  let ?pm = "\<lparr>pm_map = [''b'' \<mapsto> default_peer 0], pm_db = []\<rparr>"
  have "peer_online 0 ?pm ''b''" "\<not> peer_online 0 ?pm ''a''"
    by (simp_all add: peer_online_def pm_get_in_memory_def default_peer_def get_expired_time_def
        millis_i64_def reg_timeout_def)
  then show ?thesis
    using online_states_correct [of 0 ?pm "[''a'', ''b'']"] by fastforce
qed

text \<open>Relay servers take turns. With two or more relay servers, as many consecutive choices as
  there are servers return every server once, in their order and starting where the counter stands
  (as long as the 64-bit counter does not wrap in between).\<close>

theorem relay_servers_take_turns:
  assumes "2 \<le> length (sn_relay_servers s)"
    and "unat (w_rotation w) + length (sn_relay_servers s) \<le> 2 ^ 64"
  shows "fst (relay_picks s (length (sn_relay_servers s)) w) =
    rotate (unat (w_rotation w)) (sn_relay_servers s)"
proof (rule nth_equalityI)
  let ?n = "length (sn_relay_servers s)"
  note picks = relay_picks_rotation [OF assms]
  show "length (fst (relay_picks s ?n w)) = length (rotate (unat (w_rotation w)) (sn_relay_servers s))"
    by (simp add: picks)
  fix i assume "i < length (fst (relay_picks s ?n w))"
  then have "i < ?n" by (simp add: picks)
  then show "fst (relay_picks s ?n w) ! i = rotate (unat (w_rotation w)) (sn_relay_servers s) ! i"
    by (simp add: picks nth_rotate)
qed

theorem relay_servers_take_turns_witness:
  "fst (relay_picks (plain_server [''a'', ''b'', ''c'']) 3
      (new_world [] [] (plain_server [])\<lparr>w_rotation := 7\<rparr>)) = [''b'', ''c'', ''a'']"
proof -
  let ?s = "plain_server [''a'', ''b'', ''c'']" and ?w = "new_world [] [] (plain_server [])\<lparr>w_rotation := 7\<rparr>"
  have "2 \<le> length (sn_relay_servers ?s)" "unat (w_rotation ?w) + length (sn_relay_servers ?s) \<le> 2 ^ 64"
    by (simp_all add: plain_server_def)
  note turns = relay_servers_take_turns [OF this]
  have s: "sn_relay_servers ?s = [''a'', ''b'', ''c'']" and rot: "unat (w_rotation ?w) = 7"
    and len: "length (sn_relay_servers ?s) = 3"
    by (simp_all add: plain_server_def)
  show ?thesis using turns unfolding len rot unfolding s by (simp add: rotate_drop_take del: relay_picks.simps)
qed

fun punch_run :: "(env \<times> snapshot \<times> socket_addr \<times> punch_hole_request \<times> string \<times> bool \<times> bool) list \<Rightarrow> world \<Rightarrow> world" where
  "punch_run [] w = w"
| "punch_run ((e, s, addr, ph, key, ws, v) # rs) w = punch_run rs (snd (handle_punch_hole_request e s addr ph key ws v w))"

lemma punch_request_record:
  assumes "punch_reqs_wf (w_punch_reqs w)" "\<forall>r \<in> set (w_punch_reqs w). pr_tm r \<le> e_now e"
    and h: "handle_punch_hole_request e s addr ph key ws v w = ((msg, to), w1)"
  shows "punch_reqs_wf (w_punch_reqs w1) \<and> (\<forall>r \<in> set (w_punch_reqs w1). pr_tm r \<le> e_now e)"
  using h
proof (cases rule: punch_request_cases)
  case (forward p pm)
  have "w_punch_reqs w1 = record_punch (e_now e) addr (ph_id ph) (p_socket_addr p) (w_punch_reqs w)"
      using arg_cong [OF forward_punch_frame [OF forward(5)], of w_punch_reqs] by simp
  then show ?thesis
      using record_punch_wf [OF assms(1,2)] assms(2)
      by (auto simp: record_punch_def Let_def)
qed (use assms in auto)

text \<open>The record of requests stays in order. After any sequence of requests with a clock that
  does not run backwards, the recorded requests are in the order of time, and a request that is
  recorded again within 30 entries of its last record is at least a minute younger.\<close>

theorem punch_record_invariant:
  assumes "punch_reqs_wf (w_punch_reqs w)" "\<forall>r \<in> set (w_punch_reqs w). pr_tm r \<le> now"
    and "sorted (now # map (\<lambda>r. e_now (fst r)) rs)"
  shows "punch_reqs_wf (w_punch_reqs (punch_run rs w))"
  using assms
proof (induction rs arbitrary: w now)
  case (Cons r rs)
  obtain e s addr ph key ws v where r: "r = (e, s, addr, ph, key, ws, v)" by (metis surj_pair)
  have "\<forall>r \<in> set (w_punch_reqs w). pr_tm r \<le> e_now e"
    using Cons.prems(2,3) r by force
  moreover obtain msg to w1 where h: "handle_punch_hole_request e s addr ph key ws v w = ((msg, to), w1)"
    by (metis surj_pair)
  ultimately have "punch_reqs_wf (w_punch_reqs w1) \<and> (\<forall>r \<in> set (w_punch_reqs w1). pr_tm r \<le> e_now e)"
    using punch_request_record [OF Cons.prems(1) _ h] by simp
  then show ?case using Cons.IH [of w1 "e_now e"] Cons.prems(3) by (simp add: r h)
qed simp

theorem punch_record_invariant_witness:
  "punch_reqs_wf (w_punch_reqs (punch_run
     (replicate 2 (plain_env 0 [1], plain_server [], SockV4 1 5, sample_ph, [], False, False))
     (one_peer_world (SockV4 9 9))))"
  by (rule punch_record_invariant [where now = 0])
     (simp_all add: one_peer_world_def new_world_def punch_reqs_wf_def plain_env_def)

text \<open>A signed key is the key on record. The key that the server hands out for an id is empty, or
  its signature, under the server's secret key, of exactly that id with the public key that the
  registry has for it.\<close>

theorem signed_key_is_registered:
  assumes "pm_synced (w_pm w)" "env_ok e (w_pm w)" "get_pk e s version pid w = (k, w')"
  shows "registry (w_pm w') = registry (w_pm w) \<and> pm_synced (w_pm w') \<and>
    (case in_sk (sn_inner s) of
       None \<Rightarrow> k = []
     | Some sk \<Rightarrow>
         (if version = [] then k = []
          else case registry (w_pm w) pid of
                 Some (u, pk) \<Rightarrow> k = e_sign e (e_idpk e pid pk) sk
               | None \<Rightarrow> fst (pm_get e pid (w_pm w)) = None \<longrightarrow> k = []))"
proof -
  obtain q pm where q: "pm_get e pid (w_pm w) = (q, pm)" by fastforce
  note get = ps.lookup [OF assms(1,2) q]
  show ?thesis
  proof (cases q)
    case (Some p)
    then have "registry (w_pm w) pid = peer_identity p" using get ps.entry_reg [of pm pid p] by simp
    then show ?thesis
      using assms q get Some by (auto simp: get_pk_def peer_identity_def split: option.splits if_splits)
  next
    case None
    then have "pm_map pm pid = None" "db_get_peer pid (pm_db pm) = None"
      using pm_get_synced [OF assms(1,2) q] by auto
    then have "registry pm pid = None" by (simp add: registry_def)
    then have "registry (w_pm w) pid = None" using get by simp
    then show ?thesis
      using assms q get None by (auto simp: get_pk_def split: option.splits if_splits)
  qed
qed

theorem signed_key_is_registered_witness:
  "fst (get_pk (plain_env 0 [2]) (plain_server []\<lparr>sn_inner := (sn_inner (plain_server []))\<lparr>in_sk := Some [6]\<rparr>\<rparr>)
     ''1.0'' ''123456'' (new_world [] [\<lparr>r_guid = [1], r_id = ''123456'', r_uuid = [7], r_pk = [5], r_user = None,
        r_status = None, r_info = []\<rparr>] (plain_server []))) = [6, 5]"
proof -
  let ?e = "plain_env 0 [2]"
  let ?s = "plain_server []\<lparr>sn_inner := (sn_inner (plain_server []))\<lparr>in_sk := Some [6]\<rparr>\<rparr>"
  let ?w = "new_world [] [\<lparr>r_guid = [1], r_id = ''123456'', r_uuid = [7 :: u8], r_pk = [5], r_user = None,
        r_status = None, r_info = []\<rparr>] (plain_server [])"
  obtain k w' where k: "get_pk ?e ?s ''1.0'' ''123456'' ?w = (k, w')" by fastforce
  have w: "pm_synced (w_pm ?w)" by (rule new_world_synced) (simp_all add: db_wf_def)
  have e: "env_ok ?e (w_pm ?w)" by (simp add: env_ok_def plain_env_def new_world_def)
  have "registry (w_pm ?w) ''123456'' = Some ([7], [5])"
    by (simp add: registry_def new_world_def db_get_peer_def)
  with signed_key_is_registered [OF w e k] have "k = [6, 5]" by (simp add: plain_env_def)
  with k show ?thesis by simp
qed

end
