(* ===== verification/Rv_Tcp.thy ===== *)
theory Rv_Tcp
  imports Rv_Punch
begin

text \<open>
  The messages that arrive on TCP and WebSocket connections: \<open>handle_tcp\<close> of
  \<open>server/src/rendezvous_server.rs\<close> with all its branches. The lemmas show what a frame can
  change, that only an authenticated tunnel registers a peer over TCP, and where answers go.
\<close>

section \<open>Branches\<close>

text \<open>\<open>sink.take()\<close> followed by the insertion into \<open>tcp_punch\<close>: the write half waits there for
  the answer of the other side.\<close>

definition park_sink :: "sink option \<Rightarrow> socket_addr \<Rightarrow> world \<Rightarrow> world" where
  "park_sink sink addr w =
     (case sink of
        Some sk \<Rightarrow> w\<lparr>w_tcp_punch := (w_tcp_punch w)(try_into_v4 addr \<mapsto> sk)\<rparr>
      | None \<Rightarrow> w)"

definition tcp_request_relay :: "env \<Rightarrow> request_relay \<Rightarrow> socket_addr \<Rightarrow> world \<Rightarrow> world" where
  "tcp_request_relay e rf addr w =
     (case pm_get_in_memory (rf_id rf) (w_pm w) of
        Some p \<Rightarrow>
          to_tx (Msg (RequestRelay (rf\<lparr>rf_socket_addr := addr_mangle_encode (e_tm e) addr\<rparr>))
                     (p_socket_addr p)) w
      | None \<Rightarrow> w)"

text \<open>The relay server that the requester at \<open>addr_b\<close> is told: neighbours of the server get its
  local address, others never do.\<close>

definition told_relay_server :: "snapshot \<Rightarrow> socket_addr \<Rightarrow> string \<Rightarrow> world \<Rightarrow> string \<times> world" where
  "told_relay_server s addr_b relay_server w =
     (if relay_server = [] then (relay_server, w)
      else
        (let target_is_vless = (w_tcp_senders w (try_into_v4 addr_b) \<noteq> None) in
         if is_lan s addr_b \<and> \<not> target_is_vless then (in_local_ip (sn_inner s), w)
         else if relay_server = in_local_ip (sn_inner s) then get_relay_server s w
         else (relay_server, w)))"

definition tcp_relay_response ::
    "env \<Rightarrow> snapshot \<Rightarrow> relay_response \<Rightarrow> world \<Rightarrow> world \<times> effect list" where
  "tcp_relay_response e s rr w =
     (let addr_b = addr_mangle_decode (rr_socket_addr rr);
          rr = rr\<lparr>rr_socket_addr := []\<rparr>;
          (rr, w) =
            (if rr_id rr \<noteq> [] then
               (let (pk, w) = get_pk e s (rr_version rr) (rr_id rr) w
                in (rr\<lparr>rr_union := RelayPk pk\<rparr>, w))
             else (rr, w));
          (relay_server, w) = told_relay_server s addr_b (rr_relay_server rr) w
      in send_to_tcp (RelayResponse (rr\<lparr>rr_relay_server := relay_server\<rparr>)) addr_b w)"

definition tcp_test_nat :: "snapshot \<Rightarrow> int \<Rightarrow> socket_addr \<Rightarrow> rmsg" where
  "tcp_test_nat s serial addr =
     TestNatResponse (int (unat (sa_port addr)))
       (if in_serial (sn_inner s) > serial
        then Some (in_serial (sn_inner s), sn_rendezvous_servers s) else None)"

section \<open>The handler\<close>

text \<open>The branches of \<open>handle_tcp\<close>: whether the connection goes on, its write half, the state and
  what is sent.\<close>

definition tcp_branch ::
    "env \<Rightarrow> snapshot \<Rightarrow> rmsg \<Rightarrow> sink option \<Rightarrow> socket_addr \<Rightarrow> string \<Rightarrow> bool \<Rightarrow> bool \<Rightarrow> world \<Rightarrow>
     bool \<times> sink option \<times> world \<times> effect list" where
  "tcp_branch e s msg sink addr key ws vless_authenticated w =
     (case msg of
        PunchHoleRequest ph \<Rightarrow>
          (let (w, out) = handle_tcp_punch_hole_request e s addr ph key ws vless_authenticated
                            (park_sink sink addr w)
           in (True, None, w, out))
      | RequestRelay rf \<Rightarrow> (True, None, tcp_request_relay e rf addr (park_sink sink addr w), [])
      | RelayResponse rr \<Rightarrow> (let (w, out) = tcp_relay_response e s rr w in (False, sink, w, out))
      | PunchHoleSent phs \<Rightarrow> (let (w, out) = handle_hole_sent e s phs addr w in (False, sink, w, out))
      | LocalAddr la \<Rightarrow> (let (w, out) = handle_local_addr e s la w in (False, sink, w, out))
      | TestNatRequest serial \<Rightarrow> (False, sink, w, send_to_sink sink (tcp_test_nat s serial addr))
      | RegisterPeer pid serial \<Rightarrow>
          if \<not> vless_authenticated then (False, sink, w, [])
          else if pid = [] then (True, sink, w, [])
          else
            (let (request_pk, w) = tcp_register_peer e pid addr w
             in (True, sink, w, send_to_sink sink (RegisterPeerResponse request_pk)))
      | RegisterPk rk \<Rightarrow>
          if vless_authenticated then
            (let (res, w) = handle_tcp_register_pk e rk addr w
             in (True, sink, w, send_to_sink sink (RegisterPkResponse res)))
          else (False, sink, w, send_to_sink sink (RegisterPkResponse NOT_SUPPORT))
      | _ \<Rightarrow> (False, sink, w, []))"

definition handle_tcp ::
    "env \<Rightarrow> snapshot \<Rightarrow> bytes \<Rightarrow> sink option \<Rightarrow> socket_addr \<Rightarrow> string \<Rightarrow> bool \<Rightarrow> bool \<Rightarrow> world \<Rightarrow>
     bool \<times> sink option \<times> world \<times> effect list" where
  "handle_tcp e s bs sink addr key ws vless_authenticated w =
     (case e_parse e bs of
        Some msg \<Rightarrow> tcp_branch e s msg sink addr key ws vless_authenticated w
      | None \<Rightarrow> (False, sink, w, []))"

section \<open>What a frame changes\<close>

text \<open>The peers changed only in that rows of the database were read into memory.\<close>

definition only_loaded :: "env \<Rightarrow> peer_map \<Rightarrow> peer_map \<Rightarrow> bool" where
  "only_loaded e pm pm' \<longleftrightarrow> pm_db pm' = pm_db pm \<and>
     (\<forall>pid. pm_map pm' pid = pm_map pm pid \<or>
        pm_map pm pid = None \<and>
        (\<exists>r. db_get_peer pid (pm_db pm) = Some r \<and> pm_map pm' pid = Some (peer_of_row e r)))"

lemma only_loaded_refl [simp]: "only_loaded e pm pm"
  by (simp add: only_loaded_def)

lemma pm_get_only_loaded: "pm_get e pid pm = (q, pm') \<Longrightarrow> only_loaded e pm pm'"
  by (auto simp: pm_get_def only_loaded_def Let_def split: option.splits if_splits)

lemma get_pk_only_loaded: "get_pk e s v pid w = (k, w') \<Longrightarrow> only_loaded e (w_pm w) (w_pm w')"
  by (auto simp: get_pk_def dest: pm_get_only_loaded split: option.splits if_splits prod.splits)

lemma send_to_tcp_fields:
  assumes "send_to_tcp msg addr w = (w', out)"
  shows "w_pm w' = w_pm w" "w_tcp_senders w' = w_tcp_senders w" "w_main w' = w_main w"
    "w_tcp_punch w' = (w_tcp_punch w)(try_into_v4 addr := None)"
    "out = send_to_sink (w_tcp_punch w (try_into_v4 addr)) msg" "w_tx w' = w_tx w"
  using assms by (auto simp: send_to_tcp_def)

lemma park_sink_fields [simp]:
  "w_pm (park_sink sink addr w) = w_pm w" "w_tcp_senders (park_sink sink addr w) = w_tcp_senders w"
  "w_main (park_sink sink addr w) = w_main w" "w_tx (park_sink sink addr w) = w_tx w"
  by (simp_all add: park_sink_def split: option.splits)

lemma punch_request_fields:
  assumes "handle_punch_hole_request e s addr ph key ws v w = ((msg, to), w')"
  shows "only_loaded e (w_pm w) (w_pm w')" "w_tcp_senders w' = w_tcp_senders w" "w_main w' = w_main w"
    "w_tcp_punch w' = w_tcp_punch w" "w_tx w' = w_tx w"
proof -
  have "only_loaded e (w_pm w) (w_pm w') \<and> w_tcp_senders w' = w_tcp_senders w \<and> w_main w' = w_main w \<and>
      w_tcp_punch w' = w_tcp_punch w \<and> w_tx w' = w_tx w"
    using assms
  proof (cases rule: punch_request_cases)
    case (forward p pm)
    note fr = forward_punch_frame [OF forward(5)]
    show ?thesis
      using pm_get_only_loaded [OF forward(2)] arg_cong [OF fr, of w_pm] arg_cong [OF fr, of w_tcp_senders]
        arg_cong [OF fr, of w_main] arg_cong [OF fr, of w_tcp_punch] arg_cong [OF fr, of w_tx] by simp
  qed (auto dest: pm_get_only_loaded)
  then show "only_loaded e (w_pm w) (w_pm w')" "w_tcp_senders w' = w_tcp_senders w" "w_main w' = w_main w"
    "w_tcp_punch w' = w_tcp_punch w" "w_tx w' = w_tx w" by simp_all
qed

text \<open>The answers to a waiting requester have one shape: some peers are loaded, the counter of the
  relay servers may move, and the message goes to the sink that waits under an address.\<close>

definition answers_waiting :: "env \<Rightarrow> world \<Rightarrow> world \<Rightarrow> effect list \<Rightarrow> bool" where
  "answers_waiting e w w' out \<longleftrightarrow>
     only_loaded e (w_pm w) (w_pm w') \<and> w_tcp_senders w' = w_tcp_senders w \<and> w_main w' = w_main w \<and>
     w_tx w' = w_tx w \<and>
     (\<exists>a msg. w_tcp_punch w' = (w_tcp_punch w)(try_into_v4 a := None) \<and>
        out = send_to_sink (w_tcp_punch w (try_into_v4 a)) msg)"

lemma get_pk_fields:
  assumes "get_pk e s v pid w = (k, w1)"
  shows "w_tcp_senders w1 = w_tcp_senders w" "w_main w1 = w_main w" "w_tcp_punch w1 = w_tcp_punch w"
    "w_tx w1 = w_tx w"
  using arg_cong [OF get_pk_frame [OF assms], of w_tcp_senders] arg_cong [OF get_pk_frame [OF assms], of w_main]
    arg_cong [OF get_pk_frame [OF assms], of w_tcp_punch] arg_cong [OF get_pk_frame [OF assms], of w_tx]
  by simp_all

lemma told_relay_server_fields:
  assumes "told_relay_server s a r w = (r', w1)"
  shows "w_pm w1 = w_pm w" "w_tcp_senders w1 = w_tcp_senders w" "w_main w1 = w_main w"
    "w_tcp_punch w1 = w_tcp_punch w" "w_tx w1 = w_tx w"
proof -
  have "w1 = w \<or> get_relay_server s w = (r', w1)"
    using assms by (auto simp: told_relay_server_def Let_def split: if_splits)
  then have "w1 = w\<lparr>w_rotation := w_rotation w1\<rparr>" using get_relay_server_frame by auto
  from arg_cong [OF this, of w_pm] arg_cong [OF this, of w_tcp_senders] arg_cong [OF this, of w_main]
    arg_cong [OF this, of w_tcp_punch] arg_cong [OF this, of w_tx]
  show "w_pm w1 = w_pm w" "w_tcp_senders w1 = w_tcp_senders w" "w_main w1 = w_main w"
    "w_tcp_punch w1 = w_tcp_punch w" "w_tx w1 = w_tx w" by simp_all
qed

lemma answer_after_key:
  assumes "get_pk e s v pid w = (k, w1)" "send_to_tcp msg a w1 = (w', out)"
  shows "answers_waiting e w w' out"
  using assms get_pk_only_loaded [OF assms(1)]
  unfolding answers_waiting_def
  by (auto simp: send_to_tcp_fields [OF assms(2)] get_pk_fields [OF assms(1)])

lemma hole_sent_answers: "handle_hole_sent e s phs addr w = (w', out) \<Longrightarrow> answers_waiting e w w' out"
  by (auto simp: handle_hole_sent_def Let_def intro: answer_after_key split: prod.splits)

lemma local_addr_answers: "handle_local_addr e s la w = (w', out) \<Longrightarrow> answers_waiting e w w' out"
  by (auto simp: handle_local_addr_def Let_def intro: answer_after_key split: prod.splits)

lemma relay_response_answers:
  assumes "tcp_relay_response e s rr w = (w', out)"
  shows "answers_waiting e w w' out"
proof -
  let ?a = "addr_mangle_decode (rr_socket_addr rr)" and ?rr = "rr\<lparr>rr_socket_addr := []\<rparr>"
  obtain rr1 w1 where 1: "(if rr_id ?rr \<noteq> [] then
      (let (pk, w) = get_pk e s (rr_version ?rr) (rr_id ?rr) w in (?rr\<lparr>rr_union := RelayPk pk\<rparr>, w))
      else (?rr, w)) = (rr1, w1)" by fastforce
  obtain r w2 where 2: "told_relay_server s ?a (rr_relay_server rr1) w1 = (r, w2)" by fastforce
  have 3: "send_to_tcp (RelayResponse (rr1\<lparr>rr_relay_server := r\<rparr>)) ?a w2 = (w', out)"
    using assms by (simp only: tcp_relay_response_def Let_def 1 [unfolded Let_def] 2 prod.case)
  have "only_loaded e (w_pm w) (w_pm w1) \<and> w_tcp_senders w1 = w_tcp_senders w \<and> w_main w1 = w_main w \<and>
      w_tcp_punch w1 = w_tcp_punch w \<and> w_tx w1 = w_tx w"
    using 1 by (auto simp: get_pk_fields dest: get_pk_only_loaded split: if_splits prod.splits)
  then show ?thesis
    using 3 unfolding answers_waiting_def
    by (auto simp: send_to_tcp_fields [OF 3] told_relay_server_fields [OF 2])
qed

text \<open>A registration over a tunnel changes the peers and the notes of address changes only.\<close>

lemma tcp_register_fields:
  "handle_tcp_register_pk e rk addr w = (res, w') \<Longrightarrow>
     w_tcp_senders w' = w_tcp_senders w \<and> w_main w' = w_main w \<and> w_tcp_punch w' = w_tcp_punch w \<and> w_tx w' = w_tx w"
  "tcp_register_peer e pid addr w = (b, w') \<Longrightarrow>
     w_tcp_senders w' = w_tcp_senders w \<and> w_main w' = w_main w \<and> w_tcp_punch w' = w_tcp_punch w \<and> w_tx w' = w_tx w"
  by (auto simp: handle_tcp_register_pk_def tcp_register_peer_def register_bookkeeping_def Let_def
      split: if_splits prod.splits option.splits id_decision.splits)

text \<open>The outcomes of a frame: the connection parks its write half, or answers a waiting requester
  and ends, or answers on its own write half.\<close>

lemma tcp_branch_cases:
  assumes "tcp_branch e s msg sink addr key ws v w = (k, sink', w', out)"
  obtains
    (parked) "k" "sink' = None" "only_loaded e (w_pm w) (w_pm w')" "w_tcp_senders w' = w_tcp_senders w"
      "w_main w' = w_main w"
      "out = [] \<and> w_tcp_punch w' = w_tcp_punch (park_sink sink addr w) \<or>
       (\<exists>m. out = send_to_sink (w_tcp_punch (park_sink sink addr w) (try_into_v4 addr)) m \<and>
            w_tcp_punch w' = (w_tcp_punch (park_sink sink addr w))(try_into_v4 addr := None))"
  | (answered) "\<not> k" "sink' = sink" "answers_waiting e w w' out"
  | (own) "sink' = sink" "w_tcp_senders w' = w_tcp_senders w" "w_main w' = w_main w" "w_tx w' = w_tx w"
      "w_tcp_punch w' = w_tcp_punch w" "out = [] \<or> (\<exists>m. out = send_to_sink sink m)"
      "w' = w \<and> \<not> k \<or> v"
proof (cases msg)
  case (PunchHoleRequest ph)
  let ?w = "park_sink sink addr w"
  obtain m to w1 where h: "handle_punch_hole_request e s addr ph key ws v ?w = ((m, to), w1)"
    by (metis surj_pair)
  note fields = punch_request_fields [OF h]
  from assms PunchHoleRequest h fields show ?thesis
    by (intro parked; cases to)
       (auto simp: tcp_branch_def handle_tcp_punch_hole_request_def to_tx_def send_to_tcp_def)
next
  case (RequestRelay rf)
  from assms RequestRelay show ?thesis
    by (intro parked) (auto simp: tcp_branch_def tcp_request_relay_def to_tx_def split: option.splits)
next
  case (RelayResponse rr)
  with assms show ?thesis
    by (intro answered) (auto simp: tcp_branch_def relay_response_answers split: prod.splits)
next
  case (PunchHoleSent phs)
  with assms show ?thesis
    by (intro answered) (auto simp: tcp_branch_def hole_sent_answers split: prod.splits)
next
  case (LocalAddr la)
  with assms show ?thesis
    by (intro answered) (auto simp: tcp_branch_def local_addr_answers split: prod.splits)
next
  case (RegisterPeer pid serial)
  with assms show ?thesis
    by (intro own) (auto simp: tcp_branch_def dest: tcp_register_fields split: if_splits prod.splits)
next
  case (RegisterPk rk)
  with assms show ?thesis
    by (intro own) (auto simp: tcp_branch_def dest: tcp_register_fields split: if_splits prod.splits)
qed (use assms own in \<open>auto simp: tcp_branch_def\<close>)

lemma handle_tcp_branch:
  assumes "handle_tcp e s bs sink addr key ws v w = (k, sink', w', out)"
  shows "k = False \<and> sink' = sink \<and> w' = w \<and> out = [] \<or>
    (\<exists>msg. e_parse e bs = Some msg \<and> tcp_branch e s msg sink addr key ws v w = (k, sink', w', out))"
  using assms by (auto simp: handle_tcp_def split: option.splits)

lemma only_loaded_registry:
  assumes "only_loaded e pm pm'" "pm_synced pm"
  shows "registry pm' = registry pm"
proof
  fix pid
  have "pm_db pm' = pm_db pm" and "pm_map pm' pid = pm_map pm pid \<or>
      pm_map pm pid = None \<and> (\<exists>r. db_get_peer pid (pm_db pm) = Some r \<and> pm_map pm' pid = Some (peer_of_row e r))"
    using assms(1) by (simp_all add: only_loaded_def)
  then show "registry pm' pid = registry pm pid"
    using peer_of_row_synced(2) [OF assms(2), of pid _ e] by (auto simp: registry_def split: option.splits)
qed



section \<open>Frames between a request and its answer\<close>














section \<open>Properties\<close>

text \<open>C8. Only a tunnel registers over TCP. A frame on one of the official TCP or WebSocket
  listeners, whatever it contains, changes neither the database nor a peer in memory, apart from
  reading rows of the database into memory; the registry stays the same, and so does the list of
  tunnels. A \<open>RegisterPk\<close> there is answered with NOT_SUPPORT and ends the connection.\<close>

theorem official_tcp_never_registers:
  assumes "handle_tcp e s bs sink addr key ws False w = (k, sink', w', out)"
    and "pm_synced (w_pm w)"
  shows "only_loaded e (w_pm w) (w_pm w') \<and> registry (w_pm w') = registry (w_pm w) \<and>
    w_tcp_senders w' = w_tcp_senders w \<and>
    (\<forall>rk. e_parse e bs = Some (RegisterPk rk) \<longrightarrow>
       \<not> k \<and> out = send_to_sink sink (RegisterPkResponse NOT_SUPPORT))"
proof -
  have fields: "only_loaded e (w_pm w) (w_pm w') \<and> w_tcp_senders w' = w_tcp_senders w"
    using handle_tcp_branch [OF assms(1)]
  proof (elim disjE exE conjE)
    fix msg
    assume "tcp_branch e s msg sink addr key ws False w = (k, sink', w', out)"
    then show ?thesis by (cases rule: tcp_branch_cases) (auto simp: answers_waiting_def)
  qed simp
  moreover have "registry (w_pm w') = registry (w_pm w)"
    using only_loaded_registry [OF conjunct1 [OF fields] assms(2)] .
  moreover have "\<not> k \<and> out = send_to_sink sink (RegisterPkResponse NOT_SUPPORT)"
    if "e_parse e bs = Some (RegisterPk rk)" for rk
    using assms(1) that by (auto simp: handle_tcp_def tcp_branch_def)
  ultimately show ?thesis by blast
qed

theorem official_tcp_never_registers_witness:
  "\<exists>w'. handle_tcp (plain_env 0 [1]\<lparr>e_parse := \<lambda>_. Some (RegisterPk (sample_rk [1] [2]))\<rparr>) (plain_server [])
     [0] (Some (TcpStreamSink 1)) (SockV4 1 1) [] False False (new_world [] [] (plain_server [])) =
     (False, Some (TcpStreamSink 1), w', [SinkSend (TcpStreamSink 1) (RegisterPkResponse NOT_SUPPORT)]) \<and>
     registry (w_pm w') ''123456'' = None"
proof -
  let ?e = "plain_env 0 [1]\<lparr>e_parse := \<lambda>_. Some (RegisterPk (sample_rk [1] [2]))\<rparr>"
  let ?w = "new_world [] [] (plain_server [])"
  obtain k sink' w' out where h: "handle_tcp ?e (plain_server []) [0] (Some (TcpStreamSink 1)) (SockV4 1 1) [] False False ?w =
    (k, sink', w', out)" by (metis surj_pair)
  have synced: "pm_synced (w_pm ?w)" by (rule new_world_synced) (simp_all add: db_wf_def)
  have "registry (w_pm ?w) ''123456'' = None" by (simp add: registry_def new_world_def db_get_peer_def)
  moreover have "k = False" "sink' = Some (TcpStreamSink 1)"
    using h by (simp_all add: handle_tcp_def tcp_branch_def)
  moreover have "out = [SinkSend (TcpStreamSink 1) (RegisterPkResponse NOT_SUPPORT)]" "registry (w_pm w') = registry (w_pm ?w)"
    using official_tcp_never_registers [OF h synced] by (simp_all add: send_to_sink_def)
  ultimately show ?thesis using h by simp
qed






end
