(* ===== verification/Rv_Console.thy ===== *)
theory Rv_Console
  imports Rv_Tcp
begin

text \<open>
  The administration console of the rendezvous server: \<open>check_cmd\<close> of
  \<open>server/src/rendezvous_server.rs\<close>. A command is a line; the answer is text. The lemmas give
  what a command can change, and what the relay switch does to the relay servers.
\<close>

text \<open>Parameters: the clock, the order in which a hash map lists its keys, the quoted form of a string
  (\<open>{:?}\<close>), and the calendar time of an event of the given age.\<close>

record console_env =
  ce_now :: instant
  ce_keys :: "string set \<Rightarrow> string list"
  ce_debug :: "string \<Rightarrow> string"
  ce_event_time :: "nat \<Rightarrow> string"

definition line :: "string \<Rightarrow> string" where
  "line s = s @ [CHR 0x0A]"

definition word_at :: "nat \<Rightarrow> string list \<Rightarrow> string option" where
  "word_at n ws = (if n < length ws then Some (ws ! n) else None)"

section \<open>Listings\<close>

definition retain_blocker :: "instant \<Rightarrow> (string \<rightharpoonup> ip_block) \<Rightarrow> (string \<rightharpoonup> ip_block)" where
  "retain_blocker now m =
     (\<lambda>ip. case m ip of
        Some b \<Rightarrow>
          if elapsed_secs now (snd (ib_count b)) \<le> ip_block_dur \<or> elapsed_secs now (snd (ib_ids b)) \<le> day_seconds
          then Some b else None
      | None \<Rightarrow> None)"

definition retain_changes ::
    "console_env \<Rightarrow> (string \<rightharpoonup> instant \<times> (string \<rightharpoonup> int)) \<Rightarrow> (string \<rightharpoonup> instant \<times> (string \<rightharpoonup> int))" where
  "retain_changes ce m =
     (\<lambda>pid. case m pid of
        Some (tm, ips) \<Rightarrow>
          if elapsed_secs (ce_now ce) tm < ip_change_dur_x2 \<and> length (ce_keys ce (dom ips)) > 1
          then Some (tm, ips) else None
      | None \<Rightarrow> None)"

text \<open>The rows \<open>start\<close> to \<open>start + 9\<close> of a listing; the bound is computed in \<open>i32\<close>.\<close>

definition page :: "int \<Rightarrow> 'a list \<Rightarrow> 'a list" where
  "page start xs = drop (nat start) (take (nat (sint (word_of_int (start + 10) :: 32 word))) xs)"

definition start_arg :: "string option \<Rightarrow> int" where
  "start_arg arg =
     (case arg of
        Some x \<Rightarrow> (case parse_i32 x of Some n \<Rightarrow> n | None \<Rightarrow> - 1)
      | None \<Rightarrow> - 1)"

definition show_block :: "instant \<Rightarrow> ip_block \<Rightarrow> string" where
  "show_block now b =
     show_nat (unat (fst (ib_count b))) @ ''/'' @ show_nat (elapsed_secs now (snd (ib_count b))) @ ''s '' @
     show_nat (length (fst (ib_ids b))) @ ''/'' @ show_nat (elapsed_secs now (snd (ib_ids b))) @ ''s''"

definition show_int :: "int \<Rightarrow> string" where
  "show_int n = (if n < 0 then CHR ''-'' # show_nat (nat (- n)) else show_nat (nat n))"

definition show_ips :: "console_env \<Rightarrow> (string \<rightharpoonup> int) \<Rightarrow> string" where
  "show_ips ce ips =
     (let row = (\<lambda>ip. ce_debug ce ip @ '': '' @ show_int (the (ips ip)));
          rest = (\<lambda>ks. concat (map (\<lambda>ip. '', '' @ row ip) ks))
      in ''{'' @ (case ce_keys ce (dom ips) of [] \<Rightarrow> [] | k # ks \<Rightarrow> row k @ rest ks) @ ''}'')"

definition show_change :: "console_env \<Rightarrow> instant \<times> (string \<rightharpoonup> int) \<Rightarrow> string" where
  "show_change ce v = show_nat (elapsed_secs (ce_now ce) (fst v)) @ ''s '' @ show_ips ce (snd v)"

section \<open>Commands\<close>

definition help_text :: string where
  "help_text = concat (map line
     [''relay-servers(rs) <separated by ,>'', ''reload-geo(rg)'', ''ip-blocker(ib) [<ip>|<number>] [-]'',
      ''ip-changes(ic) [<id>|<number>] [-]'', ''punch-requests(pr) [<number>] [-]'', ''always-use-relay(aur)'',
      ''test-geo(tg) <ip1> <ip2>''])"

definition cmd_relay_servers :: "snapshot \<Rightarrow> string option \<Rightarrow> world \<Rightarrow> string \<times> world" where
  "cmd_relay_servers s arg w =
     (case arg of
        Some rs \<Rightarrow> ([], to_tx (RelayServers0 rs) w)
      | None \<Rightarrow> (concat (map line (sn_relay_servers s)), w))"

definition cmd_ip_blocker ::
    "console_env \<Rightarrow> string option \<Rightarrow> string option \<Rightarrow> (string \<rightharpoonup> ip_block) \<Rightarrow> string \<times> (string \<rightharpoonup> ip_block)" where
  "cmd_ip_blocker ce arg flag m =
     (let m = retain_blocker (ce_now ce) m;
          keys = ce_keys ce (dom m);
          res = line (show_nat (length keys));
          start = start_arg arg;
          rows = (\<lambda>start. concat (map (\<lambda>ip. line (ip @ '': '' @ show_block (ce_now ce) (the (m ip)))) (page start keys)))
      in if start < 0 then
           (case arg of
              Some ip \<Rightarrow>
                (res @ (case m ip of Some b \<Rightarrow> line (show_block (ce_now ce) b) | None \<Rightarrow> []),
                 if flag = Some ''-'' then m(ip := None) else m)
            | None \<Rightarrow> (res @ rows 0, m))
         else (res @ rows start, m))"

definition cmd_ip_changes ::
    "console_env \<Rightarrow> string option \<Rightarrow> string option \<Rightarrow> (string \<rightharpoonup> instant \<times> (string \<rightharpoonup> int)) \<Rightarrow>
     string \<times> (string \<rightharpoonup> instant \<times> (string \<rightharpoonup> int))" where
  "cmd_ip_changes ce arg flag m =
     (let m = retain_changes ce m;
          res = line (show_nat (length (ce_keys ce (dom m))));
          start = start_arg arg;
          (res, m, start) =
            (if \<not> (0 \<le> start \<and> start \<le> 10000000) then
               (case arg of
                  Some pid \<Rightarrow>
                    (res @ (case m pid of Some v \<Rightarrow> line (show_change ce v) | None \<Rightarrow> []),
                     if flag = Some ''-'' then m(pid := None) else m, start)
                | None \<Rightarrow> (res, m, 0))
             else (res, m, start))
      in (res @ (if start \<ge> 0
                 then concat (map (\<lambda>pid. line (pid @ '': '' @ show_change ce (the (m pid))))
                                  (page start (ce_keys ce (dom m))))
                 else []), m))"

definition show_punch_req :: "console_env \<Rightarrow> punch_req \<Rightarrow> string" where
  "show_punch_req ce r =
     ce_event_time ce (elapsed (ce_now ce) (pr_tm r)) @ '' '' @ pr_from_ip r @ '' -> '' @ pr_to_id r @ ''@'' @ pr_to_ip r"

definition parse_usize :: "string option \<Rightarrow> nat option" where
  "parse_usize arg = (case arg of Some x \<Rightarrow> parse_unsigned (2 ^ 64 - 1) x | None \<Rightarrow> None)"

definition cmd_punch_requests ::
    "console_env \<Rightarrow> string option \<Rightarrow> string option \<Rightarrow> punch_req list \<Rightarrow> string \<times> punch_req list" where
  "cmd_punch_requests ce arg size_arg reqs =
     (if arg = Some ''-'' then ([], [])
      else
        (let start = (case parse_usize arg of Some n \<Rightarrow> n | None \<Rightarrow> 0);
             page_size = (case parse_usize size_arg of Some n \<Rightarrow> if n = 0 then 10 else n | None \<Rightarrow> 10)
         in (concat (map (\<lambda>r. line (show_punch_req ce r)) (take page_size (drop start reqs))), reqs)))"

definition cmd_always_use_relay :: "string option \<Rightarrow> world \<Rightarrow> string \<times> world" where
  "cmd_always_use_relay arg w =
     (case arg of
        Some rs \<Rightarrow> ([], to_tx (RelayServers0 rs) (w\<lparr>w_always_use_relay := (to_uppercase rs = ''Y'')\<rparr>))
      | None \<Rightarrow> (line (''ALWAYS_USE_RELAY: '' @ (if w_always_use_relay w then ''true'' else ''false'')), w))"

definition cmd_test_geo ::
    "console_env \<Rightarrow> snapshot \<Rightarrow> string option \<Rightarrow> string option \<Rightarrow> world \<Rightarrow> string \<times> world" where
  "cmd_test_geo ce s arg1 arg2 w =
     (let pick = (let (r, w) = get_relay_server s w in (ce_debug ce r, w)) in
      case arg1 of
        None \<Rightarrow> ([], w)
      | Some a \<Rightarrow>
          if parse_ip_addr a = None then ([], w)
          else (case arg2 of
                  None \<Rightarrow> pick
                | Some b \<Rightarrow> if parse_ip_addr b = None then ([], w) else pick))"

definition check_cmd :: "console_env \<Rightarrow> snapshot \<Rightarrow> string \<Rightarrow> world \<Rightarrow> string \<times> world" where
  "check_cmd ce s cmd w =
     (let fds = split_on (CHR '' '') (str_trim cmd);
          c = hd fds; a = word_at 1 fds; b = word_at 2 fds
      in if c = ''h'' then (help_text, w)
         else if c \<in> {''relay-servers'', ''rs''} then cmd_relay_servers s a w
         else if c \<in> {''ip-blocker'', ''ib''} then
           (let (res, m) = cmd_ip_blocker ce a b (w_ip_blocker w) in (res, w\<lparr>w_ip_blocker := m\<rparr>))
         else if c \<in> {''ip-changes'', ''ic''} then
           (let (res, m) = cmd_ip_changes ce a b (w_ip_changes w) in (res, w\<lparr>w_ip_changes := m\<rparr>))
         else if c \<in> {''punch-requests'', ''pr''} then
           (let (res, reqs) = cmd_punch_requests ce a b (w_punch_reqs w) in (res, w\<lparr>w_punch_reqs := reqs\<rparr>))
         else if c \<in> {''always-use-relay'', ''aur''} then cmd_always_use_relay a w
         else if c \<in> {''test-geo'', ''tg''} then cmd_test_geo ce s a b w
         else ([], w))"

section \<open>What a command changes\<close>

text \<open>A command leaves the peers, the waiting connections, the tunnels and the main loop's own values
  alone.\<close>

lemma check_cmd_frame:
  assumes "check_cmd ce s cmd w = (res, w')"
  shows "w_tcp_senders w' = w_tcp_senders w" "w_tcp_punch w' = w_tcp_punch w" "w_pm w' = w_pm w" "w_main w' = w_main w"
proof -
  have geo: "snd (cmd_test_geo ce s a b w) = w \<or> (\<exists>n. snd (cmd_test_geo ce s a b w) = w\<lparr>w_rotation := n\<rparr>)" for a b
    by (auto simp: cmd_test_geo_def get_relay_server_def Let_def split: option.splits)
  have "w_tcp_senders w' = w_tcp_senders w \<and> w_tcp_punch w' = w_tcp_punch w \<and> w_pm w' = w_pm w \<and> w_main w' = w_main w"
    using assms geo [of "word_at 1 (split_on CHR '' '' (str_trim cmd))" "word_at 2 (split_on CHR '' '' (str_trim cmd))"]
    by (auto simp: check_cmd_def cmd_relay_servers_def cmd_always_use_relay_def to_tx_def Let_def
        split: if_splits option.splits prod.splits)
  then show "w_tcp_senders w' = w_tcp_senders w" "w_tcp_punch w' = w_tcp_punch w" "w_pm w' = w_pm w" "w_main w' = w_main w"
    by simp_all
qed

lemma cmd_blocker_shrinks: "snd (cmd_ip_blocker ce a b m) \<subseteq>\<^sub>m m"
  by (auto simp: cmd_ip_blocker_def Let_def retain_blocker_def map_le_def split: option.splits if_splits)

lemma cmd_changes_shrinks: "snd (cmd_ip_changes ce a b m) \<subseteq>\<^sub>m m"
  by (auto simp: cmd_ip_changes_def Let_def retain_changes_def map_le_def split: option.splits if_splits prod.splits)

lemma cmd_punch_shrinks: "snd (cmd_punch_requests ce a b reqs) \<in> {reqs, []}"
  by (simp add: cmd_punch_requests_def Let_def)

lemma check_cmd_lists:
  assumes "check_cmd ce s cmd w = (res, w')"
  shows "w_ip_blocker w' \<subseteq>\<^sub>m w_ip_blocker w" "w_ip_changes w' \<subseteq>\<^sub>m w_ip_changes w"
    "w_punch_reqs w' \<in> {w_punch_reqs w, []}" "w_tx w' = w_tx w \<or> (\<exists>rs. w_tx w' = w_tx w @ [RelayServers0 rs])"
proof -
  let ?fds = "split_on (CHR '' '') (str_trim cmd)"
  let ?a = "word_at 1 ?fds" and ?b = "word_at 2 ?fds"
  have geo: "snd (cmd_test_geo ce s ?a ?b w) = w \<or> (\<exists>n. snd (cmd_test_geo ce s ?a ?b w) = w\<lparr>w_rotation := n\<rparr>)"
    by (auto simp: cmd_test_geo_def get_relay_server_def Let_def split: option.splits)
  have "w' \<in> {w, w\<lparr>w_ip_blocker := snd (cmd_ip_blocker ce ?a ?b (w_ip_blocker w))\<rparr>,
      w\<lparr>w_ip_changes := snd (cmd_ip_changes ce ?a ?b (w_ip_changes w))\<rparr>,
      w\<lparr>w_punch_reqs := snd (cmd_punch_requests ce ?a ?b (w_punch_reqs w))\<rparr>,
      snd (cmd_relay_servers s ?a w), snd (cmd_always_use_relay ?a w), snd (cmd_test_geo ce s ?a ?b w)}"
    using assms by (auto simp: check_cmd_def Let_def split: if_splits prod.splits)
  with geo cmd_blocker_shrinks cmd_changes_shrinks cmd_punch_shrinks [of ce ?a ?b "w_punch_reqs w"]
  have "w_ip_blocker w' \<subseteq>\<^sub>m w_ip_blocker w \<and> w_ip_changes w' \<subseteq>\<^sub>m w_ip_changes w \<and>
      w_punch_reqs w' \<in> {w_punch_reqs w, []} \<and> (w_tx w' = w_tx w \<or> (\<exists>rs. w_tx w' = w_tx w @ [RelayServers0 rs]))"
    by (auto simp: cmd_relay_servers_def cmd_always_use_relay_def to_tx_def split: option.splits)
  then show "w_ip_blocker w' \<subseteq>\<^sub>m w_ip_blocker w" "w_ip_changes w' \<subseteq>\<^sub>m w_ip_changes w"
    "w_punch_reqs w' \<in> {w_punch_reqs w, []}" "w_tx w' = w_tx w \<or> (\<exists>rs. w_tx w' = w_tx w @ [RelayServers0 rs])"
    by simp_all
qed

text \<open>An operator can lift a block: after \<open>ip-blocker <ip> -\<close> the next registration from that address
  passes the limiter.\<close>

lemma block_lifted:
  assumes "parse_i32 ip = None"
  shows "fst (check_ip_blocker now ip pid (snd (cmd_ip_blocker ce (Some ip) (Some ''-'') m)))"
  using assms by (simp add: cmd_ip_blocker_def start_arg_def check_ip_blocker_def Let_def)

text \<open>The relay switch also replaces the list of relay servers: the argument of the switch is sent to the
  main loop as if it were a list of servers.\<close>

lemma relay_switch_replaces_servers:
  "cmd_always_use_relay (Some ''Y'') w = ([], to_tx (RelayServers0 ''Y'') (w\<lparr>w_always_use_relay := True\<rparr>))"
  "sn_relay_servers (parse_relay_servers resolves ''Y'' s) = (if resolves ''Y:0'' then [''Y''] else [])"
proof -
  have "to_uppercase ''Y'' = ''Y''" by (simp add: to_uppercase_def upper_char_def)
  then show "cmd_always_use_relay (Some ''Y'') w = ([], to_tx (RelayServers0 ''Y'') (w\<lparr>w_always_use_relay := True\<rparr>))"
    by (simp add: cmd_always_use_relay_def)
  show "sn_relay_servers (parse_relay_servers resolves ''Y'' s) = (if resolves ''Y:0'' then [''Y''] else [])"
    by (simp add: parse_relay_servers_def get_servers_def test_if_valid_server_def Let_def)
qed

section \<open>Properties\<close>

text \<open>The console cannot touch registrations. No command, whatever its text, changes a peer, the
  database, a waiting connection or a tunnel; it can only remove entries from the blocked addresses,
  the address changes and the punch records, and the only message it queues for the main loop is a new
  list of relay servers.\<close>

theorem console_commands_confined:
  assumes "check_cmd ce s cmd w = (res, w')"
  shows "w_pm w' = w_pm w \<and> w_tcp_punch w' = w_tcp_punch w \<and> w_tcp_senders w' = w_tcp_senders w \<and> w_main w' = w_main w \<and>
    w_ip_blocker w' \<subseteq>\<^sub>m w_ip_blocker w \<and> w_ip_changes w' \<subseteq>\<^sub>m w_ip_changes w \<and>
    w_punch_reqs w' \<in> {w_punch_reqs w, []} \<and>
    (w_tx w' = w_tx w \<or> (\<exists>rs. w_tx w' = w_tx w @ [RelayServers0 rs]))"
  using check_cmd_frame [OF assms] check_cmd_lists [OF assms] by simp

theorem console_commands_confined_witness:
  "\<exists>w'. check_cmd \<lparr>ce_now = 0, ce_keys = (\<lambda>_. []), ce_debug = id, ce_event_time = (\<lambda>_. [])\<rparr> (plain_server [])
      ''pr -'' (one_peer_world (SockV4 9 9)\<lparr>w_punch_reqs := [\<lparr>pr_tm = 0, pr_from_ip = [], pr_to_ip = [], pr_to_id = []\<rparr>]\<rparr>) =
      ([], w') \<and> w_punch_reqs w' = [] \<and> w_pm w' = w_pm (one_peer_world (SockV4 9 9))"
proof -
  let ?ce = "\<lparr>ce_now = 0, ce_keys = (\<lambda>_. []), ce_debug = id, ce_event_time = (\<lambda>_. [])\<rparr>"
  let ?w = "one_peer_world (SockV4 9 9)\<lparr>w_punch_reqs := [\<lparr>pr_tm = 0, pr_from_ip = [], pr_to_ip = [], pr_to_id = []\<rparr>]\<rparr>"
  have "str_trim ''pr -'' = ''pr -''" by (simp add: str_trim_def is_space_def)
  then have h: "check_cmd ?ce (plain_server []) ''pr -'' ?w = ([], ?w\<lparr>w_punch_reqs := []\<rparr>)"
    by (simp add: check_cmd_def word_at_def cmd_punch_requests_def)
  show ?thesis using console_commands_confined [OF h] h by simp
qed

end
