(* ===== verification/Start_Up.thy ===== *)
theory Start_Up
  imports Server_Common
begin

text \<open>
  Starting the two servers: the arguments of \<open>hbbs\<close> and \<open>hbbr\<close> (\<open>server/src/main.rs\<close>,
  \<open>server/src/hbbr.rs\<close>), the listening sockets they open and open again, the addresses of the
  internal listeners for authenticated tunnels, the real address of a WebSocket client, and the
  self test of \<open>hbbs\<close>. The listening call of the operating system is the parameter \<open>bind\<close>.
\<close>

section \<open>Arguments\<close>

datatype 'e start_error =
  NotANumber string | InvalidPort | InvalidBind string | InvalidInternal string string | NotLoopback string socket_addr
| Os 'e

definition rendezvous_port :: int where "rendezvous_port = 21116"
definition relay_port :: int where "relay_port = 21117"

record hbbs_args =
  ha_bind :: "ip_addr option"
  ha_port :: int
  ha_serial :: int
  ha_key :: string
  ha_rmem :: nat

definition hbbs_main :: "environ \<Rightarrow> 'e start_error + hbbs_args" where
  "hbbs_main env =
     (let text = get_arg_or env ''port'' (show_nat (nat rendezvous_port)) in
      case parse_i32 text of
        None \<Rightarrow> Inl (NotANumber text)
      | Some port \<Rightarrow>
          if port < 3 then Inl InvalidPort
          else
            (case parse_bind_address (get_arg env ''bind'') of
               Inl msg \<Rightarrow> Inl (InvalidBind msg)
             | Inr bind_addr \<Rightarrow>
                 Inr \<lparr>ha_bind = bind_addr, ha_port = port,
                      ha_serial = (case parse_i32 (get_arg env ''serial'') of Some n \<Rightarrow> n | None \<Rightarrow> 0),
                      ha_key = get_arg_or env ''key'' ''-'',
                      ha_rmem = (case parse_unsigned (2 ^ 64 - 1) (get_arg env ''rmem'') of Some n \<Rightarrow> n | None \<Rightarrow> 0)\<rparr>))"

text \<open>The port of \<open>hbbr\<close> is a string here; it is parsed when the server starts. \<open>cli\<close> holds the
  options of the command line.\<close>

definition show_i32 :: "int \<Rightarrow> string" where
  "show_i32 n = (if n < 0 then CHR ''-'' # show_nat (nat (- n)) else show_nat (nat n))"

definition hbbr_main ::
    "environ \<Rightarrow> environ \<Rightarrow> environ \<Rightarrow> 'e start_error + ip_addr option \<times> string \<times> string" where
  "hbbr_main cli dotenv env =
     (let env = fold (\<lambda>(k, v) e. set_arg k v e) dotenv env;
          port = (case get_arg_opt env ''PORT'' of
                    Some v \<Rightarrow>
                      (let v = (case parse_i32 v of Some n \<Rightarrow> n | None \<Rightarrow> 0) in
                       if v > 0 then sint (word_of_int (v + 1) :: 32 word) else relay_port)
                  | None \<Rightarrow> relay_port);
          bind = (case map_of cli ''bind'' of Some b \<Rightarrow> b | None \<Rightarrow> get_arg env ''BIND'');
          key = (case map_of cli ''key'' of Some k \<Rightarrow> k | None \<Rightarrow> get_arg env ''KEY'')
      in case parse_bind_address bind of
           Inl msg \<Rightarrow> Inl (InvalidBind msg)
         | Inr bind_addr \<Rightarrow>
             Inr (bind_addr, case map_of cli ''port'' of Some p \<Rightarrow> p | None \<Rightarrow> show_i32 port, key))"

section \<open>Listening\<close>

definition listen_any :: "(socket_addr \<Rightarrow> 'e + 'l) \<Rightarrow> u16 \<Rightarrow> 'e + 'l" where
  "listen_any bind port =
     (case bind (SockV6 0 port 0 0) of
        Inr l \<Rightarrow> Inr l
      | Inl _ \<Rightarrow> bind (SockV4 0 port))"

definition listen_tcp :: "(socket_addr \<Rightarrow> 'e + 'l) \<Rightarrow> ip_addr option \<Rightarrow> u16 \<Rightarrow> 'e + 'l" where
  "listen_tcp bind bind_addr port =
     (case bind_addr of
        Some ip \<Rightarrow> bind (new_socket_addr ip port)
      | None \<Rightarrow> listen_any bind port)"

definition create_tcp_listener :: "(socket_addr \<Rightarrow> 'e + 'l) \<Rightarrow> ip_addr option \<Rightarrow> int \<Rightarrow> 'e + 'l" where
  "create_tcp_listener bind bind_addr port = listen_tcp bind bind_addr (word_of_int port)"

definition create_udp_listener :: "(socket_addr \<Rightarrow> 'e + 'l) \<Rightarrow> ip_addr option \<Rightarrow> int \<Rightarrow> 'e + 'l" where
  "create_udp_listener bind bind_addr port =
     (case bind_addr of
        Some ip \<Rightarrow> bind (new_socket_addr ip (word_of_int port))
      | None \<Rightarrow>
          (case bind (SockV6 0 (word_of_int port) 0 0) of
             Inr s \<Rightarrow> Inr s
           | Inl _ \<Rightarrow> bind (SockV4 0 (word_of_int port))))"

section \<open>Internal listeners\<close>

definition parse_vless_internal_addr_value ::
    "string \<Rightarrow> string \<Rightarrow> 'e start_error + socket_addr option" where
  "parse_vless_internal_addr_value name value =
     (let value = str_trim value in
      if value = [] then Inr None
      else (case parse_socket_addr value of
              None \<Rightarrow> Inl (InvalidInternal name value)
            | Some addr \<Rightarrow>
                if \<not> is_loopback (sa_ip addr) then Inl (NotLoopback name addr) else Inr (Some addr)))"

definition hbbs_vless_internal_addr :: "environ \<Rightarrow> string \<Rightarrow> 'e start_error + socket_addr option" where
  "hbbs_vless_internal_addr env name =
     parse_vless_internal_addr_value name (case map_of env name of Some v \<Rightarrow> v | None \<Rightarrow> [])"

definition hbbr_vless_internal_addr :: "string option \<Rightarrow> 'e start_error + socket_addr option" where
  "hbbr_vless_internal_addr value =
     (case value of
        None \<Rightarrow> Inr None
      | Some v \<Rightarrow>
          (let value = str_trim v in
           if value = [] then Inr None
           else (case parse_socket_addr value of
                   None \<Rightarrow> Inl (InvalidInternal ''VLESS_HBBR_INTERNAL'' value)
                 | Some addr \<Rightarrow>
                     if \<not> is_loopback (sa_ip addr) then Inl (NotLoopback ''VLESS_HBBR_INTERNAL'' addr)
                     else Inr (Some addr))))"

definition create_vless_internal_listener ::
    "(socket_addr \<Rightarrow> 'e + 'l) \<Rightarrow> socket_addr option \<Rightarrow> 'e + 'l option" where
  "create_vless_internal_listener bind addr =
     (case addr of
        None \<Rightarrow> Inr None
      | Some a \<Rightarrow> (case bind a of Inl e \<Rightarrow> Inl e | Inr l \<Rightarrow> Inr (Some l)))"

section \<open>The sockets of hbbs\<close>

record ('u, 'l) hbbs_sockets =
  hs_udp :: 'u
  hs_listener :: 'l
  hs_listener2 :: 'l
  hs_listener3 :: 'l
  hs_console :: "'l option"
  hs_vless_hbbs :: "'l option"
  hs_vless_nat :: "'l option"

definition os_result :: "'e + 'a \<Rightarrow> 'e start_error + 'a" where
  "os_result r = map_sum Os id r"

definition internal_addrs :: "environ \<Rightarrow> 'e start_error + socket_addr option \<times> socket_addr option" where
  "internal_addrs env =
     bind_result (hbbs_vless_internal_addr env ''VLESS_HBBS_INTERNAL'') (\<lambda>hbbs.
     bind_result (hbbs_vless_internal_addr env ''VLESS_NAT_INTERNAL'') (\<lambda>nat. Inr (hbbs, nat)))"

definition open_sockets ::
    "(socket_addr \<Rightarrow> 'e + 'u) \<Rightarrow> (socket_addr \<Rightarrow> 'e + 'l) \<Rightarrow> environ \<Rightarrow> ip_addr option \<Rightarrow> int \<Rightarrow>
     'e start_error + ('u, 'l) hbbs_sockets" where
  "open_sockets bind_udp bind env bind_addr port =
     (let nat_port = port - 1; ws_port = port + 2 in
      bind_result (os_result (create_udp_listener bind_udp bind_addr port)) (\<lambda>udp.
      bind_result (os_result (create_tcp_listener bind bind_addr port)) (\<lambda>listener.
      bind_result (os_result (create_tcp_listener bind bind_addr nat_port)) (\<lambda>listener2.
      bind_result (os_result (create_tcp_listener bind bind_addr ws_port)) (\<lambda>listener3.
      bind_result (os_result (listen_console bind bind_addr (word_of_int nat_port))) (\<lambda>console.
      bind_result (internal_addrs env) (\<lambda>(vless_hbbs_addr, vless_nat_addr).
      bind_result (os_result (create_vless_internal_listener bind vless_hbbs_addr)) (\<lambda>vless_hbbs.
      bind_result (os_result (create_vless_internal_listener bind vless_nat_addr)) (\<lambda>vless_nat.
        Inr \<lparr>hs_udp = udp, hs_listener = listener, hs_listener2 = listener2, hs_listener3 = listener3,
             hs_console = console, hs_vless_hbbs = vless_hbbs, hs_vless_nat = vless_nat\<rparr>)))))))))"

datatype loop_failure =
  UdpSocket | Listener3 | Listener2 | Listener | ConsoleListener | VlessHbbsListener | VlessNatListener

text \<open>\<open>main_task\<close>: after a failure of the loop the socket that failed is dropped and opened again.\<close>

definition reopen ::
    "(socket_addr \<Rightarrow> 'e + 'u) \<Rightarrow> (socket_addr \<Rightarrow> 'e + 'l) \<Rightarrow> ip_addr option \<Rightarrow> int \<Rightarrow>
     socket_addr option \<times> socket_addr option \<Rightarrow> loop_failure \<Rightarrow> ('u, 'l) hbbs_sockets \<Rightarrow>
     'e + ('u, 'l) hbbs_sockets" where
  "reopen bind_udp bind bind_addr port internal failure hs =
     (let nat_port = port - 1; ws_port = port + 2 in
      case failure of
        UdpSocket \<Rightarrow> map_sum id (\<lambda>u. hs\<lparr>hs_udp := u\<rparr>) (create_udp_listener bind_udp bind_addr port)
      | Listener \<Rightarrow> map_sum id (\<lambda>l. hs\<lparr>hs_listener := l\<rparr>) (create_tcp_listener bind bind_addr port)
      | Listener2 \<Rightarrow> map_sum id (\<lambda>l. hs\<lparr>hs_listener2 := l\<rparr>) (create_tcp_listener bind bind_addr nat_port)
      | ConsoleListener \<Rightarrow>
          map_sum id (\<lambda>l. hs\<lparr>hs_console := l\<rparr>) (listen_console bind bind_addr (word_of_int nat_port))
      | Listener3 \<Rightarrow> map_sum id (\<lambda>l. hs\<lparr>hs_listener3 := l\<rparr>) (create_tcp_listener bind bind_addr ws_port)
      | VlessHbbsListener \<Rightarrow>
          map_sum id (\<lambda>l. hs\<lparr>hs_vless_hbbs := l\<rparr>) (create_vless_internal_listener bind (fst internal))
      | VlessNatListener \<Rightarrow>
          map_sum id (\<lambda>l. hs\<lparr>hs_vless_nat := l\<rparr>) (create_vless_internal_listener bind (snd internal)))"

section \<open>The real address of a WebSocket client\<close>

text \<open>A header is missing, or it is there and its value is text or not.\<close>

record ws_headers =
  h_real_ip :: "string option option"
  h_forwarded_for :: "string option option"

definition ws_real_addr :: "ws_headers \<Rightarrow> socket_addr \<Rightarrow> socket_addr" where
  "ws_real_addr h addr =
     (let real_ip = (case h_real_ip h of
                       Some v \<Rightarrow> v
                     | None \<Rightarrow> (case h_forwarded_for h of Some v \<Rightarrow> v | None \<Rightarrow> None))
      in case real_ip of
           None \<Rightarrow> addr
         | Some ip \<Rightarrow>
             (case parse_socket_addr (if CHR ''.'' \<in> set ip then ip @ '':0'' else ''['' @ ip @ '']:0'') of
                Some a \<Rightarrow> a | None \<Rightarrow> addr))"

section \<open>The self test of hbbs\<close>

definition self_test_addr :: "environ \<Rightarrow> socket_addr \<Rightarrow> 'e start_error + socket_addr option" where
  "self_test_addr env local_addr =
     (let test_addr = get_arg env ''TEST_HBBS'' in
      if to_lowercase test_addr = ''no'' then Inr None
      else if test_addr = [] then Inr (Some local_addr)
      else (case parse_socket_addr test_addr of
              Some a \<Rightarrow> Inr (Some a) | None \<Rightarrow> Inl (NotANumber test_addr)))"

definition test_target :: "socket_addr \<Rightarrow> socket_addr" where
  "test_target addr =
     (if is_unspecified (sa_ip addr) then
        (case addr of SockV4 _ port \<Rightarrow> SockV4 0x7F000001 port | SockV6 _ port flow scope \<Rightarrow> SockV6 1 port flow scope)
      else addr)"

datatype test_event = Tick instant bool | Datagram instant bool

datatype test_outcome = Running | TestTimeout | SendFailed

text \<open>The loop of \<open>test_hbbs\<close> over its events: a tick, with whether its send succeeds, and a datagram,
  with whether it parses.\<close>

fun test_hbbs :: "instant \<Rightarrow> test_event list \<Rightarrow> test_outcome" where
  "test_hbbs last_time_recv [] = Running"
| "test_hbbs last_time_recv (Tick now sent # es) =
     (if elapsed_secs now last_time_recv > 12 then TestTimeout
      else if \<not> sent then SendFailed
      else test_hbbs last_time_recv es)"
| "test_hbbs last_time_recv (Datagram now parses # es) =
     test_hbbs (if parses then now else last_time_recv) es"

text \<open>Whether the test ends the process: \<open>run addr\<close> is the outcome of \<open>test_hbbs\<close> there. A test of
  the IPv6 any-address is repeated with IPv4.\<close>

definition self_test_exits :: "(socket_addr \<Rightarrow> test_outcome) \<Rightarrow> socket_addr \<Rightarrow> bool" where
  "self_test_exits run addr =
     (run addr \<noteq> Running \<and>
      (case addr of
         SockV6 ip port _ _ \<Rightarrow> if ip = 0 then run (SockV4 0 port) \<noteq> Running else True
       | SockV4 _ _ \<Rightarrow> True))"

section \<open>Lemmas\<close>

text \<open>A self test fails only for a reason: a send failed, or no answer came for more than 12 seconds
  before a tick. A server that answers between any two ticks that are 12 seconds apart keeps it running.\<close>

fun recv_after :: "instant \<Rightarrow> test_event list \<Rightarrow> instant" where
  "recv_after t [] = t"
| "recv_after t (Tick _ _ # es) = recv_after t es"
| "recv_after t (Datagram now parses # es) = recv_after (if parses then now else t) es"

lemma all_ticks_Cons:
  "(\<forall>xs now sent ys. e # es = xs @ Tick now sent # ys \<longrightarrow> P xs now sent) \<longleftrightarrow>
     (\<forall>now sent. e = Tick now sent \<longrightarrow> P [] now sent) \<and>
     (\<forall>xs now sent ys. es = xs @ Tick now sent # ys \<longrightarrow> P (e # xs) now sent)"
  (is "?l \<longleftrightarrow> ?r")
proof
  assume l: ?l
  have "P (e # xs) now sent" if "es = xs @ Tick now sent # ys" for xs now sent ys
    using l [rule_format, of "e # xs" now sent ys] that by simp
  with l show ?r by fastforce
next
  assume ?r
  then show ?l by (auto simp: Cons_eq_append_conv)
qed

lemma test_hbbs_running:
  "test_hbbs t es = Running \<longleftrightarrow>
     (\<forall>xs now sent ys. es = xs @ Tick now sent # ys \<longrightarrow> sent \<and> elapsed_secs now (recv_after t xs) \<le> 12)"
proof (induction t es rule: test_hbbs.induct)
  case (2 t now sent es)
  then show ?case unfolding all_ticks_Cons by (cases sent; cases "12 < elapsed_secs now t") (auto simp: not_less)
next
  case (3 t now parses es)
  then show ?case unfolding all_ticks_Cons by simp
qed simp

lemma port_arg_alias: "get_arg_opt env ''port'' = get_arg_opt env ''PORT''"
proof -
  have "to_uppercase ''port'' = ''PORT''" "to_uppercase ''PORT'' = ''PORT''"
    by (simp_all add: to_uppercase_def upper_char_def char_of_def bit_0)
  then have same: "arg_name ''port'' = arg_name ''PORT''" by (simp add: arg_name_def)
  show ?thesis unfolding get_arg_opt_def arg_aliases_def same by (rule refl)
qed

lemma internal_addr_loopback:
  "parse_vless_internal_addr_value name v = Inr (Some a) \<Longrightarrow>
     is_loopback (sa_ip a) \<and> parse_socket_addr (str_trim v) = Some a"
  by (auto simp: parse_vless_internal_addr_value_def Let_def split: if_splits option.splits)

lemma internal_listener_bound:
  assumes "create_vless_internal_listener bind addr = Inr (Some l)" "\<forall>a. addr = Some a \<longrightarrow> is_loopback (sa_ip a)"
  shows "\<exists>a. is_loopback (sa_ip a) \<and> bind a = Inr l"
  using assms by (auto simp: create_vless_internal_listener_def split: option.splits sum.splits)

text \<open>The internal listeners of a set of sockets are bound to loopback addresses.\<close>

definition internal_loopback :: "(socket_addr \<Rightarrow> 'e + 'l) \<Rightarrow> ('u, 'l) hbbs_sockets \<Rightarrow> bool" where
  "internal_loopback bind hs \<longleftrightarrow>
     (\<forall>l. hs_vless_hbbs hs = Some l \<or> hs_vless_nat hs = Some l \<longrightarrow>
        (\<exists>a. is_loopback (sa_ip a) \<and> bind a = Inr l))"

lemma os_result_Inr [simp]: "os_result r = Inr x \<longleftrightarrow> r = Inr x"
  by (cases r) (auto simp: os_result_def)

fun reopen_all ::
    "(socket_addr \<Rightarrow> 'e + 'u) \<Rightarrow> (socket_addr \<Rightarrow> 'e + 'l) \<Rightarrow> ip_addr option \<Rightarrow> int \<Rightarrow>
     socket_addr option \<times> socket_addr option \<Rightarrow> loop_failure list \<Rightarrow> ('u, 'l) hbbs_sockets \<Rightarrow>
     'e + ('u, 'l) hbbs_sockets" where
  "reopen_all bind_udp bind b port internal [] hs = Inr hs"
| "reopen_all bind_udp bind b port internal (f # fs) hs =
     bind_result (reopen bind_udp bind b port internal f hs) (reopen_all bind_udp bind b port internal fs)"

lemma reopen_loopback:
  assumes "reopen bind_udp bind b port internal f hs = Inr hs'" "internal_loopback bind hs"
    and "\<forall>a. fst internal = Some a \<or> snd internal = Some a \<longrightarrow> is_loopback (sa_ip a)"
  shows "internal_loopback bind hs'"
proof -
  have "(hs_vless_hbbs hs' = hs_vless_hbbs hs \<or> create_vless_internal_listener bind (fst internal) = Inr (hs_vless_hbbs hs')) \<and>
      (hs_vless_nat hs' = hs_vless_nat hs \<or> create_vless_internal_listener bind (snd internal) = Inr (hs_vless_nat hs'))"
    using assms(1) by (cases f) (auto simp: reopen_def Let_def)
  with assms(2,3) show ?thesis
    unfolding internal_loopback_def by (metis internal_listener_bound)
qed

section \<open>Properties\<close>

text \<open>C29. Tunnels are trusted on loopback addresses only. A value for an internal listener is accepted
  by both servers in the same way, and what they accept is empty or a loopback address. All internal
  listeners that \<open>hbbs\<close> has, when it starts and after any sequence of failures, are bound to
  loopback addresses.\<close>

theorem internal_listeners_on_loopback:
  fixes bind :: "socket_addr \<Rightarrow> 'e + 'l"
  assumes "open_sockets bind_udp bind env b port = Inr hs"
    and "(internal_addrs env :: 'e start_error + _) = Inr internal"
    and "reopen_all bind_udp bind b port internal fs hs = Inr hs'"
  shows "internal_loopback bind hs' \<and>
    hbbr_vless_internal_addr (Some v) = parse_vless_internal_addr_value ''VLESS_HBBR_INTERNAL'' v \<and>
    (case parse_vless_internal_addr_value ''VLESS_HBBR_INTERNAL'' v of
       Inl e \<Rightarrow> True | Inr None \<Rightarrow> str_trim v = [] | Inr (Some a) \<Rightarrow> is_loopback (sa_ip a))"
proof -
  have internal: "\<forall>a. fst internal = Some a \<or> snd internal = Some a \<longrightarrow> is_loopback (sa_ip a)"
    using assms(2) by (auto simp: internal_addrs_def hbbs_vless_internal_addr_def dest: internal_addr_loopback)
  have "internal_loopback bind hs"
  proof -
    have "create_vless_internal_listener bind (fst internal) = Inr (hs_vless_hbbs hs)"
        "create_vless_internal_listener bind (snd internal) = Inr (hs_vless_nat hs)"
      using assms(1,2) by (auto simp: open_sockets_def Let_def split_def)
    then show ?thesis
      unfolding internal_loopback_def using internal by (metis internal_listener_bound)
  qed
  with assms(3) have "internal_loopback bind hs'"
    by (induction fs arbitrary: hs) (auto dest: reopen_loopback [OF _ _ internal])
  moreover have "hbbr_vless_internal_addr (Some v) = parse_vless_internal_addr_value ''VLESS_HBBR_INTERNAL'' v"
    by (simp add: hbbr_vless_internal_addr_def parse_vless_internal_addr_value_def)
  ultimately show ?thesis
    by (auto simp: parse_vless_internal_addr_value_def Let_def split: if_splits option.splits)
qed

theorem internal_listeners_on_loopback_witness:
  "\<exists>hs hs'. (open_sockets Inr Inr [(''VLESS_HBBS_INTERNAL'', ''127.0.0.1:22116'')] None 21116 :: unit start_error + _) = Inr hs \<and>
     reopen_all Inr Inr None 21116 (Some (SockV4 0x7F000001 22116), None) [Listener, VlessHbbsListener] hs =
       (Inr hs' :: unit + (socket_addr, socket_addr) hbbs_sockets) \<and>
     hs_vless_hbbs hs' = Some (SockV4 0x7F000001 22116) \<and>
     internal_loopback (Inr :: socket_addr \<Rightarrow> unit + socket_addr) hs'"
proof -
  let ?env = "[(''VLESS_HBBS_INTERNAL'', ''127.0.0.1:22116'')]"
  let ?a = "SockV4 0x7F000001 22116" and ?bind = "Inr :: socket_addr \<Rightarrow> unit + socket_addr"
  have "parse_socket_addr ''127.0.0.1:22116'' = Some ?a" by (simp add: addr_eval)
  moreover have "str_trim ''127.0.0.1:22116'' = ''127.0.0.1:22116''" "str_trim [] = []"
    by (simp_all add: str_trim_def is_space_def)
  ultimately have i: "(internal_addrs ?env :: unit start_error + _) = Inr (Some ?a, None)"
    by (simp add: internal_addrs_def hbbs_vless_internal_addr_def parse_vless_internal_addr_value_def bind_result_def)
  obtain hs where h: "open_sockets ?bind ?bind ?env None 21116 = Inr hs"
    by (simp add: open_sockets_def i bind_result_def os_result_def create_udp_listener_def create_tcp_listener_def
        listen_tcp_def listen_any_def listen_console_def console_addr_def create_vless_internal_listener_def)
  obtain hs' where r: "reopen_all ?bind ?bind None 21116 (Some ?a, None) [Listener, VlessHbbsListener] hs = Inr hs'"
      "hs_vless_hbbs hs' = Some ?a"
    by (simp add: reopen_def bind_result_def create_tcp_listener_def listen_tcp_def listen_any_def
        create_vless_internal_listener_def)
  show ?thesis using internal_listeners_on_loopback [OF h i r(1)] h r by blast
qed

end
