(* ===== verification/Rv_Server.thy ===== *)
theory Rv_Server
  imports Rv_Console Start_Up
begin

text \<open>
  The rendezvous server as a whole: its connections (\<open>handle_listener\<close>,
  \<open>handle_listener_inner\<close>, \<open>handle_listener2\<close>), the main loop (\<open>io_loop\<close>) and the check of the
  relay servers, all of \<open>server/src/rendezvous_server.rs\<close>.
  \<^item> A connection is a task of its own, with the snapshot of the server that was cloned for it, its
    write half and, for a tunnel, the queue of messages that are to be pushed to it.
  \<^item> A step of the server is one event of the main loop, one event of a connection, or the end of a
    check of the relay servers; steps of different tasks interleave in any order.
  The lemmas show that every write half has one owner, that the lists of the server only name
  connections that are open, and where queued messages go.
\<close>

section \<open>Connections\<close>

datatype conn_kind = PlainConn | WsConn | VlessConn | NatConn | ConsoleConn

record conn =
  c_kind :: conn_kind
  c_addr :: socket_addr
  c_sink :: "sink option"
  c_snap :: snapshot
  c_inbox :: "rmsg list"

definition conn_key :: "conn \<Rightarrow> socket_addr" where
  "conn_key c = try_into_v4 (c_addr c)"

text \<open>Events of the loops: a frame (a binary message of a web socket), another message of a web
  socket, the end of the stream, an error or a timeout, a message in the queue, the end of the queue,
  and the heartbeat.\<close>

datatype conn_event = Frame bytes | WsControl | Ended | Pushed | QueueClosed | Heartbeat

text \<open>The end of \<open>handle_listener_inner\<close>: a tunnel leaves \<open>tcp_senders\<close>, and a connection whose
  write half waits in \<open>tcp_punch\<close> takes it out.\<close>

definition close_conn :: "conn \<Rightarrow> world \<Rightarrow> world" where
  "close_conn c w =
     (let w = (if c_kind c = VlessConn
               then w\<lparr>w_tcp_senders := (w_tcp_senders w)(conn_key c := None)\<rparr> else w)
      in if c_sink c = None then w\<lparr>w_tcp_punch := (w_tcp_punch w)(conn_key c := None)\<rparr> else w)"

definition conn_frame ::
    "string \<Rightarrow> env \<Rightarrow> bytes \<Rightarrow> conn \<Rightarrow> world \<Rightarrow> conn option \<times> world \<times> effect list" where
  "conn_frame key e bs c w =
     (let (go_on, sink, w, out) =
            handle_tcp e (c_snap c) bs (c_sink c) (c_addr c) key (c_kind c = WsConn) (c_kind c = VlessConn) w;
          c = c\<lparr>c_sink := sink\<rparr>
      in if go_on then (Some c, w, out) else (None, close_conn c w, out))"

text \<open>One turn of the loop of \<open>handle_listener_inner\<close>.\<close>

definition conn_turn ::
    "string \<Rightarrow> env \<Rightarrow> conn_event \<Rightarrow> conn \<Rightarrow> world \<Rightarrow> conn option \<times> world \<times> effect list" where
  "conn_turn key e ev c w =
     (case ev of
        Frame bs \<Rightarrow>
          if c_kind c = VlessConn \<and> bs = [] then (Some c, w, []) else conn_frame key e bs c w
      | WsControl \<Rightarrow> (Some c, w, [])
      | Ended \<Rightarrow> (None, close_conn c w, [])
      | QueueClosed \<Rightarrow> (None, close_conn c w, [])
      | Pushed \<Rightarrow>
          (case c_inbox c of
             [] \<Rightarrow> (Some c, w, [])
           | msg # rest \<Rightarrow>
               (Some (c\<lparr>c_inbox := rest\<rparr>), w,
                case c_sink c of Some (TcpStreamSink n) \<Rightarrow> [SinkSend (TcpStreamSink n) msg] | _ \<Rightarrow> []))
      | Heartbeat \<Rightarrow> (Some c, w, send_to_sink (c_sink c) EmptyMessage))"

text \<open>The events a connection can have: only a tunnel has a queue and a heartbeat, and its queue is
  closed when it is empty and no sender is left in \<open>tcp_senders\<close>.\<close>

definition turn_possible :: "world \<Rightarrow> nat \<Rightarrow> conn \<Rightarrow> conn_event \<Rightarrow> bool" where
  "turn_possible w n c ev \<longleftrightarrow>
     c_kind c \<in> {PlainConn, WsConn, VlessConn} \<and>
     (case ev of
        WsControl \<Rightarrow> c_kind c = WsConn
      | Pushed \<Rightarrow> c_kind c = VlessConn \<and> c_inbox c \<noteq> []
      | QueueClosed \<Rightarrow> c_kind c = VlessConn \<and> c_inbox c = [] \<and> w_tcp_senders w (conn_key c) \<noteq> Some n
      | Heartbeat \<Rightarrow> c_kind c = VlessConn
      | _ \<Rightarrow> True)"

text \<open>The one answer of \<open>handle_listener2\<close> to a connection that is not the console.\<close>

definition listener2_reply :: "env \<Rightarrow> nat \<Rightarrow> bytes \<Rightarrow> conn \<Rightarrow> world \<Rightarrow> effect list" where
  "listener2_reply e n bs c w =
     (case e_parse e bs of
        Some (TestNatRequest serial) \<Rightarrow>
          [SinkSend (TcpStreamSink n) (TestNatResponse (int (unat (sa_port (c_addr c)))) None)]
      | Some (OnlineRequest peers) \<Rightarrow>
          [SinkSend (TcpStreamSink n) (handle_online_request (e_now e) (w_pm w) peers)]
      | _ \<Rightarrow> [])"

section \<open>Accepting\<close>

datatype admission = AsConsole | AsClient

text \<open>The test at the start of \<open>handle_listener2\<close>.\<close>

definition listener2_admission :: "socket_addr \<Rightarrow> bool \<Rightarrow> admission" where
  "listener2_admission addr vless_authenticated =
     (if is_loopback (sa_ip (try_into_v4 addr)) \<and> \<not> vless_authenticated then AsConsole else AsClient)"

text \<open>What \<open>io_loop\<close> makes of a connection that one of its listeners accepts. (The UDP socket does
  not accept connections; its value is never used.)\<close>

definition accept_kind :: "loop_failure \<Rightarrow> socket_addr \<Rightarrow> conn_kind" where
  "accept_kind l addr =
     (let listener2 = (\<lambda>v. if listener2_admission addr v = AsConsole then ConsoleConn else NatConn) in
      case l of
        Listener \<Rightarrow> PlainConn
      | Listener3 \<Rightarrow> WsConn
      | VlessHbbsListener \<Rightarrow> VlessConn
      | Listener2 \<Rightarrow> listener2 False
      | ConsoleListener \<Rightarrow> listener2 False
      | VlessNatListener \<Rightarrow> listener2 True
      | UdpSocket \<Rightarrow> NatConn)"

definition own_sink :: "conn_kind \<Rightarrow> nat \<Rightarrow> sink" where
  "own_sink k n = (if k = WsConn then WsSink n else TcpStreamSink n)"

record server =
  sv_world :: world
  sv_conns :: "nat \<rightharpoonup> conn"
  sv_next :: nat
  sv_checks :: "string list list"

text \<open>\<open>self.clone()\<close>, the spawned task up to its loop, and the registration of a tunnel.\<close>

definition open_conn :: "loop_failure \<Rightarrow> socket_addr \<Rightarrow> ws_headers \<Rightarrow> server \<Rightarrow> server" where
  "open_conn l addr h s =
     (let k = accept_kind l addr; n = sv_next s; w = sv_world s;
          c = \<lparr>c_kind = k, c_addr = (if k = WsConn then ws_real_addr h addr else addr),
               c_sink = Some (own_sink k n), c_snap = w_main w, c_inbox = []\<rparr>
      in s\<lparr>sv_conns := (sv_conns s)(n \<mapsto> c), sv_next := Suc n,
           sv_world := (if k = VlessConn
                        then w\<lparr>w_tcp_senders := (w_tcp_senders w)(conn_key c \<mapsto> n)\<rparr> else w)\<rparr>)"

section \<open>The main loop\<close>

text \<open>A message from the channel \<open>tx\<close>.\<close>

definition main_recv :: "env \<Rightarrow> data \<Rightarrow> world \<Rightarrow> world \<times> effect list" where
  "main_recv e d w =
     (case d of
        Msg msg addr \<Rightarrow>
          (case w_tcp_senders w (try_into_v4 addr) of
             Some n \<Rightarrow> (w, [SenderSend n msg])
           | None \<Rightarrow> (w, if e_udp_ok e msg addr then [UdpSend msg addr] else []))
      | RelayServers0 rs \<Rightarrow> (w\<lparr>w_main := parse_relay_servers (e_resolves e) rs (w_main w)\<rparr>, [])
      | RelayServers rs \<Rightarrow> (w\<lparr>w_main := (w_main w)\<lparr>sn_relay_servers := rs\<rparr>\<rparr>, []))"

text \<open>The unbounded channel of a tunnel.\<close>

fun enqueue :: "effect \<Rightarrow> (nat \<rightharpoonup> conn) \<Rightarrow> (nat \<rightharpoonup> conn)" where
  "enqueue (SenderSend n msg) cs =
     (case cs n of Some c \<Rightarrow> cs(n \<mapsto> c\<lparr>c_inbox := c_inbox c @ [msg]\<rparr>) | None \<Rightarrow> cs)"
| "enqueue _ cs = cs"

datatype io_event =
  TimerTick | Received | UdpDatagram bytes socket_addr | UdpError
| Accepted loop_failure socket_addr ws_headers | AcceptError loop_failure

definition io_turn :: "env \<Rightarrow> io_event \<Rightarrow> server \<Rightarrow> loop_failure option \<times> server \<times> effect list" where
  "io_turn e ev s =
     (let w = sv_world s in
      case ev of
        TimerTick \<Rightarrow>
          (None, if length (sn_relay_servers0 (w_main w)) > 1
                 then s\<lparr>sv_checks := sv_checks s @ [sn_relay_servers0 (w_main w)]\<rparr> else s, [])
      | Received \<Rightarrow>
          (case w_tx w of
             [] \<Rightarrow> (None, s, [])
           | d # ds \<Rightarrow>
               (let (w, out) = main_recv e d (w\<lparr>w_tx := ds\<rparr>)
                in (None, s\<lparr>sv_world := w, sv_conns := fold enqueue out (sv_conns s)\<rparr>, out)))
      | UdpDatagram bs addr \<Rightarrow>
          (let (ok, w, out) = handle_udp e bs addr w
           in (if ok then None else Some UdpSocket, s\<lparr>sv_world := w\<rparr>, out))
      | UdpError \<Rightarrow> (Some UdpSocket, s, [])
      | Accepted l addr h \<Rightarrow> (None, if l = UdpSocket then s else open_conn l addr h s, [])
      | AcceptError l \<Rightarrow> (Some l, s, []))"

text \<open>\<open>check_relay_servers\<close>: the servers that can be reached, in the order \<open>order\<close> in which the
  attempts ended.\<close>

definition relay_host :: "string \<Rightarrow> string" where
  "relay_host x = (if CHR '':'' \<in> set x then x else x @ '':'' @ show_nat (nat relay_port))"

definition check_relay_servers :: "(string \<Rightarrow> bool) \<Rightarrow> nat list \<Rightarrow> string list \<Rightarrow> world \<Rightarrow> world" where
  "check_relay_servers connects order rs0 w =
     (let rs = filter (\<lambda>x. connects (relay_host x)) (map (\<lambda>i. rs0 ! i) order)
      in if rs \<noteq> [] then to_tx (RelayServers rs) w else w)"

section \<open>Steps\<close>

datatype output_event = Sent effect | ConsoleReply nat string | LoopFailed loop_failure

inductive sv_step :: "string \<Rightarrow> server \<Rightarrow> output_event list \<Rightarrow> server \<Rightarrow> bool" for key where
  main: "io_turn e ev s = (f, s', out) \<Longrightarrow>
    sv_step key s (map Sent out @ (case f of Some l \<Rightarrow> [LoopFailed l] | None \<Rightarrow> [])) s'"
| turn: "sv_conns s n = Some c \<Longrightarrow> turn_possible (sv_world s) n c ev \<Longrightarrow>
    conn_turn key e ev c (sv_world s) = (c', w', out) \<Longrightarrow>
    sv_step key s (map Sent out) (s\<lparr>sv_world := w', sv_conns := (sv_conns s)(n := c')\<rparr>)"
| nat_test: "sv_conns s n = Some c \<Longrightarrow> c_kind c = NatConn \<Longrightarrow>
    sv_step key s (map Sent (listener2_reply e n bs c (sv_world s))) (s\<lparr>sv_conns := (sv_conns s)(n := None)\<rparr>)"
| console: "sv_conns s n = Some c \<Longrightarrow> c_kind c = ConsoleConn \<Longrightarrow> length cmd \<le> 1024 \<Longrightarrow>
    check_cmd ce (c_snap c) cmd (sv_world s) = (res, w') \<Longrightarrow>
    sv_step key s [ConsoleReply n res] (s\<lparr>sv_world := w', sv_conns := (sv_conns s)(n := None)\<rparr>)"
| silent: "sv_conns s n = Some c \<Longrightarrow> c_kind c \<in> {NatConn, ConsoleConn} \<Longrightarrow>
    sv_step key s [] (s\<lparr>sv_conns := (sv_conns s)(n := None)\<rparr>)"
| checked: "rs0 \<in> set (sv_checks s) \<Longrightarrow> distinct order \<Longrightarrow> set order = {..<length rs0} \<Longrightarrow>
    sv_step key s [] (s\<lparr>sv_checks := remove1 rs0 (sv_checks s),
                       sv_world := check_relay_servers connects order rs0 (sv_world s)\<rparr>)"

inductive sv_run :: "string \<Rightarrow> server \<Rightarrow> output_event list \<Rightarrow> server \<Rightarrow> bool" for key where
  start: "sv_run key s [] s"
| step: "sv_run key s out s' \<Longrightarrow> sv_step key s' out' s'' \<Longrightarrow> sv_run key s (out @ out') s''"

definition new_sv :: "world \<Rightarrow> server" where
  "new_sv w = \<lparr>sv_world = w, sv_conns = Map.empty, sv_next = 0, sv_checks = []\<rparr>"

section \<open>Ownership\<close>

definition serving :: "conn_kind \<Rightarrow> bool" where
  "serving k \<longleftrightarrow> k \<in> {PlainConn, WsConn, VlessConn}"

text \<open>The tables of the server fit its connections: numbers are not used twice, a connection holds its
  own write half or none, \<open>tcp_senders\<close> lists tunnels under their addresses, and a write half that
  waits in \<open>tcp_punch\<close> belongs to a connection with that address, which does not hold it.\<close>

definition conns_ok ::
    "nat \<Rightarrow> (nat \<rightharpoonup> conn) \<Rightarrow> (socket_addr \<rightharpoonup> nat) \<Rightarrow> (socket_addr \<rightharpoonup> sink) \<Rightarrow> bool" where
  "conns_ok nx cs senders punch \<longleftrightarrow>
     (\<forall>n \<ge> nx. cs n = None) \<and>
     (\<forall>n c. cs n = Some c \<longrightarrow> c_sink c = None \<or> c_sink c = Some (own_sink (c_kind c) n)) \<and>
     (\<forall>k n. senders k = Some n \<longrightarrow> (\<exists>c. cs n = Some c \<and> c_kind c = VlessConn \<and> conn_key c = k)) \<and>
     (\<forall>k sk. punch k = Some sk \<longrightarrow>
        (\<exists>n c. cs n = Some c \<and> serving (c_kind c) \<and> sk = own_sink (c_kind c) n \<and> c_sink c = None \<and> conn_key c = k))"

definition sv_ok :: "server \<Rightarrow> bool" where
  "sv_ok s \<longleftrightarrow> conns_ok (sv_next s) (sv_conns s) (w_tcp_senders (sv_world s)) (w_tcp_punch (sv_world s))"

lemma conns_okD:
  assumes "conns_ok nx cs se pu"
  shows "nx \<le> n \<Longrightarrow> cs n = None" "cs n = Some c \<Longrightarrow> c_sink c = None \<or> c_sink c = Some (own_sink (c_kind c) n)"
    "se k = Some m \<Longrightarrow> \<exists>c. cs m = Some c \<and> c_kind c = VlessConn \<and> conn_key c = k"
    "pu k = Some sk \<Longrightarrow>
       \<exists>n c. cs n = Some c \<and> serving (c_kind c) \<and> sk = own_sink (c_kind c) n \<and> c_sink c = None \<and> conn_key c = k"
  using assms by (auto simp: conns_ok_def)

lemma own_sink_inject [simp]: "own_sink k n = own_sink k' n' \<longleftrightarrow> n = n' \<and> (k = WsConn \<longleftrightarrow> k' = WsConn)"
  by (auto simp: own_sink_def)

lemma conns_ok_mono:
  assumes "conns_ok nx cs se pu" "se' \<subseteq>\<^sub>m se" "pu' \<subseteq>\<^sub>m pu"
  shows "conns_ok nx cs se' pu'"
proof -
  have "se' k = Some m \<Longrightarrow> se k = Some m" "pu' k = Some sk \<Longrightarrow> pu k = Some sk" for k m sk
    using assms(2,3) by (metis domI map_le_def)+
  then show ?thesis using assms(1) unfolding conns_ok_def by blast
qed

lemma conns_ok_park:
  assumes "conns_ok nx cs se pu" "cs n = Some c" "c_sink c = Some sk" "serving (c_kind c)"
  shows "conns_ok nx (cs(n \<mapsto> c\<lparr>c_sink := None\<rparr>)) se (pu(conn_key c \<mapsto> sk))"
proof -
  have sk: "sk = own_sink (c_kind c) n" using conns_okD(2) [OF assms(1,2)] assms(3) by auto
  have n: "n < nx" using conns_okD(1) [OF assms(1), of n] assms(2) by (cases "n < nx") auto
  show ?thesis
    unfolding conns_ok_def
  proof (intro conjI allI impI)
    fix k sk' assume k: "(pu(conn_key c \<mapsto> sk)) k = Some sk'"
    show "\<exists>m d. (cs(n \<mapsto> c\<lparr>c_sink := None\<rparr>)) m = Some d \<and> serving (c_kind d) \<and> sk' = own_sink (c_kind d) m \<and>
        c_sink d = None \<and> conn_key d = k"
    proof (cases "k = conn_key c")
      case True
      then show ?thesis using k sk assms(4) by (intro exI [of _ n]) (simp add: conn_key_def)
    next
      case False
      then obtain m d where "cs m = Some d" "serving (c_kind d)" "sk' = own_sink (c_kind d) m" "c_sink d = None" "conn_key d = k"
        using k conns_okD(4) [OF assms(1), of k sk'] by auto
      then show ?thesis using assms(2,3) by (intro exI [of _ m]) auto
    qed
  next
    fix k m assume "se k = Some m"
    then show "\<exists>d. (cs(n \<mapsto> c\<lparr>c_sink := None\<rparr>)) m = Some d \<and> c_kind d = VlessConn \<and> conn_key d = k"
      using conns_okD(3) [OF assms(1), of k m] assms(2) by (auto simp: conn_key_def)
  qed (use n assms(2) conns_okD [OF assms(1)] in \<open>auto split: if_splits\<close>)
qed

lemma conns_ok_remove:
  assumes "conns_ok nx cs se pu" "cs n = Some c"
    and "c_kind c = VlessConn \<Longrightarrow> se' = se(conn_key c := None)" "c_kind c \<noteq> VlessConn \<Longrightarrow> se' = se"
    and "c_sink c = None \<Longrightarrow> pu' = pu(conn_key c := None)" "c_sink c \<noteq> None \<Longrightarrow> pu' = pu"
  shows "conns_ok nx (cs(n := None)) se' pu'"
  unfolding conns_ok_def
proof (intro conjI allI impI)
  fix k m assume k: "se' k = Some m"
  then have "se k = Some m" using assms(3,4) by (cases "c_kind c = VlessConn") (auto split: if_splits)
  then obtain d where d: "cs m = Some d" "c_kind d = VlessConn" "conn_key d = k" using conns_okD(3) [OF assms(1)] by auto
  moreover have "m \<noteq> n" using d k assms(2,3) by auto
  ultimately show "\<exists>d. (cs(n := None)) m = Some d \<and> c_kind d = VlessConn \<and> conn_key d = k" by simp
next
  fix k sk assume k: "pu' k = Some sk"
  then have "pu k = Some sk" using assms(5,6) by (cases "c_sink c = None") (auto split: if_splits)
  then obtain m d where d: "cs m = Some d" "serving (c_kind d)" "sk = own_sink (c_kind d) m" "c_sink d = None" "conn_key d = k"
    using conns_okD(4) [OF assms(1)] by blast
  moreover have "m \<noteq> n" using d k assms(2,5) by auto
  ultimately show "\<exists>m d. (cs(n := None)) m = Some d \<and> serving (c_kind d) \<and> sk = own_sink (c_kind d) m \<and> c_sink d = None \<and> conn_key d = k"
    by (intro exI [of _ m]) simp
qed (use conns_okD(1,2) [OF assms(1)] in \<open>auto split: if_splits\<close>)

lemma conns_ok_cong:
  assumes "conns_ok nx cs se pu"
    and "\<And>n. map_option (\<lambda>c. (c_kind c, c_addr c, c_sink c)) (cs' n) = map_option (\<lambda>c. (c_kind c, c_addr c, c_sink c)) (cs n)"
  shows "conns_ok nx cs' se pu"
proof -
  have eq: "cs n = None \<longleftrightarrow> cs' n = None" for n using assms(2) [of n] by (cases "cs n"; cases "cs' n") auto
  have same: "\<exists>c. cs n = Some c \<and> c_kind c = c_kind c' \<and> c_sink c = c_sink c' \<and> conn_key c = conn_key c'"
    if "cs' n = Some c'" for n c'
    using assms(2) [of n] that by (cases "cs n") (auto simp: conn_key_def)
  have same': "\<exists>c'. cs' n = Some c' \<and> c_kind c = c_kind c' \<and> c_sink c = c_sink c' \<and> conn_key c = conn_key c'"
    if "cs n = Some c" for n c
    using assms(2) [of n] that by (cases "cs' n") (auto simp: conn_key_def)
  show ?thesis
    unfolding conns_ok_def
  proof (intro conjI allI impI)
    fix n c' assume "cs' n = Some c'"
    then show "c_sink c' = None \<or> c_sink c' = Some (own_sink (c_kind c') n)"
      using same conns_okD(2) [OF assms(1), of n] by fastforce
  next
    fix k m assume "se k = Some m"
    then show "\<exists>d. cs' m = Some d \<and> c_kind d = VlessConn \<and> conn_key d = k"
      using conns_okD(3) [OF assms(1)] same' by fastforce
  next
    fix k sk assume "pu k = Some sk"
    then obtain m d where "cs m = Some d" "serving (c_kind d)" "sk = own_sink (c_kind d) m" "c_sink d = None" "conn_key d = k"
      using conns_okD(4) [OF assms(1)] by blast
    then show "\<exists>m d. cs' m = Some d \<and> serving (c_kind d) \<and> sk = own_sink (c_kind d) m \<and> c_sink d = None \<and> conn_key d = k"
      using same' by fastforce
  qed (use conns_okD(1) [OF assms(1)] eq in auto)
qed

section \<open>Every step keeps the tables in order\<close>

lemma handle_udp_tables:
  assumes "handle_udp e bs addr w = (ok, w', out)"
  shows "w_tcp_senders w' = w_tcp_senders w" "w_tcp_punch w' = w_tcp_punch w"
proof -
  have "w_tcp_senders w' = w_tcp_senders w \<and> w_tcp_punch w' = w_tcp_punch w"
    if "udp_branch e msg addr w = (ms, w')" for msg ms
    using that
    by (auto simp: udp_branch_def update_addr_def udp_register_pk_def register_bookkeeping_def Let_def
        split: rmsg.splits if_splits option.splits prod.splits bool.splits id_decision.splits)
  with handle_udp_branch [OF assms]
  show "w_tcp_senders w' = w_tcp_senders w" "w_tcp_punch w' = w_tcp_punch w" by auto
qed

lemma main_recv_tables:
  "main_recv e d w = (w', out) \<Longrightarrow> w_tcp_senders w' = w_tcp_senders w \<and> w_tcp_punch w' = w_tcp_punch w"
  by (auto simp: main_recv_def split: data.splits option.splits)

lemma enqueue_conn: "map_option (\<lambda>c. (c_kind c, c_addr c, c_sink c)) (fold enqueue out cs n) =
    map_option (\<lambda>c. (c_kind c, c_addr c, c_sink c)) (cs n)"
proof (induction out arbitrary: cs)
  case (Cons x out)
  have "map_option (\<lambda>c. (c_kind c, c_addr c, c_sink c)) (enqueue x cs n) =
      map_option (\<lambda>c. (c_kind c, c_addr c, c_sink c)) (cs n)"
    by (cases x) (auto split: option.splits)
  with Cons show ?case by simp
qed simp

text \<open>A frame: the write half stays, or it is parked; waiting write halves only become fewer.\<close>

lemma handle_tcp_tables:
  assumes "handle_tcp e s bs sink addr key ws v w = (k, sink', w', out)"
  shows "w_tcp_senders w' = w_tcp_senders w"
    "sink' = sink \<and> w_tcp_punch w' \<subseteq>\<^sub>m w_tcp_punch w \<or>
     sink' = None \<and> w_tcp_punch w' \<subseteq>\<^sub>m w_tcp_punch (park_sink sink addr w)"
proof -
  have upd: "m(x := None) \<subseteq>\<^sub>m m" for m :: "socket_addr \<rightharpoonup> sink" and x by (simp add: map_le_def)
  have "w_tcp_senders w' = w_tcp_senders w \<and>
      (sink' = sink \<and> w_tcp_punch w' \<subseteq>\<^sub>m w_tcp_punch w \<or>
       sink' = None \<and> w_tcp_punch w' \<subseteq>\<^sub>m w_tcp_punch (park_sink sink addr w))"
    using handle_tcp_branch [OF assms]
  proof (elim disjE exE conjE)
    fix msg
    assume "tcp_branch e s msg sink addr key ws v w = (k, sink', w', out)"
    then show ?thesis
      by (cases rule: tcp_branch_cases) (use upd in \<open>auto simp: answers_waiting_def\<close>)
  qed simp
  then show "w_tcp_senders w' = w_tcp_senders w"
    "sink' = sink \<and> w_tcp_punch w' \<subseteq>\<^sub>m w_tcp_punch w \<or>
     sink' = None \<and> w_tcp_punch w' \<subseteq>\<^sub>m w_tcp_punch (park_sink sink addr w)" by auto
qed

lemma frame_conns_ok:
  assumes "conns_ok nx cs (w_tcp_senders w) (w_tcp_punch w)" "cs n = Some c" "serving (c_kind c)"
    and "handle_tcp e s bs (c_sink c) (c_addr c) key ws v w = (k, sink', w', out)"
  shows "conns_ok nx (cs(n \<mapsto> c\<lparr>c_sink := sink'\<rparr>)) (w_tcp_senders w') (w_tcp_punch w')"
  using handle_tcp_tables(2) [OF assms(4)]
proof (elim disjE conjE)
  assume keep: "sink' = c_sink c" and le: "w_tcp_punch w' \<subseteq>\<^sub>m w_tcp_punch w"
  have "cs(n \<mapsto> c\<lparr>c_sink := sink'\<rparr>) = cs" using keep assms(2) by auto
  then show ?thesis
    using conns_ok_mono [OF assms(1) map_le_refl le] handle_tcp_tables(1) [OF assms(4)] by simp
next
  assume none: "sink' = None" and le: "w_tcp_punch w' \<subseteq>\<^sub>m w_tcp_punch (park_sink (c_sink c) (c_addr c) w)"
  have "conns_ok nx (cs(n \<mapsto> c\<lparr>c_sink := None\<rparr>)) (w_tcp_senders w) (w_tcp_punch (park_sink (c_sink c) (c_addr c) w))"
  proof (cases "c_sink c")
    case None
    then have "cs(n \<mapsto> c\<lparr>c_sink := None\<rparr>) = cs" using assms(2) by auto
    then show ?thesis using assms(1) None by (simp add: park_sink_def)
  next
    case (Some sk)
    then show ?thesis using conns_ok_park [OF assms(1,2) Some assms(3)] by (simp add: park_sink_def conn_key_def)
  qed
  then show ?thesis
    using conns_ok_mono [OF _ map_le_refl le] handle_tcp_tables(1) [OF assms(4)] none by simp
qed

lemma close_conns_ok:
  assumes "conns_ok nx cs (w_tcp_senders w) (w_tcp_punch w)" "cs n = Some c"
  shows "conns_ok nx (cs(n := None)) (w_tcp_senders (close_conn c w)) (w_tcp_punch (close_conn c w))"
  by (rule conns_ok_remove [OF assms]) (auto simp: close_conn_def Let_def)

lemma turn_conns_ok:
  assumes "conns_ok nx cs (w_tcp_senders w) (w_tcp_punch w)" "cs n = Some c" "turn_possible w n c ev"
    and "conn_turn key e ev c w = (c', w', out)"
  shows "conns_ok nx (cs(n := c')) (w_tcp_senders w') (w_tcp_punch w')"
proof -
  have serving: "serving (c_kind c)" using assms(3) by (simp add: turn_possible_def serving_def)
  have stays: "conns_ok nx (cs(n \<mapsto> d)) (w_tcp_senders w) (w_tcp_punch w)"
    if "c_kind d = c_kind c" "c_addr d = c_addr c" "c_sink d = c_sink c" for d
    by (rule conns_ok_cong [OF assms(1)]) (simp add: that assms(2))
  have frame: "conns_ok nx (cs(n := c')) (w_tcp_senders w') (w_tcp_punch w')"
    if "conn_frame key e bs c w = (c', w', out)" for bs
  proof -
    obtain k sink w1 out1 where h: "handle_tcp e (c_snap c) bs (c_sink c) (c_addr c) key (c_kind c = WsConn)
        (c_kind c = VlessConn) w = (k, sink, w1, out1)" by (metis surj_pair)
    note ok = frame_conns_ok [OF assms(1,2) serving h]
    show ?thesis
      using that h ok close_conns_ok [OF ok, of n "c\<lparr>c_sink := sink\<rparr>"]
      by (cases k) (auto simp: conn_frame_def)
  qed
  show ?thesis
  proof (cases ev)
    case (Frame bs)
    then show ?thesis
      using assms(4) frame [of bs] stays [of c] by (auto simp: conn_turn_def split: if_splits)
  next
    case Pushed
    then show ?thesis using assms(4) stays by (auto simp: conn_turn_def split: list.splits)
  qed (use assms(4) stays close_conns_ok [OF assms(1,2)] in \<open>auto simp: conn_turn_def\<close>)
qed

lemma conns_ok_drop:
  assumes "conns_ok nx cs se pu" "cs n = Some c" "\<not> serving (c_kind c)"
  shows "conns_ok nx (cs(n := None)) se pu"
  unfolding conns_ok_def
proof (intro conjI allI impI)
  fix k m assume "se k = Some m"
  then obtain d where "cs m = Some d" "c_kind d = VlessConn" "conn_key d = k" using conns_okD(3) [OF assms(1)] by blast
  moreover from this have "m \<noteq> n" using assms(2,3) by (auto simp: serving_def)
  ultimately show "\<exists>d. (cs(n := None)) m = Some d \<and> c_kind d = VlessConn \<and> conn_key d = k" by simp
next
  fix k sk assume "pu k = Some sk"
  then obtain m d where "cs m = Some d" "serving (c_kind d)" "sk = own_sink (c_kind d) m" "c_sink d = None" "conn_key d = k"
    using conns_okD(4) [OF assms(1)] by blast
  moreover from this have "m \<noteq> n" using assms(2,3) by auto
  ultimately show "\<exists>m d. (cs(n := None)) m = Some d \<and> serving (c_kind d) \<and> sk = own_sink (c_kind d) m \<and> c_sink d = None \<and> conn_key d = k"
    by (intro exI [of _ m]) simp
qed (use conns_okD(1,2) [OF assms(1)] in \<open>auto split: if_splits\<close>)

lemma conns_ok_fresh:
  assumes "conns_ok nx cs se pu" "c_sink c = Some (own_sink (c_kind c) nx)"
    and "se' = (if c_kind c = VlessConn then se(conn_key c \<mapsto> nx) else se)"
  shows "conns_ok (Suc nx) (cs(nx \<mapsto> c)) se' pu"
proof -
  have fresh: "m \<noteq> nx" if "cs m = Some d" for m d using that conns_okD(1) [OF assms(1), of m] by auto
  show ?thesis
    unfolding conns_ok_def
  proof (intro conjI allI impI)
    fix k m assume "se' k = Some m"
    then have "k = conn_key c \<and> m = nx \<and> c_kind c = VlessConn \<or> se k = Some m"
      using assms(3) by (auto split: if_splits)
    then show "\<exists>d. (cs(nx \<mapsto> c)) m = Some d \<and> c_kind d = VlessConn \<and> conn_key d = k"
      using conns_okD(3) [OF assms(1), of k m] fresh by auto
  next
    fix k sk assume "pu k = Some sk"
    then obtain m d where "cs m = Some d" "serving (c_kind d)" "sk = own_sink (c_kind d) m" "c_sink d = None" "conn_key d = k"
      using conns_okD(4) [OF assms(1)] by blast
    then show "\<exists>m d. (cs(nx \<mapsto> c)) m = Some d \<and> serving (c_kind d) \<and> sk = own_sink (c_kind d) m \<and> c_sink d = None \<and> conn_key d = k"
      using fresh by (intro exI [of _ m]) auto
  qed (use assms(2) conns_okD(1,2) [OF assms(1)] in \<open>auto split: if_splits\<close>)
qed

lemma open_conn_ok:
  assumes "sv_ok s"
  shows "sv_ok (open_conn l addr h s)"
proof -
  let ?k = "accept_kind l addr" and ?n = "sv_next s" and ?w = "sv_world s"
  let ?c = "\<lparr>c_kind = ?k, c_addr = (if ?k = WsConn then ws_real_addr h addr else addr),
    c_sink = Some (own_sink ?k ?n), c_snap = w_main ?w, c_inbox = []\<rparr>"
  let ?se = "if c_kind ?c = VlessConn then (w_tcp_senders ?w)(conn_key ?c \<mapsto> ?n) else w_tcp_senders ?w"
  have "conns_ok (Suc ?n) ((sv_conns s)(?n \<mapsto> ?c)) ?se (w_tcp_punch ?w)"
    by (rule conns_ok_fresh [OF assms [unfolded sv_ok_def]]) simp_all
  then show ?thesis by (auto simp: sv_ok_def open_conn_def Let_def split: if_splits)
qed

lemma io_turn_ok:
  assumes "sv_ok s" "io_turn e ev s = (f, s', out)"
  shows "sv_ok s'"
proof (cases ev)
  case Received
  show ?thesis
  proof (cases "w_tx (sv_world s)")
    case Nil
    then show ?thesis using assms Received by (simp add: io_turn_def)
  next
    case (Cons d ds)
    obtain w1 out1 where r: "main_recv e d (sv_world s\<lparr>w_tx := ds\<rparr>) = (w1, out1)" by fastforce
    have "conns_ok (sv_next s) (fold enqueue out1 (sv_conns s)) (w_tcp_senders (sv_world s)) (w_tcp_punch (sv_world s))"
      by (rule conns_ok_cong [OF assms(1) [unfolded sv_ok_def]]) (rule enqueue_conn)
    then show ?thesis
      using assms(2) Received Cons r main_recv_tables [OF r] by (auto simp: io_turn_def sv_ok_def)
  qed
next
  case (UdpDatagram bs addr)
  obtain ok w1 out1 where u: "handle_udp e bs addr (sv_world s) = (ok, w1, out1)" by (metis surj_pair)
  then show ?thesis
    using assms UdpDatagram handle_udp_tables [OF u] by (auto simp: io_turn_def sv_ok_def)
next
  case (Accepted l addr h)
  then show ?thesis using assms open_conn_ok by (auto simp: io_turn_def split: if_splits)
qed (use assms in \<open>auto simp: io_turn_def sv_ok_def Let_def split: if_splits\<close>)

lemma sv_step_ok:
  assumes "sv_step key s out s'" "sv_ok s"
  shows "sv_ok s'"
  using assms
proof (cases rule: sv_step.cases)
  case (main e ev f out)
  then show ?thesis using io_turn_ok assms(2) by blast
next
  case (turn n c ev e c' w' out)
  then show ?thesis
    using turn_conns_ok [of "sv_next s" "sv_conns s" "sv_world s" n c ev key e c' w'] assms(2) by (simp add: sv_ok_def)
next
  case (nat_test n c e bs)
  then show ?thesis using conns_ok_drop assms(2) by (simp add: sv_ok_def serving_def)
next
  case (console n c cmd ce res w')
  then show ?thesis
    using conns_ok_drop [of "sv_next s" "sv_conns s" _ _ n c] check_cmd_frame [OF console(6)] assms(2)
    by (simp add: sv_ok_def serving_def)
next
  case (silent n c)
  then show ?thesis
    using conns_ok_drop [of "sv_next s" "sv_conns s" _ _ n c] assms(2) by (auto simp: sv_ok_def serving_def)
next
  case (checked rs0 order connects)
  then show ?thesis using assms(2) by (auto simp: sv_ok_def check_relay_servers_def to_tx_def Let_def)
qed

section \<open>Where messages go\<close>

lemma handle_tcp_sends:
  assumes "handle_tcp e s bs sink addr key ws v w = (k, sink', w', out)" "SinkSend sk m \<in> set out"
  shows "sink = Some sk \<or> sk \<in> ran (w_tcp_punch w)"
proof -
  have sends: "x = Some sk" if "SinkSend sk m \<in> set (send_to_sink x m')" for x m'
    using that by (auto simp: send_to_sink_def split: option.splits)
  have parked: "sink = Some sk \<or> sk \<in> ran (w_tcp_punch w)"
    if "w_tcp_punch (park_sink sink addr w) a = Some sk" for a
    using that by (auto simp: park_sink_def intro: ranI split: option.splits if_splits)
  from handle_tcp_branch [OF assms(1)] show ?thesis
  proof (elim disjE exE conjE)
    fix msg
    assume "tcp_branch e s msg sink addr key ws v w = (k, sink', w', out)"
    then show ?thesis
    proof (cases rule: tcp_branch_cases)
      case answered
      then show ?thesis using assms(2) sends by (auto simp: answers_waiting_def intro!: ranI)
    qed (use assms(2) sends parked in auto)
  qed (use assms(2) in simp)
qed

lemma handle_udp_sends: "handle_udp e bs addr w = (ok, w', out) \<Longrightarrow> SinkSend sk m \<notin> set out"
proof -
  have "udp_sends e ms = (ok, out) \<Longrightarrow> SinkSend sk m \<notin> set out" for ms ok out
    by (induction e ms arbitrary: ok out rule: udp_sends.induct) (auto simp: Let_def split: if_splits prod.splits)
  then show "handle_udp e bs addr w = (ok, w', out) \<Longrightarrow> ?thesis" using handle_udp_branch by fastforce
qed

lemma turn_sends:
  assumes "conns_ok nx cs (w_tcp_senders w) (w_tcp_punch w)" "cs n = Some c"
    and "conn_turn key e ev c w = (c', w', out)" "SinkSend sk m \<in> set out"
  shows "\<exists>n c. cs n = Some c \<and> sk = own_sink (c_kind c) n"
proof -
  have own: ?thesis if "c_sink c = Some sk" using that conns_okD(2) [OF assms(1,2)] assms(2) by auto
  have wait: ?thesis if "sk \<in> ran (w_tcp_punch w)" using that conns_okD(4) [OF assms(1)] by (fastforce simp: ran_def)
  have frame: ?thesis if "conn_frame key e bs c w = (c', w', out)" for bs
  proof -
    obtain k sink w1 out1 where h: "handle_tcp e (c_snap c) bs (c_sink c) (c_addr c) key (c_kind c = WsConn)
        (c_kind c = VlessConn) w = (k, sink, w1, out1)" by (metis surj_pair)
    with that have "out1 = out" by (auto simp: conn_frame_def Let_def split: if_splits)
    then have "c_sink c = Some sk \<or> sk \<in> ran (w_tcp_punch w)" using handle_tcp_sends [OF h] assms(4) by simp
    then show ?thesis using own wait by (elim disjE)
  qed
  show ?thesis
  proof (cases ev)
    case (Frame bs)
    then show ?thesis using assms(3,4) frame [of bs] by (auto simp: conn_turn_def split: if_splits)
  next
    case Pushed
    then show ?thesis
      using assms(3,4) own by (auto simp: conn_turn_def split: list.splits option.splits sink.splits)
  next
    case Heartbeat
    then show ?thesis using assms(3,4) own by (auto simp: conn_turn_def send_to_sink_def split: option.splits)
  qed (use assms(3,4) in \<open>auto simp: conn_turn_def\<close>)
qed

lemma sv_step_sends:
  assumes "sv_step key s out s'" "sv_ok s" "Sent (SinkSend sk m) \<in> set out"
  shows "\<exists>n c. sv_conns s n = Some c \<and> sk = own_sink (c_kind c) n"
  using assms(1)
proof (cases rule: sv_step.cases)
  case (main e ev f out1)
  have "SinkSend sk m \<in> set out1" using main(1) assms(3) by (auto split: option.splits)
  moreover have "SinkSend sk m \<notin> set out1"
  proof (cases ev)
    case Received
    then show ?thesis
      using main(2) by (auto simp: io_turn_def main_recv_def Let_def split: list.splits data.splits option.splits if_splits)
  next
    case (UdpDatagram bs addr)
    obtain ok w1 out2 where u: "handle_udp e bs addr (sv_world s) = (ok, w1, out2)" by (metis surj_pair)
    with main(2) UdpDatagram handle_udp_sends [OF u] show ?thesis by (auto simp: io_turn_def)
  qed (use main(2) in \<open>auto simp: io_turn_def Let_def\<close>)
  ultimately show ?thesis by simp
next
  case (turn n c ev e c' w' out1)
  have "SinkSend sk m \<in> set out1" using turn(1) assms(3) by auto
  from turn_sends [OF assms(2) [unfolded sv_ok_def] turn(3,5) this] show ?thesis .
next
  case (nat_test n c e bs)
  have "sk = TcpStreamSink n"
    using nat_test(1) assms(3) by (auto simp: listener2_reply_def split: option.splits rmsg.splits)
  then show ?thesis using nat_test(3,4) by (intro exI [of _ n] exI [of _ c]) (simp add: own_sink_def)
qed (use assms(3) in auto)

text \<open>All the messages in the queue of a tunnel, pushed one after the other.\<close>

fun push_all :: "string \<Rightarrow> env \<Rightarrow> nat \<Rightarrow> conn \<Rightarrow> world \<Rightarrow> conn option \<times> world \<times> effect list" where
  "push_all key e 0 c w = (Some c, w, [])"
| "push_all key e (Suc k) c w =
     (case conn_turn key e Pushed c w of
        (Some c', w', out) \<Rightarrow> (let (c'', w'', out') = push_all key e k c' w' in (c'', w'', out @ out'))
      | r \<Rightarrow> r)"

lemma push_all_queue:
  assumes "c_sink c = None \<or> c_sink c = Some (TcpStreamSink n)"
  shows "push_all key e (length (c_inbox c)) c w =
    (Some (c\<lparr>c_inbox := []\<rparr>), w,
     if c_sink c = None then [] else map (SinkSend (TcpStreamSink n)) (c_inbox c))"
  using assms
proof (induction "c_inbox c" arbitrary: c)
  case (Cons m ms)
  have "push_all key e (length (c_inbox (c\<lparr>c_inbox := ms\<rparr>))) (c\<lparr>c_inbox := ms\<rparr>) w =
    (Some (c\<lparr>c_inbox := []\<rparr>), w, if c_sink c = None then [] else map (SinkSend (TcpStreamSink n)) ms)"
    using Cons(1) [of "c\<lparr>c_inbox := ms\<rparr>"] Cons(3) by simp
  then show ?case using Cons(3) by (auto simp: conn_turn_def simp flip: Cons(2))
qed simp

lemma sv_run_ok:
  assumes "sv_run key s out s'" "sv_ok s"
  shows "sv_ok s'"
  using assms by (induction rule: sv_run.induct) (auto dest: sv_step_ok)

lemma new_sv_ok: "sv_ok (new_sv (new_world args db main))"
  by (simp add: sv_ok_def conns_ok_def new_sv_def new_world_def)

text \<open>A write half that a tunnel gave away for a request does not come back: until it is closed, the
  connection has none, and pushed messages and heartbeats are dropped.\<close>

lemma parked_for_good:
  assumes "sv_step key s out s'" "sv_ok s" "sv_conns s n = Some c" "c_sink c = None"
  shows "sv_conns s' n = None \<or> (\<exists>c'. sv_conns s' n = Some c' \<and> c_sink c' = None)"
proof -
  have keep: ?thesis if "map_option (\<lambda>c. (c_kind c, c_addr c, c_sink c)) (sv_conns s' n) =
      map_option (\<lambda>c. (c_kind c, c_addr c, c_sink c)) (sv_conns s n)"
    using that assms(3,4) by auto
  from assms(1) show ?thesis
  proof (cases rule: sv_step.cases)
    case (main e ev f out1)
    have "n \<noteq> sv_next s" using conns_okD(1) [OF assms(2) [unfolded sv_ok_def], of "sv_next s"] assms(3) by auto
    then show ?thesis
      using main(2) keep enqueue_conn [of _ "sv_conns s" n] assms(3,4)
      by (cases ev) (auto simp: io_turn_def open_conn_def Let_def split: list.splits prod.splits if_splits)
  next
    case (turn m d ev e c' w' out1)
    have "c' = None \<or> (\<exists>d'. c' = Some d' \<and> c_sink d' = None)" if "m = n"
      using turn assms(3,4) that handle_tcp_tables(2)
      by (cases ev) (auto simp: conn_turn_def conn_frame_def Let_def split: if_splits prod.splits list.splits; fastforce)+
    then show ?thesis using turn(2) assms(3,4) by auto
  qed (use assms(3,4) in auto)
qed

text \<open>A connection keeps the snapshot it started with: a tunnel that stays open for days never sees a new
  list of relay servers.\<close>

lemma snapshot_stays:
  assumes "conn_turn key e ev c w = (Some c', w', out)"
  shows "c_snap c' = c_snap c"
  using assms
  by (cases ev) (auto simp: conn_turn_def conn_frame_def Let_def split: if_splits prod.splits list.splits)

text \<open>Behind a reverse proxy, WebSocket clients with one public address share their key in
  \<open>tcp_punch\<close>: the port of the real address is always 0, and the request of the second client
  drops the write half of the first.\<close>

lemma ws_clients_share_key:
  assumes "h_real_ip h = Some (Some ''1.2.3.4'')"
  shows "ws_real_addr h a = SockV4 0x01020304 0"
    "w_tcp_punch (park_sink (Some second) (ws_real_addr h b) (park_sink (Some first) (ws_real_addr h a) w)) =
     (w_tcp_punch w)(SockV4 0x01020304 0 \<mapsto> second)"
proof -
  have "parse_socket_addr ''1.2.3.4:0'' = Some (SockV4 0x01020304 0)" by (simp add: addr_eval)
  then have "ws_real_addr h x = SockV4 0x01020304 0" for x using assms by (simp add: ws_real_addr_def)
  then show "ws_real_addr h a = SockV4 0x01020304 0"
    "w_tcp_punch (park_sink (Some second) (ws_real_addr h b) (park_sink (Some first) (ws_real_addr h a) w)) =
     (w_tcp_punch w)(SockV4 0x01020304 0 \<mapsto> second)" by (simp_all add: park_sink_def)
qed

section \<open>Properties\<close>

text \<open>C4. Every write half has one owner. In every state that the server reaches, with any number of
  connections of any kind opening, sending, being pushed to and closing in any order: a tunnel that is
  listed is open and has the listed address; a write half that waits for an answer belongs to an open
  connection with that address which does not hold it itself, and it waits in one place; and
  whatever the next step sends on a stream, it sends to a connection that is open.\<close>

theorem connections_owned:
  assumes "sv_run key (new_sv (new_world args db main)) out s"
  shows "(\<forall>k n. w_tcp_senders (sv_world s) k = Some n \<longrightarrow>
            (\<exists>c. sv_conns s n = Some c \<and> c_kind c = VlessConn \<and> conn_key c = k)) \<and>
    (\<forall>k sk. w_tcp_punch (sv_world s) k = Some sk \<longrightarrow>
       (\<exists>n c. sv_conns s n = Some c \<and> sk = own_sink (c_kind c) n \<and> c_sink c = None \<and> conn_key c = k)) \<and>
    inj_on (w_tcp_punch (sv_world s)) (dom (w_tcp_punch (sv_world s))) \<and>
    (\<forall>out' s' sk m. sv_step key s out' s' \<longrightarrow> Sent (SinkSend sk m) \<in> set out' \<longrightarrow>
       (\<exists>n c. sv_conns s n = Some c \<and> sk = own_sink (c_kind c) n))"
proof -
  have ok: "sv_ok s" using sv_run_ok [OF assms new_sv_ok] .
  note facts = conns_okD [OF ok [unfolded sv_ok_def]]
  have "k = k'" if "w_tcp_punch (sv_world s) k = Some sk" "w_tcp_punch (sv_world s) k' = Some sk" for k k' sk
    using facts(4) [OF that(1)] facts(4) [OF that(2)] by auto
  then have "inj_on (w_tcp_punch (sv_world s)) (dom (w_tcp_punch (sv_world s)))" by (auto simp: inj_on_def dom_def)
  moreover have "\<exists>n c. sv_conns s n = Some c \<and> sk = own_sink (c_kind c) n \<and> c_sink c = None \<and> conn_key c = k"
    if "w_tcp_punch (sv_world s) k = Some sk" for k sk using facts(4) [OF that] by blast
  ultimately show ?thesis using facts(3) sv_step_sends [OF _ ok] by blast
qed

theorem connections_owned_witness:
  "\<exists>s. sv_run [] (new_sv (new_world [] [] (plain_server []))) [] s \<and>
     w_tcp_senders (sv_world s) (SockV4 0x7F000001 5) = Some 0 \<and>
     (\<exists>c. sv_conns s 0 = Some c \<and> c_kind c = VlessConn)"
proof -
  let ?init = "new_sv (new_world [] [] (plain_server []))" and ?h = "\<lparr>h_real_ip = None, h_forwarded_for = None\<rparr>"
  let ?s = "open_conn VlessHbbsListener (SockV4 0x7F000001 5) ?h ?init"
  have "io_turn (plain_env 0 []) (Accepted VlessHbbsListener (SockV4 0x7F000001 5) ?h) ?init = (None, ?s, [])"
    by (simp add: io_turn_def)
  from sv_run.step [OF sv_run.start sv_step.main [OF this]] have run: "sv_run [] ?init [] ?s" by simp
  have "w_tcp_senders (sv_world ?s) (SockV4 0x7F000001 5) = Some 0"
    by (simp add: open_conn_def accept_kind_def new_sv_def conn_key_def Let_def)
  with connections_owned [OF run] run show ?thesis by blast
qed

text \<open>C28. A queued message takes the tunnel, and only a tunnel without its write half loses it. When
  the main loop takes a message for a peer off its queue, and the address of the peer is that of a
  tunnel, then the message is put at the end of the queue of that open connection; nothing goes out by
  UDP. Pushing the queue then sends its messages in order on the stream of the tunnel, unless the
  tunnel has given its write half away for a request of its own, when nothing is sent at all. For an
  address without a tunnel the message goes out by UDP, to that address.\<close>

theorem queued_message_delivered:
  assumes "sv_ok s" and "w_tx (sv_world s) = Msg m a # ds"
  shows "case w_tcp_senders (sv_world s) (try_into_v4 a) of
     None \<Rightarrow> \<exists>s'. io_turn e Received s = (None, s', if e_udp_ok e m a then [UdpSend m a] else []) \<and>
               sv_conns s' = sv_conns s \<and> w_tx (sv_world s') = ds
   | Some n \<Rightarrow> \<exists>s' c. io_turn e Received s = (None, s', [SenderSend n m]) \<and> w_tx (sv_world s') = ds \<and>
       sv_conns s n = Some c \<and> c_kind c = VlessConn \<and> conn_key c = try_into_v4 a \<and>
       sv_conns s' = (sv_conns s)(n \<mapsto> c\<lparr>c_inbox := c_inbox c @ [m]\<rparr>) \<and>
       push_all key e2 (Suc (length (c_inbox c))) (c\<lparr>c_inbox := c_inbox c @ [m]\<rparr>) w2 =
         (Some (c\<lparr>c_inbox := []\<rparr>), w2,
          if c_sink c = None then [] else map (SinkSend (TcpStreamSink n)) (c_inbox c @ [m]))"
proof (cases "w_tcp_senders (sv_world s) (try_into_v4 a)")
  case None
  then show ?thesis using assms(2) by (simp add: io_turn_def main_recv_def)
next
  case (Some n)
  obtain c where c: "sv_conns s n = Some c" "c_kind c = VlessConn" "conn_key c = try_into_v4 a"
    using conns_okD(3) [OF assms(1) [unfolded sv_ok_def] Some] by blast
  have "c_sink c = None \<or> c_sink c = Some (TcpStreamSink n)"
    using conns_okD(2) [OF assms(1) [unfolded sv_ok_def] c(1)] c(2) by (simp add: own_sink_def)
  then have "push_all key e2 (length (c_inbox (c\<lparr>c_inbox := c_inbox c @ [m]\<rparr>))) (c\<lparr>c_inbox := c_inbox c @ [m]\<rparr>) w2 =
      (Some (c\<lparr>c_inbox := []\<rparr>), w2, if c_sink c = None then [] else map (SinkSend (TcpStreamSink n)) (c_inbox c @ [m]))"
    using push_all_queue [of "c\<lparr>c_inbox := c_inbox c @ [m]\<rparr>" n key e2 w2] by simp
  then show ?thesis
    using assms(2) Some c by (simp add: io_turn_def main_recv_def del: push_all.simps)
qed

theorem queued_message_delivered_witness:
  "\<exists>s s' c. w_tcp_senders (sv_world s) (SockV4 0x7F000001 5) = Some 0 \<and>
     io_turn (plain_env 0 []) Received s = (None, s', [SenderSend 0 EmptyMessage]) \<and> sv_conns s 0 = Some c \<and>
     push_all [] (plain_env 1 []) 1 (c\<lparr>c_inbox := [EmptyMessage]\<rparr>) (sv_world s) =
       (Some c, sv_world s, [SinkSend (TcpStreamSink 0) EmptyMessage])"
proof -
  let ?init = "new_sv (new_world [] [] (plain_server [])\<lparr>w_tx := [Msg EmptyMessage (SockV4 0x7F000001 5)]\<rparr>)"
  let ?h = "\<lparr>h_real_ip = None, h_forwarded_for = None\<rparr>"
  let ?s = "open_conn VlessHbbsListener (SockV4 0x7F000001 5) ?h ?init"
  have "sv_ok ?init" by (simp add: sv_ok_def conns_ok_def new_sv_def new_world_def)
  then have ok: "sv_ok ?s" by (rule open_conn_ok)
  have tx: "w_tx (sv_world ?s) = Msg EmptyMessage (SockV4 0x7F000001 5) # []"
    by (simp add: open_conn_def accept_kind_def new_sv_def Let_def)
  have s: "w_tcp_senders (sv_world ?s) (SockV4 0x7F000001 5) = Some 0"
    by (simp add: open_conn_def accept_kind_def new_sv_def conn_key_def Let_def)
  have c: "c_inbox c = [] \<and> c_sink c \<noteq> None" if "sv_conns ?s 0 = Some c" for c
    using that by (auto simp: open_conn_def accept_kind_def new_sv_def Let_def)
  let ?w = "sv_world ?s"
  from queued_message_delivered [OF ok tx, of "plain_env 0 []" "[]" "plain_env 1 []" ?w]
  obtain s' d where d: "io_turn (plain_env 0 []) Received ?s = (None, s', [SenderSend 0 EmptyMessage])" "sv_conns ?s 0 = Some d"
    "push_all [] (plain_env 1 []) (Suc (length (c_inbox d))) (d\<lparr>c_inbox := c_inbox d @ [EmptyMessage]\<rparr>) ?w =
       (Some (d\<lparr>c_inbox := []\<rparr>), ?w, if c_sink d = None then [] else map (SinkSend (TcpStreamSink 0)) (c_inbox d @ [EmptyMessage]))"
    unfolding try_into_v4.simps s option.case by blast
  have "d\<lparr>c_inbox := []\<rparr> = d" "c_inbox d = []" "c_sink d \<noteq> None" using c [OF d(2)] by simp_all
  with d(3) have "push_all [] (plain_env 1 []) 1 (d\<lparr>c_inbox := [EmptyMessage]\<rparr>) ?w =
      (Some d, ?w, [SinkSend (TcpStreamSink 0) EmptyMessage])"
    by (simp del: push_all.simps)
  with s d(1,2) show ?thesis by blast
qed

end
