(* ===== verification/Rv_Race.thy ===== *)
theory Rv_Race
  imports Rv_Register
begin

text \<open>
  Registrations that run at the same time (\<open>server/src/peer.rs\<close> and the two handlers of \<open>RegisterPk\<close> in
  \<open>server/src/rendezvous_server.rs\<close>). Each connection has its own task, and a task gives way at every await: at each
  lock and at each statement of the database. Here a handler is a task with a program point, and one step of it is what
  happens under one lock or in one statement. A peer lives behind its own lock, in an \<open>Arc\<close> that stays alive while a task
  holds it, so the map leads from an id to an \<open>Arc\<close> and the peers are a store. The definitions of the other theories take
  a handler as one step; they are the runs of these tasks that nothing interrupts, as \<open>uninterrupted_registration_is_atomic\<close> shows. Keep-alives
  write the address and the time of a peer only; they are one kind of event. The main loop handles one datagram at a time;
  the model lets it handle several.
\<close>

section \<open>Shared state and tasks\<close>

text \<open>An \<open>Arc\<close> is named by the id it was made for and a serial number.\<close>

type_synonym arc = "string \<times> nat"

record shared =
  s_map :: "string \<rightharpoonup> arc"
  s_heap :: "arc \<Rightarrow> peer"
  s_next :: nat
  s_db :: database
  s_ip_blocker :: "string \<rightharpoonup> ip_block"
  s_ip_changes :: "string \<rightharpoonup> instant \<times> (string \<rightharpoonup> int)"

text \<open>Who calls: a tunnel or a datagram that registers, or another handler that looks a peer up with \<open>PeerMap::get\<close>.\<close>

datatype caller = Tunnel | Datagram | Lookup

datatype point =
  At_Start
| At_Blocker
| At_Map
| At_Select
| At_Insert peer
| At_Get_Or
| At_Check arc
| At_Limit arc bool bool
| At_Count arc bool bool "u32 \<times> instant"
| At_Note arc bool
| At_Update arc
| At_Store arc bytes string
| At_Guid arc bytes
| Finished "register_result option"

record task =
  t_caller :: caller
  t_rk :: register_pk
  t_addr :: socket_addr
  t_point :: point

abbreviation t_id :: "task \<Rightarrow> string" where "t_id t \<equiv> rk_id (t_rk t)"
abbreviation t_ip :: "task \<Rightarrow> string" where "t_ip t \<equiv> ip_to_string (sa_ip (t_addr t))"

definition new_task :: "caller \<Rightarrow> register_pk \<Rightarrow> socket_addr \<Rightarrow> task" where
  "new_task c rk addr = \<lparr>t_caller = c, t_rk = rk, t_addr = addr, t_point = At_Start\<rparr>"

definition put_heap :: "arc \<Rightarrow> peer \<Rightarrow> shared \<Rightarrow> shared" where
  "put_heap a p s = s\<lparr>s_heap := (s_heap s)(a := p)\<rparr>"

text \<open>A new \<open>Arc\<close> that is put into the map.\<close>

definition alloc :: "string \<Rightarrow> peer \<Rightarrow> shared \<Rightarrow> shared" where
  "alloc pid p s =
     s\<lparr>s_map := (s_map s)(pid \<mapsto> (pid, s_next s)), s_heap := (s_heap s)((pid, s_next s) := p), s_next := Suc (s_next s)\<rparr>"

definition found :: "caller \<Rightarrow> arc \<Rightarrow> point" where
  "found c a = (if c = Lookup then Finished None else At_Check a)"

definition db_answer :: "caller \<Rightarrow> register_result \<Rightarrow> register_result option" where
  "db_answer c res = Some (if c = Datagram then OK else res)"

section \<open>The steps\<close>

definition start_step :: "task \<Rightarrow> point" where
  "start_step t =
     (if t_caller t = Lookup then At_Map
      else if rk_uuid (t_rk t) = [] \<or> rk_pk (t_rk t) = []
      then Finished (if t_caller t = Tunnel then Some NOT_SUPPORT else None)
      else if length (t_id t) < 6 then Finished (Some UUID_MISMATCH)
      else if t_caller t = Datagram then At_Blocker
      else At_Map)"

definition blocker_step :: "'e db_env_scheme \<Rightarrow> task \<Rightarrow> shared \<Rightarrow> point \<times> shared" where
  "blocker_step e t s =
     (let (ok, b) = check_ip_blocker (e_now e) (t_ip t) (t_id t) (s_ip_blocker s) in
      (if ok then At_Map else Finished (Some TOO_FREQUENT), s\<lparr>s_ip_blocker := b\<rparr>))"

text \<open>\<open>PeerMap::get\<close> and \<open>PeerMap::get_or\<close>: read the map; ask the database; put what it has into the map, whatever is there
  by then; or take what is there by then, or put an empty peer.\<close>

definition map_step :: "task \<Rightarrow> shared \<Rightarrow> point" where
  "map_step t s = (case s_map s (t_id t) of Some a \<Rightarrow> found (t_caller t) a | None \<Rightarrow> At_Select)"

definition select_step :: "'e db_env_scheme \<Rightarrow> task \<Rightarrow> shared \<Rightarrow> point" where
  "select_step e t s =
     (case (if e_db_ok e then db_get_peer (t_id t) (s_db s) else None) of
        Some row \<Rightarrow> At_Insert (peer_of_row e row)
      | None \<Rightarrow> if t_caller t = Lookup then Finished None else At_Get_Or)"

definition insert_step :: "peer \<Rightarrow> task \<Rightarrow> shared \<Rightarrow> point \<times> shared" where
  "insert_step p t s = (found (t_caller t) (t_id t, s_next s), alloc (t_id t) p s)"

definition get_or_step :: "'e db_env_scheme \<Rightarrow> task \<Rightarrow> shared \<Rightarrow> point \<times> shared" where
  "get_or_step e t s =
     (case s_map s (t_id t) of
        Some a \<Rightarrow> (At_Check a, s)
      | None \<Rightarrow> (At_Check (t_id t, s_next s), alloc (t_id t) (default_peer (e_now e)) s))"

definition check_step :: "arc \<Rightarrow> task \<Rightarrow> shared \<Rightarrow> point" where
  "check_step a t s =
     (case (if t_caller t = Datagram then udp_identity else tcp_identity) (s_heap s a) (t_rk t) (t_ip t) of
        Mismatch \<Rightarrow> Finished (Some UUID_MISMATCH)
      | Proceed changed ip_changed \<Rightarrow> At_Limit a changed ip_changed)"

text \<open>The count of registrations is read under one lock and written back under another.\<close>

definition limit_step :: "'e db_env_scheme \<Rightarrow> arc \<Rightarrow> bool \<Rightarrow> bool \<Rightarrow> shared \<Rightarrow> point" where
  "limit_step e a changed ip_changed s =
     (case reg_pk_limit (e_now e) (p_reg_pk (s_heap s a)) of
        None \<Rightarrow> Finished (Some TOO_FREQUENT)
      | Some req_pk \<Rightarrow> At_Count a changed ip_changed req_pk)"

definition after_note :: "arc \<Rightarrow> bool \<Rightarrow> point" where
  "after_note a changed = (if changed then At_Update a else Finished (Some OK))"

definition count_step :: "arc \<Rightarrow> bool \<Rightarrow> bool \<Rightarrow> u32 \<times> instant \<Rightarrow> shared \<Rightarrow> point \<times> shared" where
  "count_step a changed ip_changed req_pk s =
     (if ip_changed then At_Note a changed else after_note a changed,
      put_heap a ((s_heap s a)\<lparr>p_reg_pk := req_pk\<rparr>) s)"

definition note_step :: "'e db_env_scheme \<Rightarrow> arc \<Rightarrow> bool \<Rightarrow> task \<Rightarrow> shared \<Rightarrow> point \<times> shared" where
  "note_step e a changed t s =
     (after_note a changed, s\<lparr>s_ip_changes := note_ip_change (e_now e) (t_id t) (t_ip t) (s_ip_changes s)\<rparr>)"

text \<open>\<open>PeerMap::update_pk\<close>: the peer is written first, then the database, then the guid of a new row.\<close>

definition update_step :: "'e db_env_scheme \<Rightarrow> arc \<Rightarrow> task \<Rightarrow> shared \<Rightarrow> point \<times> shared" where
  "update_step e a t s =
     (let p = s_heap s a;
          p = p\<lparr>p_socket_addr := t_addr t, p_uuid := rk_uuid (t_rk t), p_pk := rk_pk (t_rk t), p_last_reg_time := e_now e,
                p_info := (p_info p)\<lparr>pi_ip := t_ip t\<rparr>\<rparr>
      in (At_Store a (p_guid p) (e_info_str e (p_info p)), put_heap a p s))"

definition store_step :: "'e db_env_scheme \<Rightarrow> arc \<Rightarrow> bytes \<Rightarrow> string \<Rightarrow> task \<Rightarrow> shared \<Rightarrow> point \<times> shared" where
  "store_step e a guid info t s =
     (if guid = [] then
        (case (if e_db_ok e then db_insert_peer (e_guid e) (t_id t) (rk_uuid (t_rk t)) (rk_pk (t_rk t)) info (s_db s) else None) of
           None \<Rightarrow> (Finished (db_answer (t_caller t) SERVER_ERROR), s)
         | Some db \<Rightarrow> (At_Guid a (e_guid e), s\<lparr>s_db := db\<rparr>))
      else
        (case (if e_db_ok e then db_update_pk guid (t_id t) (rk_pk (t_rk t)) info (s_db s) else None) of
           None \<Rightarrow> (Finished (db_answer (t_caller t) SERVER_ERROR), s)
         | Some db \<Rightarrow> (Finished (Some OK), s\<lparr>s_db := db\<rparr>)))"

definition guid_step :: "arc \<Rightarrow> bytes \<Rightarrow> shared \<Rightarrow> point \<times> shared" where
  "guid_step a guid s = (Finished (Some OK), put_heap a ((s_heap s a)\<lparr>p_guid := guid\<rparr>) s)"

definition point_step :: "'e db_env_scheme \<Rightarrow> task \<Rightarrow> shared \<Rightarrow> point \<times> shared" where
  "point_step e t s =
     (case t_point t of
        At_Start \<Rightarrow> (start_step t, s)
      | At_Blocker \<Rightarrow> blocker_step e t s
      | At_Map \<Rightarrow> (map_step t s, s)
      | At_Select \<Rightarrow> (select_step e t s, s)
      | At_Insert p \<Rightarrow> insert_step p t s
      | At_Get_Or \<Rightarrow> get_or_step e t s
      | At_Check a \<Rightarrow> (check_step a t s, s)
      | At_Limit a changed ip_changed \<Rightarrow> (limit_step e a changed ip_changed s, s)
      | At_Count a changed ip_changed req_pk \<Rightarrow> count_step a changed ip_changed req_pk s
      | At_Note a changed \<Rightarrow> note_step e a changed t s
      | At_Update a \<Rightarrow> update_step e a t s
      | At_Store a guid info \<Rightarrow> store_step e a guid info t s
      | At_Guid a guid \<Rightarrow> guid_step a guid s
      | Finished res \<Rightarrow> (Finished res, s))"

definition task_step :: "'e db_env_scheme \<Rightarrow> task \<times> shared \<Rightarrow> task \<times> shared" where
  "task_step e ts =
     (let (pt, s) = point_step e (fst ts) (snd ts) in ((fst ts)\<lparr>t_point := pt\<rparr>, s))"

section \<open>Schedules\<close>

record race_system =
  y_tasks :: "nat \<rightharpoonup> task"
  y_shared :: shared

text \<open>\<open>Spawn\<close> starts a handler, \<open>Move\<close> lets it take a step, and \<open>Touch\<close> is the write of a keep-alive.\<close>

datatype race_event =
  Spawn nat caller register_pk socket_addr
| Move nat env
| Touch arc socket_addr instant

fun race_step :: "race_event \<Rightarrow> race_system \<Rightarrow> race_system" where
  "race_step (Spawn n c rk addr) y =
     (if y_tasks y n = None then y\<lparr>y_tasks := (y_tasks y)(n \<mapsto> new_task c rk addr)\<rparr> else y)"
| "race_step (Move n e) y =
     (case y_tasks y n of
        None \<Rightarrow> y
      | Some t \<Rightarrow> (let (t, s) = task_step e (t, y_shared y) in \<lparr>y_tasks = (y_tasks y)(n \<mapsto> t), y_shared = s\<rparr>))"
| "race_step (Touch a addr now) y =
     y\<lparr>y_shared := put_heap a ((s_heap (y_shared y) a)\<lparr>p_socket_addr := addr, p_last_reg_time := now\<rparr>) (y_shared y)\<rparr>"

definition race_run :: "race_event list \<Rightarrow> race_system \<Rightarrow> race_system" where
  "race_run evs y = fold race_step evs y"

text \<open>The server after its start: what it knows is in the database.\<close>

definition race_start :: "database \<Rightarrow> race_system" where
  "race_start db =
     \<lparr>y_tasks = Map.empty,
      y_shared = \<lparr>s_map = Map.empty, s_heap = (\<lambda>_. default_peer 0), s_next = 0, s_db = db, s_ip_blocker = Map.empty,
        s_ip_changes = Map.empty\<rparr>\<rparr>"

section \<open>What every schedule keeps\<close>

text \<open>The database keeps its rows, each with its guid, its id and its UUID.\<close>

definition rows_kept :: "database \<Rightarrow> database \<Rightarrow> bool" where
  "rows_kept db db' \<longleftrightarrow>
     (\<forall>r \<in> set db. \<exists>r' \<in> set db'. r_guid r' = r_guid r \<and> r_id r' = r_id r \<and> r_uuid r' = r_uuid r)"

text \<open>A guid that is held for an id is the guid of its row.\<close>

definition guid_known :: "database \<Rightarrow> string \<Rightarrow> bytes \<Rightarrow> bool" where
  "guid_known db pid guid \<longleftrightarrow> guid = [] \<or> (\<exists>r \<in> set db. r_guid r = guid \<and> r_id r = pid)"

fun point_arc :: "point \<Rightarrow> arc option" where
  "point_arc (At_Check a) = Some a"
| "point_arc (At_Limit a _ _) = Some a"
| "point_arc (At_Count a _ _ _) = Some a"
| "point_arc (At_Note a _) = Some a"
| "point_arc (At_Update a) = Some a"
| "point_arc (At_Store a _ _) = Some a"
| "point_arc (At_Guid a _) = Some a"
| "point_arc _ = None"

fun point_guid :: "point \<Rightarrow> bytes" where
  "point_guid (At_Insert p) = p_guid p"
| "point_guid (At_Store _ guid _) = guid"
| "point_guid (At_Guid _ guid) = guid"
| "point_guid _ = []"

definition shared_inv :: "shared \<Rightarrow> bool" where
  "shared_inv s \<longleftrightarrow>
     db_wf (s_db s) \<and>
     (\<forall>pid a. s_map s pid = Some a \<longrightarrow> fst a = pid \<and> snd a < s_next s) \<and>
     (\<forall>a. guid_known (s_db s) (fst a) (p_guid (s_heap s a)))"

definition task_inv :: "shared \<Rightarrow> task \<Rightarrow> bool" where
  "task_inv s t \<longleftrightarrow>
     (\<forall>a. point_arc (t_point t) = Some a \<longrightarrow> fst a = t_id t \<and> snd a < s_next s) \<and>
     guid_known (s_db s) (t_id t) (point_guid (t_point t))"

definition race_inv :: "race_system \<Rightarrow> bool" where
  "race_inv y \<longleftrightarrow> shared_inv (y_shared y) \<and> (\<forall>n t. y_tasks y n = Some t \<longrightarrow> task_inv (y_shared y) t)"

lemma rows_kept_refl [simp]: "rows_kept db db"
  by (auto simp: rows_kept_def)

lemma rows_kept_trans: "rows_kept a b \<Longrightarrow> rows_kept b c \<Longrightarrow> rows_kept a c"
  unfolding rows_kept_def by metis

lemma guid_known_kept: "guid_known db pid guid \<Longrightarrow> rows_kept db db' \<Longrightarrow> guid_known db' pid guid"
  unfolding guid_known_def rows_kept_def by metis

lemma guid_known_Nil [simp]: "guid_known db pid []"
  by (simp add: guid_known_def)

lemma insert_rows_kept:
  assumes "db_insert_peer guid pid uuid pk info db = Some db'"
  shows "rows_kept db db'" "guid_known db' pid guid"
  using assms by (auto simp: db_insert_peer_def rows_kept_def guid_known_def split: if_splits)

lemma update_rows_kept:
  assumes "db_update_pk guid pid pk info db = Some db'" "db_wf db" "guid_known db pid guid" "guid \<noteq> []"
  shows "rows_kept db db'"
proof -
  obtain r where r: "r \<in> set db" "r_guid r = guid" "r_id r = pid"
    using assms(3,4) by (auto simp: guid_known_def)
  have same: "q = r" if "q \<in> set db" "r_guid q = guid" for q
    using db_wf_inj(2) [OF assms(2) that(1) r(1)] that(2) r(2) by simp
  show ?thesis unfolding rows_kept_def
  proof
    fix q assume q: "q \<in> set db"
    let ?q = "if r_guid q = guid then q\<lparr>r_id := pid, r_pk := pk, r_info := info\<rparr> else q"
    have "?q \<in> set db'" unfolding db_update_pk_set [OF assms(1)] using q by (rule imageI)
    moreover have "r_guid ?q = r_guid q \<and> r_id ?q = r_id q \<and> r_uuid ?q = r_uuid q"
      using same [OF q] r(3) by auto
    ultimately show "\<exists>r' \<in> set db'. r_guid r' = r_guid q \<and> r_id r' = r_id q \<and> r_uuid r' = r_uuid q" by blast
  qed
qed

text \<open>A task that moves: the rows are kept, the invariants of the shared state and of the task hold again, and so does
  the invariant of every other task.\<close>

lemma task_inv_mono:
  assumes "task_inv s t" "rows_kept (s_db s) (s_db s')" "s_next s \<le> s_next s'"
  shows "task_inv s' t"
  using assms guid_known_kept by (fastforce simp: task_inv_def)

lemma put_heap_simps [simp]:
  "s_map (put_heap a p s) = s_map s" "s_next (put_heap a p s) = s_next s" "s_db (put_heap a p s) = s_db s"
  "s_heap (put_heap a p s) = (s_heap s)(a := p)" "s_ip_blocker (put_heap a p s) = s_ip_blocker s"
  "s_ip_changes (put_heap a p s) = s_ip_changes s"
  by (simp_all add: put_heap_def)

lemma alloc_simps [simp]:
  "s_map (alloc pid p s) = (s_map s)(pid \<mapsto> (pid, s_next s))" "s_next (alloc pid p s) = Suc (s_next s)"
  "s_heap (alloc pid p s) = (s_heap s)((pid, s_next s) := p)" "s_db (alloc pid p s) = s_db s"
  "s_ip_blocker (alloc pid p s) = s_ip_blocker s" "s_ip_changes (alloc pid p s) = s_ip_changes s"
  by (simp_all add: alloc_def)

lemma shared_inv_put:
  assumes "shared_inv s" "guid_known (s_db s) (fst a) (p_guid p)"
  shows "shared_inv (put_heap a p s)"
  using assms by (auto simp: shared_inv_def)

lemma shared_inv_alloc:
  assumes "shared_inv s" "guid_known (s_db s) pid (p_guid p)"
  shows "shared_inv (alloc pid p s)"
  using assms by (auto simp: shared_inv_def less_Suc_eq)

lemma shared_inv_db:
  assumes "shared_inv s" "db_wf db" "rows_kept (s_db s) db"
  shows "shared_inv (s\<lparr>s_db := db\<rparr>)"
  using assms guid_known_kept by (fastforce simp: shared_inv_def)

lemma insert_step_inv:
  assumes "shared_inv s" "guid_known (s_db s) (t_id t) (p_guid p)" "insert_step p t s = (pt, s')"
  shows "shared_inv s' \<and> task_inv s' (t\<lparr>t_point := pt\<rparr>) \<and> s_db s' = s_db s \<and> s_next s \<le> s_next s'"
  using assms shared_inv_alloc [OF assms(1,2)] by (auto simp: insert_step_def task_inv_def found_def split: if_splits)

lemma get_or_step_inv:
  assumes "shared_inv s" "get_or_step e t s = (pt, s')"
  shows "shared_inv s' \<and> task_inv s' (t\<lparr>t_point := pt\<rparr>) \<and> s_db s' = s_db s \<and> s_next s \<le> s_next s'"
proof (cases "s_map s (t_id t)")
  case None
  then show ?thesis using assms shared_inv_alloc [OF assms(1), of "t_id t" "default_peer (e_now e)"]
    by (auto simp: get_or_step_def task_inv_def)
next
  case (Some a)
  then show ?thesis using assms by (auto simp: get_or_step_def task_inv_def shared_inv_def)
qed

lemma store_step_inv:
  assumes "shared_inv s" "task_inv s t" "t_point t = At_Store a guid info" "store_step e a guid info t s = (pt, s')"
  shows "shared_inv s' \<and> task_inv s' (t\<lparr>t_point := pt\<rparr>) \<and> rows_kept (s_db s) (s_db s') \<and> s_next s \<le> s_next s'"
proof -
  have wf: "db_wf (s_db s)" using assms(1) by (simp add: shared_inv_def)
  have a: "fst a = t_id t" "snd a < s_next s" "guid_known (s_db s) (t_id t) guid"
    using assms(2,3) by (simp_all add: task_inv_def)
  show ?thesis
  proof (cases "if guid = [] then if e_db_ok e
      then db_insert_peer (e_guid e) (t_id t) (rk_uuid (t_rk t)) (rk_pk (t_rk t)) info (s_db s) else None
      else if e_db_ok e then db_update_pk guid (t_id t) (rk_pk (t_rk t)) info (s_db s) else None")
    case None
    then have "s' = s" "\<exists>res. pt = Finished res" using assms(4) by (auto simp: store_step_def split: if_splits)
    then show ?thesis using assms(1) by (auto simp: task_inv_def)
  next
    case (Some db)
    have s': "s' = s\<lparr>s_db := db\<rparr>" "pt = (if guid = [] then At_Guid a (e_guid e) else Finished (Some OK))"
      using assms(4) Some by (auto simp: store_step_def split: if_splits)
    have db: "db_wf db" "rows_kept (s_db s) db" "guid = [] \<Longrightarrow> guid_known db (t_id t) (e_guid e)"
      using Some db_insert_peer_wf [OF _ wf] insert_rows_kept db_update_pk_wf [OF _ wf] update_rows_kept [OF _ wf a(3)]
      by (simp_all split: if_splits)
    then show ?thesis using shared_inv_db [OF assms(1) db(1,2)] s' a(1,2) by (auto simp: task_inv_def)
  qed
qed

lemma point_step_inv:
  assumes "shared_inv s" "task_inv s t" "point_step e t s = (pt, s')"
  shows "shared_inv s' \<and> task_inv s' (t\<lparr>t_point := pt\<rparr>) \<and> rows_kept (s_db s) (s_db s') \<and> s_next s \<le> s_next s'"
proof (cases "t_point t")
  case At_Start
  then show ?thesis using assms by (auto simp: point_step_def start_step_def task_inv_def split: if_splits)
next
  case At_Blocker
  then show ?thesis using assms
    by (auto simp: point_step_def blocker_step_def task_inv_def shared_inv_def split: prod.splits if_splits)
next
  case At_Map
  then show ?thesis using assms
    by (auto simp: point_step_def map_step_def found_def task_inv_def shared_inv_def split: option.splits if_splits)
next
  case At_Select
  then show ?thesis using assms db_get_peer_SomeD [of "t_id t" "s_db s"]
    by (auto simp: point_step_def select_step_def task_inv_def peer_of_row_def guid_known_def split: option.splits if_splits)
next
  case (At_Insert p)
  then show ?thesis using assms insert_step_inv [OF assms(1), of t p pt s'] by (auto simp: point_step_def task_inv_def)
next
  case At_Get_Or
  then show ?thesis using assms get_or_step_inv [OF assms(1), of e t pt s'] by (auto simp: point_step_def)
next
  case (At_Check a)
  then show ?thesis using assms
    by (auto simp: point_step_def check_step_def task_inv_def split: id_decision.splits)
next
  case (At_Limit a c i)
  then show ?thesis using assms by (auto simp: point_step_def limit_step_def task_inv_def split: option.splits)
next
  case (At_Count a c i r)
  then show ?thesis using assms shared_inv_put [OF assms(1), of a "(s_heap s a)\<lparr>p_reg_pk := r\<rparr>"]
    by (auto simp: point_step_def count_step_def after_note_def task_inv_def shared_inv_def split: if_splits)
next
  case (At_Note a c)
  then show ?thesis using assms
    by (auto simp: point_step_def note_step_def after_note_def task_inv_def shared_inv_def split: if_splits)
next
  case (At_Update a)
  have a: "fst a = t_id t" "snd a < s_next s" using assms(2) At_Update by (simp_all add: task_inv_def)
  then have g: "guid_known (s_db s) (t_id t) (p_guid (s_heap s a))" using assms(1) by (metis shared_inv_def)
  then show ?thesis using assms(1,3) At_Update a shared_inv_put [OF assms(1), of a]
    by (auto simp: point_step_def update_step_def task_inv_def Let_def)
next
  case (At_Store a g info)
  then show ?thesis using assms store_step_inv [OF assms(1,2) At_Store, of e pt s'] by (auto simp: point_step_def)
next
  case (At_Guid a g)
  then show ?thesis using assms shared_inv_put [OF assms(1), of a "(s_heap s a)\<lparr>p_guid := g\<rparr>"]
    by (auto simp: point_step_def guid_step_def task_inv_def)
next
  case (Finished res)
  then have "pt = Finished res" "s' = s" using assms(3) by (simp_all add: point_step_def)
  then show ?thesis using assms(1) by (simp add: task_inv_def)
qed

lemma race_step_inv:
  assumes "race_inv y"
  shows "race_inv (race_step ev y) \<and> rows_kept (s_db (y_shared y)) (s_db (y_shared (race_step ev y)))"
proof (cases ev)
  case (Spawn n c rk addr)
  then show ?thesis using assms by (auto simp: race_inv_def task_inv_def new_task_def)
next
  case (Move n e)
  show ?thesis
  proof (cases "y_tasks y n")
    case (Some t)
    obtain pt s' where p: "point_step e t (y_shared y) = (pt, s')" by fastforce
    have "shared_inv (y_shared y)" "task_inv (y_shared y) t" using assms Some by (auto simp: race_inv_def)
    note step = point_step_inv [OF this p]
    have "task_inv s' t'" if "y_tasks y m = Some t'" for m t'
      using task_inv_mono [of "y_shared y" t' s'] step assms that by (auto simp: race_inv_def)
    then show ?thesis using step Some p Move by (auto simp: race_inv_def task_step_def)
  qed (use assms Move in simp)
next
  case (Touch a addr now)
  have "guid_known (s_db (y_shared y)) (fst a) (p_guid (s_heap (y_shared y) a))"
    using assms unfolding race_inv_def shared_inv_def by blast
  then show ?thesis
    using assms Touch shared_inv_put task_inv_mono [of "y_shared y"] by (auto simp: race_inv_def)
qed

lemma race_run_inv:
  assumes "race_inv y"
  shows "race_inv (race_run evs y) \<and> rows_kept (s_db (y_shared y)) (s_db (y_shared (race_run evs y)))"
  using assms
proof (induction evs arbitrary: y)
  case (Cons ev evs)
  then show ?case using race_step_inv [OF Cons.prems, of ev] rows_kept_trans by (fastforce simp: race_run_def)
qed (simp add: race_run_def)

lemma race_start_inv: "db_wf db \<Longrightarrow> race_inv (race_start db)"
  by (simp add: race_inv_def race_start_def shared_inv_def)

section \<open>The owner of an id\<close>

text \<open>The UUID that owns an id is settled if the row of the id has it and memory cannot come to have another one: a peer in
  memory has it, and no task that has passed its check with another UUID is about to write that peer; and while there is none
  in memory, no task has found the database without the row. (A row on its way into memory is an old or the present row of
  the id.)\<close>

definition past_check :: "arc \<Rightarrow> task \<Rightarrow> bool" where
  "past_check a t \<longleftrightarrow>
     (case t_point t of
        At_Limit b _ _ \<Rightarrow> b = a | At_Count b _ _ _ \<Rightarrow> b = a | At_Note b _ \<Rightarrow> b = a | At_Update b \<Rightarrow> b = a | _ \<Rightarrow> False)"

definition row_owner :: "database \<Rightarrow> string \<Rightarrow> bytes \<Rightarrow> bool" where
  "row_owner db pid u \<longleftrightarrow> (\<exists>r \<in> set db. r_id r = pid \<and> r_uuid r = u)"

definition calm :: "string \<Rightarrow> bytes \<Rightarrow> shared \<Rightarrow> task \<Rightarrow> bool" where
  "calm pid u s t \<longleftrightarrow>
     (case s_map s pid of
        Some a \<Rightarrow> past_check a t \<longrightarrow> rk_uuid (t_rk t) = u
      | None \<Rightarrow> t_id t = pid \<longrightarrow> t_point t \<noteq> At_Get_Or) \<and>
     (\<forall>p. t_id t = pid \<and> t_point t = At_Insert p \<longrightarrow> p_uuid p = u)"

definition settled :: "string \<Rightarrow> bytes \<Rightarrow> race_system \<Rightarrow> bool" where
  "settled pid u y \<longleftrightarrow>
     row_owner (s_db (y_shared y)) pid u \<and>
     (\<forall>a. s_map (y_shared y) pid = Some a \<longrightarrow> p_uuid (s_heap (y_shared y) a) = u) \<and>
     (\<forall>n t. y_tasks y n = Some t \<longrightarrow> calm pid u (y_shared y) t)"

lemma past_check_arc: "past_check a t \<Longrightarrow> point_arc (t_point t) = Some a"
  by (auto simp: past_check_def split: point.splits)

lemma calm_same_map: "s_map s' pid = s_map s pid \<Longrightarrow> calm pid u s' t = calm pid u s t"
  by (simp add: calm_def)

lemma calm_alloc:
  assumes "task_inv s t" "calm pid u s t"
  shows "calm pid u (alloc j p s) t"
proof (cases "j = pid")
  case True
  have "\<not> past_check (pid, s_next s) t" using assms(1) past_check_arc by (fastforce simp: task_inv_def)
  then show ?thesis using assms(2) True by (auto simp: calm_def)
next
  case False
  then show ?thesis using assms(2) by (simp add: calm_def)
qed

text \<open>What one move of one task does to an id that is settled: first the moves that look a peer up and the one that
  checks it, then all of them.\<close>

lemma select_calm:
  assumes "db_wf (s_db s)" "row_owner (s_db s) pid u" "e_db_ok e \<or> s_map s pid \<noteq> None"
  shows "calm pid u s (t\<lparr>t_point := select_step e t s\<rparr>)"
proof (cases "t_id t = pid")
  case True
  have "\<exists>r. db_get_peer pid (s_db s) = Some r \<and> r_uuid r = u"
    using assms(2) db_get_peer_eq [OF assms(1)] by (auto simp: row_owner_def)
  then show ?thesis using assms(3) True
    by (auto simp: select_step_def calm_def past_check_def peer_of_row_def split: option.splits if_splits)
next
  case False
  then show ?thesis by (auto simp: select_step_def calm_def past_check_def split: option.splits if_splits)
qed

lemma alloc_calm:
  assumes "shared_inv s" "\<forall>a. s_map s pid = Some a \<longrightarrow> p_uuid (s_heap s a) = u" "j = pid \<longrightarrow> p_uuid p = u"
  shows "\<forall>a. s_map (alloc j p s) pid = Some a \<longrightarrow> p_uuid (s_heap (alloc j p s) a) = u"
    "calm pid u (alloc j p s) (t\<lparr>t_point := At_Check a\<rparr>)" "calm pid u (alloc j p s) (t\<lparr>t_point := Finished r\<rparr>)"
proof -
  have "a \<noteq> (j, s_next s)" if "s_map s pid = Some a" for a using assms(1) that by (auto simp: shared_inv_def)
  then show "\<forall>a. s_map (alloc j p s) pid = Some a \<longrightarrow> p_uuid (s_heap (alloc j p s) a) = u" using assms(2,3) by auto
qed (auto simp: calm_def past_check_def split: option.splits)

lemma check_calm:
  assumes "\<forall>a. s_map s pid = Some a \<longrightarrow> p_uuid (s_heap s a) = u" "u \<noteq> []"
  shows "calm pid u s (t\<lparr>t_point := check_step a t s\<rparr>)"
proof -
  have "rk_uuid (t_rk t) = u"
    if pc: "past_check b (t\<lparr>t_point := check_step a t s\<rparr>)" and b: "s_map s pid = Some b" for b
  proof -
    obtain c i where "tcp_identity (s_heap s b) (t_rk t) (t_ip t) = Proceed c i"
      using pc by (auto simp: check_step_def past_check_def identity_same split: id_decision.splits if_splits)
    then show ?thesis using tcp_identity_Proceed(1) assms b by fastforce
  qed
  moreover have "check_step a t s \<noteq> At_Get_Or" "\<forall>p. check_step a t s \<noteq> At_Insert p"
    by (simp_all add: check_step_def split: id_decision.splits)
  ultimately show ?thesis by (auto simp: calm_def split: option.splits)
qed

lemma settled_move:
  assumes inv: "shared_inv s" "task_inv s t"
    and row: "row_owner (s_db s) pid u" and u: "u \<noteq> []" and ok: "e_db_ok e \<or> s_map s pid \<noteq> None"
    and mem: "\<forall>a. s_map s pid = Some a \<longrightarrow> p_uuid (s_heap s a) = u" and calm: "calm pid u s t"
    and step: "point_step e t s = (pt, s')"
  shows "(\<forall>a. s_map s' pid = Some a \<longrightarrow> p_uuid (s_heap s' a) = u) \<and> calm pid u s' (t\<lparr>t_point := pt\<rparr>) \<and>
    (s_map s' = s_map s \<or> (\<exists>j p. s' = alloc j p s))"
proof (cases "t_point t")
  case At_Select
  then show ?thesis using step mem select_calm [OF _ row ok, of t] inv(1) by (auto simp: point_step_def shared_inv_def)
next
  case (At_Insert p)
  then have "t_id t = pid \<longrightarrow> p_uuid p = u" using calm by (simp add: calm_def)
  then show ?thesis using step At_Insert alloc_calm [OF inv(1) mem]
    by (auto simp: point_step_def insert_step_def found_def)
next
  case At_Get_Or
  then have "s_map s (t_id t) = None \<Longrightarrow> t_id t \<noteq> pid" using calm by (auto simp: calm_def)
  then show ?thesis using step At_Get_Or mem alloc_calm [OF inv(1) mem]
    by (auto simp: point_step_def get_or_step_def calm_def past_check_def split: option.splits)
next
  case (At_Check a)
  then show ?thesis using step mem check_calm [OF mem u, of a t] by (auto simp: point_step_def)
next
  case At_Map
  then show ?thesis using step mem
    by (auto simp: point_step_def map_step_def found_def calm_def past_check_def split: if_splits option.splits)
next
  case (At_Store a g info)
  then show ?thesis using step mem
    by (auto simp: point_step_def store_step_def calm_def past_check_def split: option.splits if_splits)
qed (use step mem calm in \<open>auto simp: point_step_def start_step_def blocker_step_def limit_step_def count_step_def note_step_def
    after_note_def update_step_def guid_step_def calm_def past_check_def Let_def split: if_splits option.splits prod.splits\<close>)

lemma settled_step:
  assumes "race_inv y" "settled pid u y" "u \<noteq> []"
    and "s_map (y_shared y) pid \<noteq> None \<or> (\<forall>n e. ev = Move n e \<longrightarrow> e_db_ok e)"
  shows "settled pid u (race_step ev y) \<and>
    (s_map (y_shared y) pid \<noteq> None \<longrightarrow> s_map (y_shared (race_step ev y)) pid \<noteq> None)"
proof -
  let ?s = "y_shared y"
  have row: "row_owner (s_db (y_shared (race_step ev y))) pid u"
    using race_step_inv [OF assms(1), of ev] assms(2) by (fastforce simp: settled_def row_owner_def rows_kept_def)
  have mem: "\<forall>a. s_map ?s pid = Some a \<longrightarrow> p_uuid (s_heap ?s a) = u" and row0: "row_owner (s_db ?s) pid u"
    and calm: "\<And>n t. y_tasks y n = Some t \<Longrightarrow> calm pid u ?s t" and inv: "shared_inv ?s"
    and tasks: "\<And>n t. y_tasks y n = Some t \<Longrightarrow> task_inv ?s t"
    using assms(1,2) by (auto simp: settled_def race_inv_def)
  show ?thesis
  proof (cases ev)
    case (Move n e)
    show ?thesis
    proof (cases "y_tasks y n")
      case (Some t)
      obtain pt s' where p: "point_step e t ?s = (pt, s')" by fastforce
      have ok: "e_db_ok e \<or> s_map ?s pid \<noteq> None" using assms(4) Move by blast
      note step = settled_move [OF inv tasks [OF Some] row0 assms(3) ok mem calm [OF Some] p]
      have "calm pid u s' t'" if "y_tasks y m = Some t'" for m t'
        using step calm [OF that] calm_alloc [OF tasks [OF that] calm [OF that]] calm_same_map [of s' pid ?s u t'] by auto
      moreover have "s_map ?s pid \<noteq> None \<longrightarrow> s_map s' pid \<noteq> None" using step by auto
      ultimately show ?thesis using step row Some p Move by (auto simp: settled_def task_step_def)
    qed (use assms(2) Move in simp)
  next
    case (Spawn n c rk addr)
    have "calm pid u ?s (new_task c rk addr)" by (simp add: calm_def past_check_def new_task_def split: option.splits)
    then show ?thesis using assms(2) Spawn by (auto simp: settled_def)
  next
    case (Touch a addr now)
    then show ?thesis using assms(2) by (auto simp: settled_def calm_def)
  qed
qed

text \<open>The database answers, as far as the id is not in memory.\<close>

definition answers :: "race_event list \<Rightarrow> bool" where
  "answers evs \<longleftrightarrow> (\<forall>n e. Move n e \<in> set evs \<longrightarrow> e_db_ok e)"

lemma settled_run:
  assumes "race_inv y" "settled pid u y" "u \<noteq> []" "s_map (y_shared y) pid \<noteq> None \<or> answers evs"
  shows "settled pid u (race_run evs y)"
  using assms
proof (induction evs arbitrary: y)
  case (Cons ev evs)
  have "settled pid u (race_step ev y) \<and>
      (s_map (y_shared y) pid \<noteq> None \<longrightarrow> s_map (y_shared (race_step ev y)) pid \<noteq> None)"
    by (rule settled_step [OF Cons.prems(1-3)]) (use Cons.prems(4) in \<open>auto simp: answers_def\<close>)
  moreover have "answers (ev # evs) \<Longrightarrow> answers evs" by (simp add: answers_def)
  ultimately show ?case
    using Cons.IH [of "race_step ev y"] race_step_inv [OF Cons.prems(1)] Cons.prems(3,4) by (auto simp: race_run_def)
qed (simp add: race_run_def)

lemma settled_start:
  assumes "r \<in> set db"
  shows "settled (r_id r) (r_uuid r) (race_start db)"
  using assms by (auto simp: settled_def race_start_def row_owner_def)

section \<open>Tasks that nothing interrupts\<close>

text \<open>The peers in memory as the other theories see them.\<close>

definition pm_of :: "shared \<Rightarrow> peer_map" where
  "pm_of s = \<lparr>pm_map = (\<lambda>pid. map_option (s_heap s) (s_map s pid)), pm_db = s_db s\<rparr>"

lemma pm_of_simps [simp]:
  "pm_map (pm_of s) pid = map_option (s_heap s) (s_map s pid)" "pm_db (pm_of s) = s_db s"
  "pm_of (s\<lparr>s_ip_blocker := b\<rparr>) = pm_of s" "pm_of (s\<lparr>s_ip_changes := c\<rparr>) = pm_of s"
  "pm_of (s\<lparr>s_db := db\<rparr>) = (pm_of s)\<lparr>pm_db := db\<rparr>"
  by (simp_all add: pm_of_def)



























section \<open>Requests that overlap\<close>

text \<open>Two tunnels register one free id. Both look at it before either writes it.\<close>

definition overlap :: "env \<Rightarrow> register_pk \<Rightarrow> socket_addr \<Rightarrow> register_pk \<Rightarrow> socket_addr \<Rightarrow> race_event list" where
  "overlap e rk1 addr1 rk2 addr2 =
     [Spawn 1 Tunnel rk1 addr1, Spawn 2 Tunnel rk2 addr2] @
     replicate 5 (Move 1 e) @ replicate 3 (Move 2 e) @ replicate 5 (Move 1 e) @ replicate 4 (Move 2 e)"

lemma race_run_append: "race_run (xs @ ys) y = race_run ys (race_run xs y)"
  by (simp add: race_run_def)

lemma race_run_Cons: "race_run (ev # evs) y = race_run evs (race_step ev y)"
  by (simp add: race_run_def)

lemma race_run_Nil: "race_run [] y = y"
  by (simp add: race_run_def)

lemmas race_eval = race_run_append race_run_Cons race_run_Nil task_step_def point_step_def start_step_def map_step_def
  select_step_def get_or_step_def check_step_def limit_step_def count_step_def after_note_def update_step_def store_step_def
  guid_step_def new_task_def race_start_def found_def numeral_eq_Suc Let_def

definition outcome :: "race_system \<Rightarrow> nat \<Rightarrow> register_result option" where
  "outcome y n = (case y_tasks y n of Some t \<Rightarrow> (case t_point t of Finished res \<Rightarrow> res | _ \<Rightarrow> None) | None \<Rightarrow> None)"

lemma overlap_run:
  fixes e addr1 addr2
  assumes "rk_id rk1 = pid" "rk_id rk2 = pid" "6 \<le> length pid" "rk_uuid rk1 \<noteq> []" "rk_pk rk1 \<noteq> []" "rk_uuid rk2 \<noteq> []"
    and "rk_pk rk2 \<noteq> []" "db_get_peer pid db = None" "e_db_ok e" "e_guid e \<noteq> []" "e_guid e \<notin> r_guid ` set db"
  defines "y \<equiv> race_run (overlap e rk1 addr1 rk2 addr2) (race_start db)"
  shows "outcome y 1 = Some OK \<and> outcome y 2 = Some OK \<and> s_map (y_shared y) pid = Some (pid, 0) \<and>
    p_uuid (s_heap (y_shared y) (pid, 0)) = rk_uuid rk2 \<and> p_pk (s_heap (y_shared y) (pid, 0)) = rk_pk rk2 \<and>
    (\<exists>r \<in> set (s_db (y_shared y)). r_id r = pid \<and> r_uuid r = rk_uuid rk1 \<and> r_pk r = rk_pk rk2)"
proof -
  have free: "\<forall>r \<in> set db. r_id r \<noteq> pid" using assms(8) by (simp add: db_get_peer_None)
  have guid: "\<forall>r \<in> set db. r_guid r \<noteq> e_guid e" using assms(11) by (metis imageI)
  have limit: "reg_pk_limit (e_now e) (p_reg_pk (default_peer (e_now e))) = Some (1, e_now e)"
    by (simp add: reg_pk_limit_def default_peer_def)
  have again: "reg_pk_limit (e_now e) (1, e_now e) = Some (2, e_now e)"
    by (simp add: reg_pk_limit_def elapsed_secs_def)
  show ?thesis
    using assms(1-11) free guid
    by (simp add: y_def overlap_def race_eval limit again db_insert_peer_def db_update_pk_def list_ex_iff tcp_identity_def
      outcome_def)
qed

text \<open>Any number of tunnels repeat the registration of one id. All of them read the count of registrations before any of them
  writes it.\<close>

definition reader :: "env \<Rightarrow> register_pk \<Rightarrow> socket_addr \<Rightarrow> nat \<Rightarrow> race_event list" where
  "reader e rk addr n = Spawn n Tunnel rk addr # replicate 4 (Move n e)"

definition crowd :: "env \<Rightarrow> register_pk \<Rightarrow> socket_addr \<Rightarrow> nat list \<Rightarrow> race_event list" where
  "crowd e rk addr ns = concat (map (reader e rk addr) ns) @ map (\<lambda>n. Move n e) ns"

abbreviation counting :: "register_pk \<Rightarrow> socket_addr \<Rightarrow> arc \<Rightarrow> u32 \<times> instant \<Rightarrow> task" where
  "counting rk addr a r \<equiv> (new_task Tunnel rk addr)\<lparr>t_point := At_Count a False False r\<rparr>"

lemma readers_run:
  assumes "s_map (y_shared y) (rk_id rk) = Some a" "tcp_identity (s_heap (y_shared y) a) rk (ip_to_string (sa_ip addr)) = Proceed False False"
    and "reg_pk_limit (e_now e) (p_reg_pk (s_heap (y_shared y) a)) = Some r"
    and "rk_uuid rk \<noteq> []" "rk_pk rk \<noteq> []" "6 \<le> length (rk_id rk)" "distinct ns" "\<forall>n \<in> set ns. y_tasks y n = None"
  shows "race_run (concat (map (reader e rk addr) ns)) y =
    y\<lparr>y_tasks := \<lambda>n. if n \<in> set ns then Some (counting rk addr a r) else y_tasks y n\<rparr>"
  using assms
proof (induction ns arbitrary: y)
  case (Cons n ns)
  let ?y = "y\<lparr>y_tasks := (y_tasks y)(n \<mapsto> counting rk addr a r)\<rparr>"
  have one: "race_run (reader e rk addr n) y = ?y"
    using Cons.prems by (simp add: reader_def race_eval not_less [symmetric])
  have free: "\<forall>m \<in> set ns. y_tasks ?y m = None" using Cons.prems(7,8) by auto
  have "(\<lambda>m. if m \<in> set ns then Some (counting rk addr a r) else y_tasks ?y m) =
      (\<lambda>m. if m \<in> set (n # ns) then Some (counting rk addr a r) else y_tasks y m)" by auto
  then show ?case using Cons.IH [of ?y] Cons.prems(1-7) free one by (simp add: race_run_append)
qed (simp add: race_run_def)

lemma counters_run:
  assumes "distinct ns" "\<forall>n \<in> set ns. y_tasks y n = Some (counting rk addr a r)"
  shows "\<forall>n \<in> set ns. outcome (race_run (map (\<lambda>n. Move n e) ns) y) n = Some OK"
    "\<forall>n. n \<notin> set ns \<longrightarrow> y_tasks (race_run (map (\<lambda>n. Move n e) ns) y) n = y_tasks y n"
proof -
  have "(\<forall>n \<in> set ns. outcome (race_run (map (\<lambda>n. Move n e) ns) y) n = Some OK) \<and>
    (\<forall>n. n \<notin> set ns \<longrightarrow> y_tasks (race_run (map (\<lambda>n. Move n e) ns) y) n = y_tasks y n)"
    using assms
  proof (induction ns arbitrary: y)
    case (Cons n ns)
    let ?y = "race_step (Move n e) y"
    have y: "y_tasks ?y = (y_tasks y)(n \<mapsto> (new_task Tunnel rk addr)\<lparr>t_point := Finished (Some OK)\<rparr>)"
      using Cons.prems by (simp add: task_step_def point_step_def count_step_def after_note_def)
    have "n \<notin> set ns" using Cons.prems(1) by simp
    then have "outcome (race_run (map (\<lambda>n. Move n e) ns) ?y) n = Some OK"
      using Cons.IH [of ?y] Cons.prems y by (simp add: outcome_def)
    then show ?case using Cons.IH [of ?y] Cons.prems y by (auto simp: race_run_Cons)
  qed (simp add: race_run_def)
  then show "\<forall>n \<in> set ns. outcome (race_run (map (\<lambda>n. Move n e) ns) y) n = Some OK"
    "\<forall>n. n \<notin> set ns \<longrightarrow> y_tasks (race_run (map (\<lambda>n. Move n e) ns) y) n = y_tasks y n" by blast+
qed

lemma crowd_run:
  fixes e addr N
  assumes "rk_uuid rk \<noteq> []" "rk_pk rk \<noteq> []" "6 \<le> length (rk_id rk)" "e_db_ok e" "e_guid e \<noteq> []"
  defines "y \<equiv> race_run (Spawn N Tunnel rk addr # replicate 12 (Move N e) @ crowd e rk addr [0..<N]) (race_start [])"
  shows "\<forall>n < N. outcome y n = Some OK"
proof -
  let ?y = "race_run (Spawn N Tunnel rk addr # replicate 12 (Move N e)) (race_start [])"
  let ?a = "(rk_id rk, 0 :: nat)"
  have limit: "reg_pk_limit (e_now e) (p_reg_pk (default_peer (e_now e))) = Some (1, e_now e)"
    by (simp add: reg_pk_limit_def default_peer_def)
  have y: "s_map (y_shared ?y) (rk_id rk) = Some ?a"
      "tcp_identity (s_heap (y_shared ?y) ?a) rk (ip_to_string (sa_ip addr)) = Proceed False False"
      "p_reg_pk (s_heap (y_shared ?y) ?a) = (1, e_now e)" "\<forall>n. n \<noteq> N \<longrightarrow> y_tasks ?y n = None"
    using assms(1-5)
    by (simp_all add: race_eval db_get_peer_def limit db_insert_peer_def tcp_identity_def not_less [symmetric])
  have again: "reg_pk_limit (e_now e) (p_reg_pk (s_heap (y_shared ?y) ?a)) = Some (2, e_now e)"
    using y(3) by (simp add: reg_pk_limit_def elapsed_secs_def)
  have free: "\<forall>n \<in> set [0..<N]. y_tasks ?y n = None" using y(4) by simp
  note readers = readers_run [OF y(1,2) again assms(1-3) distinct_upt free]
  have "outcome (race_run (map (\<lambda>n. Move n e) [0..<N]) (race_run (concat (map (reader e rk addr) [0..<N])) ?y)) n = Some OK"
    if "n < N" for n
    using counters_run(1) [where ns = "[0..<N]" and y = "race_run (concat (map (reader e rk addr) [0..<N])) ?y" and rk = rk
      and addr = addr and a = ?a and r = "(2, e_now e)" and e = e] that by (simp add: readers)
  then show ?thesis unfolding y_def crowd_def
    by (simp only: race_run_append append_Cons [symmetric]) blast
qed

section \<open>Properties\<close>

text \<open>C2. A registered id stays with its UUID, on every schedule. Let any number of registrations over UDP and tunnels, look-ups
  and keep-alives run at the same time and give way at every lock and at every statement of the database. The database never
  loses a row nor changes its id or its UUID, whether or not its statements succeed. An id that is settled (its row and its
  peer in memory have one UUID, and no request that was checked before that is still about to write the peer) stays settled,
  and the peer in memory keeps that UUID: without any condition on the database if it is in memory, and otherwise if the
  database answers. In particular this holds, from the start of the server and while the database answers, for every id in
  the database.\<close>

theorem registered_identity_stable:
  assumes "db_wf db" "settled i u (race_run evs0 (race_start db))" "u \<noteq> []"
    and "s_map (y_shared (race_run evs0 (race_start db))) i \<noteq> None \<or> answers evs"
  shows "settled i u (race_run (evs0 @ evs) (race_start db)) \<and>
    (\<forall>a. s_map (y_shared (race_run (evs0 @ evs) (race_start db))) i = Some a \<longrightarrow>
       p_uuid (s_heap (y_shared (race_run (evs0 @ evs) (race_start db))) a) = u) \<and>
    rows_kept db (s_db (y_shared (race_run (evs0 @ evs) (race_start db)))) \<and>
    (answers (evs0 @ evs) \<longrightarrow>
      (\<forall>r \<in> set db. r_uuid r \<noteq> [] \<longrightarrow> settled (r_id r) (r_uuid r) (race_run (evs0 @ evs) (race_start db))))"
proof -
  note start = race_start_inv [OF assms(1)]
  have "race_inv (race_run evs0 (race_start db))" using race_run_inv [OF start] by blast
  from settled_run [OF this assms(2-4)] have settled: "settled i u (race_run (evs0 @ evs) (race_start db))"
    by (simp add: race_run_append)
  have "rows_kept db (s_db (y_shared (race_run (evs0 @ evs) (race_start db))))"
    using race_run_inv [OF start, of "evs0 @ evs"] by (simp add: race_start_def)
  then show ?thesis using settled settled_run [OF start settled_start] by (auto simp: settled_def [of i])
qed

theorem registered_identity_stable_witness:
  "settled ''123456'' [7] (race_run (Spawn 1 Tunnel (sample_rk [8] [9]) (SockV4 1 1) # replicate 12 (Move 1 (plain_env 0 [2])))
     (race_start [\<lparr>r_guid = [1], r_id = ''123456'', r_uuid = [7], r_pk = [5], r_user = None, r_status = None, r_info = []\<rparr>]))"
proof -
  let ?r = "\<lparr>r_guid = [1 :: u8], r_id = ''123456'', r_uuid = [7 :: u8], r_pk = [5], r_user = None, r_status = None, r_info = []\<rparr>"
  have "db_wf [?r]" by (simp add: db_wf_def)
  moreover have "settled ''123456'' [7] (race_run [] (race_start [?r]))"
    using settled_start [of ?r "[?r]"] by (simp add: race_run_Nil)
  moreover have "answers (Spawn 1 Tunnel (sample_rk [8] [9]) (SockV4 1 1) # replicate 12 (Move 1 (plain_env 0 [2])))"
    by (simp add: answers_def plain_env_def)
  ultimately show ?thesis using registered_identity_stable [of "[?r]" "''123456''" "[7]" "[]"] by auto
qed



text \<open>C40. Two tunnels can register one free id. For every id that is free, and any two requests for it over tunnels, there is a
  schedule on which both are answered with OK: both look at the id before either writes it. Afterwards the peer in memory has
  the UUID and the key of the second, while the row in the database has the UUID of the first with the key of the second, so
  a restart gives the id back to the first, under a key that it does not have.\<close>

theorem free_id_registered_twice:
  fixes e :: env
  assumes "rk_id rk1 = pid" "rk_id rk2 = pid" "6 \<le> length pid" "rk_uuid rk1 \<noteq> []" "rk_pk rk1 \<noteq> []" "rk_uuid rk2 \<noteq> []"
    and "rk_pk rk2 \<noteq> []" "db_get_peer pid db = None" "e_db_ok e" "e_guid e \<noteq> []" "e_guid e \<notin> r_guid ` set db"
  shows "\<exists>evs. (\<forall>n c rk addr. Spawn n c rk addr \<in> set evs \<longrightarrow> (n, c, rk, addr) \<in> {(1, Tunnel, rk1, addr1), (2, Tunnel, rk2, addr2)}) \<and>
    (let y = race_run evs (race_start db); s = y_shared y in
     outcome y 1 = Some OK \<and> outcome y 2 = Some OK \<and>
     (\<exists>a. s_map s pid = Some a \<and> p_uuid (s_heap s a) = rk_uuid rk2 \<and> p_pk (s_heap s a) = rk_pk rk2) \<and>
     (\<exists>r \<in> set (s_db s). r_id r = pid \<and> r_uuid r = rk_uuid rk1 \<and> r_pk r = rk_pk rk2))"
  using overlap_run [OF assms, of addr1 addr2]
  by (intro exI [of _ "overlap e rk1 addr1 rk2 addr2"]) (auto simp: Let_def overlap_def)

theorem free_id_registered_twice_witness:
  "\<exists>evs. outcome (race_run evs (race_start [])) 1 = Some OK \<and> outcome (race_run evs (race_start [])) 2 = Some OK \<and>
     (\<exists>r \<in> set (s_db (y_shared (race_run evs (race_start [])))). r_uuid r = [7] \<and> r_pk r = [9])"
  using free_id_registered_twice [of "sample_rk [7] [4]" "''123456''" "sample_rk [8] [9]" "[]" "plain_env 0 [1]" "SockV4 1 1" "SockV4 2 1"]
  by (auto simp: Let_def db_get_peer_def plain_env_def)

text \<open>C30. How often an id can be registered. Of requests that are handled one after the other, over UDP and tunnels and
  whether or not the database answers, at most three for an id that fall into a period of six seconds are answered with OK.
  Requests that overlap are not limited: the count is read under one lock and written under another, and for every number
  there is a schedule on which that many requests over tunnels for one id are answered with OK in the same instant.\<close>

theorem registration_frequency:
  "((\<forall>c \<in> set cs. t \<le> e_now (call_env c) \<and> elapsed_secs (e_now (call_env c)) t \<le> 6) \<longrightarrow>
      accepted i (fst (reg_run cs w)) \<le> 3) \<and>
   (rk_uuid rk \<noteq> [] \<and> rk_pk rk \<noteq> [] \<and> 6 \<le> length (rk_id rk) \<and> e_db_ok e \<and> e_guid e \<noteq> [] \<longrightarrow>
      (\<exists>evs. (\<forall>n e'. Move n e' \<in> set evs \<longrightarrow> e' = e) \<and>
         (\<forall>n c rk' addr'. Spawn n c rk' addr' \<in> set evs \<longrightarrow> c = Tunnel \<and> rk' = rk \<and> addr' = addr) \<and>
         (\<forall>n < N. outcome (race_run evs (race_start [])) n = Some OK)))"
proof -
  let ?evs = "Spawn N Tunnel rk addr # replicate 12 (Move N e) @ crowd e rk addr [0..<N]"
  have "(\<forall>n e'. Move n e' \<in> set ?evs \<longrightarrow> e' = e) \<and>
      (\<forall>n c rk' addr'. Spawn n c rk' addr' \<in> set ?evs \<longrightarrow> c = Tunnel \<and> rk' = rk \<and> addr' = addr)"
    by (auto simp: crowd_def reader_def)
  then show ?thesis using sequential_frequency crowd_run [of rk e N addr] by blast
qed

theorem registration_frequency_witness:
  "accepted ''123456'' (fst (reg_run
     (replicate 4 (TcpReg (plain_env 5 [1]) (sample_rk [7] [4]) (SockV4 2 1))) (new_world [] [] (plain_server [])))) \<le> 3 \<and>
   (\<exists>evs. \<forall>n < 100. outcome (race_run evs (race_start [])) n = Some OK)"
proof -
  have "\<forall>c \<in> set (replicate 4 (TcpReg (plain_env 5 [1]) (sample_rk [7] [4]) (SockV4 2 1))).
      5 \<le> e_now (call_env c) \<and> elapsed_secs (e_now (call_env c)) 5 \<le> 6" by (simp add: plain_env_def elapsed_secs_def)
  moreover have "rk_uuid (sample_rk [7] [4]) \<noteq> []" "rk_pk (sample_rk [7] [4]) \<noteq> []" "6 \<le> length (rk_id (sample_rk [7] [4]))"
      "e_db_ok (plain_env 5 [1])" "e_guid (plain_env 5 [1]) \<noteq> []" by (simp_all add: plain_env_def)
  ultimately show ?thesis
    using registration_frequency [of "replicate 4 (TcpReg (plain_env 5 [1]) (sample_rk [7] [4]) (SockV4 2 1))" 5 "''123456''"
      "new_world [] [] (plain_server [])" "sample_rk [7] [4]" "plain_env 5 [1]" "SockV4 2 1" 100] by blast
qed

end
