(* ===== verification/Relay.thy ===== *)
theory Relay
  imports Rv_State Start_Up "HOL-Library.Sublist"
begin

text \<open>
  The relay server (\<open>server/src/relay_server.rs\<close>): its parameters and lists, the console, the
  admission of connections, the pairing of streams that ask for the same session, and the transfer
  between two paired streams with its accounting.
  \<^item> Floating-point arithmetic (parsing, scaling and printing of rates) is the parameter \<open>f64_ops\<close>.
  \<^item> The rate limiters come from a library: consuming from one is an output.
  \<^item> A connection is a task; its stream has the number of the task. The locks of \<open>PEERS\<close> are taken
    for one access each, so looking up a session, inserting a stream and removing it after the
    waiting time are steps of their own.
\<close>

section \<open>Parameters\<close>

record relay_params =
  rp_downgrade_threshold_100 :: usize
  rp_downgrade_start_check :: usize
  rp_limit_speed :: usize
  rp_total_bandwidth :: usize
  rp_single_bandwidth :: usize

definition default_params :: relay_params where
  "default_params =
     \<lparr>rp_downgrade_threshold_100 = 66, rp_downgrade_start_check = 1800000,
      rp_limit_speed = 32 * 1024 * 1024, rp_total_bandwidth = 1024 * 1024 * 1024,
      rp_single_bandwidth = 128 * 1024 * 1024\<rparr>"

text \<open>\<open>f_parse\<close> is \<open>str::parse::<f64>\<close>, \<open>f_positive v\<close> is \<open>v > 0.\<close>, \<open>f_scaled k v\<close> is
  \<open>(v * k) as usize\<close>, \<open>f_show k n\<close> prints \<open>n as f64 / k\<close>, \<open>f_show_mb n\<close> prints a number of
  bits as megabytes with two digits, and \<open>f_threshold sb t\<close> is
  \<open>(sb * t / 100. / 1000.) as usize\<close>.\<close>

record 'f f64_ops =
  f_parse :: "string \<Rightarrow> 'f option"
  f_positive :: "'f \<Rightarrow> bool"
  f_scaled :: "nat \<Rightarrow> 'f \<Rightarrow> usize"
  f_show :: "nat \<Rightarrow> usize \<Rightarrow> string"
  f_show_mb :: "usize \<Rightarrow> string"
  f_threshold :: "usize \<Rightarrow> usize \<Rightarrow> usize"

text \<open>A rate from a text: no number, and no number above zero, leave the old value.\<close>

definition rate_of :: "'f f64_ops \<Rightarrow> nat \<Rightarrow> string \<Rightarrow> usize \<Rightarrow> usize" where
  "rate_of f k text old =
     (case f_parse f text of
        Some v \<Rightarrow> if f_positive f v then f_scaled f k v else old
      | None \<Rightarrow> old)"

definition start_check_of :: "string \<Rightarrow> usize \<Rightarrow> usize" where
  "start_check_of text old =
     (case parse_unsigned (2 ^ 64 - 1) text of
        Some n \<Rightarrow> if n > 0 then of_nat n * 1000 else old
      | None \<Rightarrow> old)"

definition mega :: nat where "mega = 1024 * 1024"

definition check_params :: "'f f64_ops \<Rightarrow> environ \<Rightarrow> relay_params \<Rightarrow> relay_params" where
  "check_params f env p =
     p\<lparr>rp_downgrade_threshold_100 := rate_of f 100 (get_arg env ''DOWNGRADE_THRESHOLD'') (rp_downgrade_threshold_100 p),
       rp_downgrade_start_check := start_check_of (get_arg env ''DOWNGRADE_START_CHECK'') (rp_downgrade_start_check p),
       rp_limit_speed := rate_of f mega (get_arg env ''LIMIT_SPEED'') (rp_limit_speed p),
       rp_total_bandwidth := rate_of f mega (get_arg env ''TOTAL_BANDWIDTH'') (rp_total_bandwidth p),
       rp_single_bandwidth := rate_of f mega (get_arg env ''SINGLE_BANDWIDTH'') (rp_single_bandwidth p)\<rparr>"

text \<open>The addresses in the file of a list: the first word of every line.\<close>

definition load_list :: "string \<Rightarrow> string set" where
  "load_list contents = set (map (\<lambda>x. hd (split_on (CHR '' '') (str_trim x))) (split_on (CHR 0x0A) contents))"

section \<open>State\<close>

type_synonym usage = "usize \<times> usize \<times> usize \<times> usize"

text \<open>The task of a connection: it reads the first message, is about to insert its stream under a
  session, waits there since a time, or relays between its stream and stream number \<open>p\<close>.\<close>

datatype task =
  Reading socket_addr bool bool
| Inserting string bool
| Waiting string instant
| Relaying nat string bool

text \<open>\<open>rl_peers\<close> maps a session to the number of the waiting stream and whether it is a web socket.
  \<open>rl_limit\<close> is the speed of the total limiter. \<open>rl_asked\<close> is for the specification only: the
  session that a stream has asked for with a valid key.\<close>

record relay =
  rl_peers :: "string \<rightharpoonup> nat \<times> bool"
  rl_tasks :: "nat \<rightharpoonup> task"
  rl_usage :: "string \<rightharpoonup> usage"
  rl_blacklist :: "string set"
  rl_blocklist :: "string set"
  rl_params :: relay_params
  rl_limit :: usize
  rl_next :: nat
  rl_asked :: "nat \<rightharpoonup> string"

text \<open>\<open>start_with_bind\<close> and the first lines of \<open>io_loop\<close>; a list whose file cannot be read is empty.\<close>

definition new_relay :: "'f f64_ops \<Rightarrow> environ \<Rightarrow> string option \<Rightarrow> string option \<Rightarrow> relay" where
  "new_relay f env blacklist blocklist =
     (let p = check_params f env default_params in
      \<lparr>rl_peers = Map.empty, rl_tasks = Map.empty, rl_usage = Map.empty,
       rl_blacklist = (case blacklist of Some t \<Rightarrow> load_list t | None \<Rightarrow> {}),
       rl_blocklist = (case blocklist of Some t \<Rightarrow> load_list t | None \<Rightarrow> {}),
       rl_params = p, rl_limit = rp_total_bandwidth p, rl_next = 0, rl_asked = Map.empty\<rparr>)"

section \<open>Admission\<close>

datatype relay_admission = Rejected | Console | Served

text \<open>\<open>handle_connection\<close>: what becomes of an accepted connection.\<close>

definition handle_connection :: "socket_addr \<Rightarrow> bool \<Rightarrow> bool \<Rightarrow> string set \<Rightarrow> relay_admission" where
  "handle_connection addr ws vless_authenticated blocklist =
     (let ip = sa_ip (try_into_v4 addr) in
      if vless_authenticated \<and> \<not> is_loopback ip then Rejected
      else if \<not> ws \<and> \<not> vless_authenticated \<and> is_loopback ip then Console
      else if ip_to_string ip \<in> blocklist then Rejected
      else Served)"

definition relay_key_is_valid :: "string \<Rightarrow> string \<Rightarrow> bool \<Rightarrow> bool" where
  "relay_key_is_valid key licence_key vless_authenticated \<longleftrightarrow>
     key = [] \<or> licence_key = key \<or> vless_authenticated"

section \<open>Pairing\<close>

definition end_task :: "nat \<Rightarrow> relay \<Rightarrow> relay" where
  "end_task n r = r\<lparr>rl_tasks := (rl_tasks r)(n := None)\<rparr>"

text \<open>\<open>make_pair_\<close> from the first message of stream \<open>n\<close> to the look-up of the session.\<close>

definition usage_id :: "socket_addr \<Rightarrow> string" where
  "usage_id addr = ip_to_string (sa_ip addr) @ '':'' @ show_nat (unat (sa_port addr))"

definition pair_request :: "(bytes \<Rightarrow> rmsg option) \<Rightarrow> string \<Rightarrow> nat \<Rightarrow> socket_addr \<Rightarrow> bool \<Rightarrow> bool \<Rightarrow> bytes \<Rightarrow> relay \<Rightarrow> relay" where
  "pair_request parse key n addr ws vless_authenticated bs r =
     (case parse bs of
        Some (RequestRelay rf) \<Rightarrow>
          if \<not> relay_key_is_valid key (rf_licence_key rf) vless_authenticated then end_task n r
          else if rf_uuid rf = [] then end_task n r
          else
            (let r = r\<lparr>rl_asked := (rl_asked r)(n \<mapsto> rf_uuid rf)\<rparr> in
             case rl_peers r (rf_uuid rf) of
               Some (p, peer_ws) \<Rightarrow>
                 r\<lparr>rl_peers := (rl_peers r)(rf_uuid rf := None),
                   rl_usage := (rl_usage r)(usage_id addr \<mapsto> (0, 0, 0, 0)),
                   rl_tasks := (rl_tasks r)(n \<mapsto> Relaying p (usage_id addr) (\<not> ws \<and> \<not> peer_ws))\<rparr>
             | None \<Rightarrow> r\<lparr>rl_tasks := (rl_tasks r)(n \<mapsto> Inserting (rf_uuid rf) ws)\<rparr>)
      | _ \<Rightarrow> end_task n r)"

definition pair_insert :: "instant \<Rightarrow> nat \<Rightarrow> string \<Rightarrow> bool \<Rightarrow> relay \<Rightarrow> relay" where
  "pair_insert now n uuid ws r =
     r\<lparr>rl_peers := (rl_peers r)(uuid \<mapsto> (n, ws)), rl_tasks := (rl_tasks r)(n \<mapsto> Waiting uuid now)\<rparr>"

definition pair_expire :: "nat \<Rightarrow> string \<Rightarrow> relay \<Rightarrow> relay" where
  "pair_expire n uuid r = end_task n (r\<lparr>rl_peers := (rl_peers r)(uuid := None)\<rparr>)"

definition pair_close :: "nat \<Rightarrow> string \<Rightarrow> relay \<Rightarrow> relay" where
  "pair_close n uid r = end_task n (r\<lparr>rl_usage := (rl_usage r)(uid := None)\<rparr>)"

section \<open>Console\<close>

definition text_line :: "string \<Rightarrow> string" where
  "text_line t = t @ [CHR 0x0A]"

definition relay_help :: string where
  "relay_help = concat (map text_line
     [''blacklist-add(ba) <ip>'', ''blacklist-remove(br) <ip>'', ''blacklist(b) <ip>'', ''blocklist-add(Ba) <ip>'',
      ''blocklist-remove(Br) <ip>'', ''blocklist(B) <ip>'', ''downgrade-threshold(dt) [value]'',
      ''downgrade-start-check(t) [value(second)]'', ''limit-speed(ls) [value(Mb/s)]'',
      ''total-bandwidth(tb) [value(Mb/s)]'', ''single-bandwidth(sb) [value(Mb/s)]'', ''usage(u)''])"

definition list_add :: "string option \<Rightarrow> string set \<Rightarrow> string set" where
  "list_add arg xs = (case arg of Some ip \<Rightarrow> xs \<union> set (split_on (CHR ''|'') ip) | None \<Rightarrow> xs)"

definition list_remove :: "string option \<Rightarrow> string set \<Rightarrow> string set" where
  "list_remove arg xs =
     (case arg of
        Some ip \<Rightarrow> if ip = ''all'' then {} else xs - set (split_on (CHR ''|'') ip)
      | None \<Rightarrow> xs)"

definition list_show :: "(string set \<Rightarrow> string list) \<Rightarrow> string option \<Rightarrow> string set \<Rightarrow> string" where
  "list_show keys arg xs =
     (case arg of
        Some ip \<Rightarrow> text_line (if ip \<in> xs then ''true'' else ''false'')
      | None \<Rightarrow> concat (map text_line (keys xs)))"

text \<open>The table of transfers, the largest first; \<open>keys\<close> is the order of the hash map.\<close>

definition show_usage :: "'f f64_ops \<Rightarrow> (string set \<Rightarrow> string list) \<Rightarrow> (string \<rightharpoonup> usage) \<Rightarrow> string" where
  "show_usage f keys u =
     concat (map (\<lambda>(ip, (elapsed, total, highest, speed)).
         if elapsed = 0 then []
         else text_line (ip @ '': '' @ show_nat (unat (elapsed div 1000)) @ ''s '' @ f_show_mb f total @ ''MB '' @
                show_nat (unat highest) @ ''kb/s '' @ show_nat (unat (total div elapsed)) @ ''kb/s '' @
                show_nat (unat speed) @ ''kb/s''))
       (sort_key (\<lambda>(ip, (elapsed, total, highest, speed)). - int (unat total))
         (map (\<lambda>ip. (ip, the (u ip))) (keys (dom u)))))"

definition cmd_rate ::
    "'f f64_ops \<Rightarrow> nat \<Rightarrow> string \<Rightarrow> string option \<Rightarrow> usize \<Rightarrow> string \<times> usize" where
  "cmd_rate f k unit_text arg old =
     (case arg of
        Some v \<Rightarrow> ([], rate_of f k v old)
      | None \<Rightarrow> (text_line (f_show f k old @ unit_text), old))"

definition cmd_start_check :: "string option \<Rightarrow> usize \<Rightarrow> string \<times> usize" where
  "cmd_start_check arg old =
     (case arg of
        Some v \<Rightarrow> ([], start_check_of v old)
      | None \<Rightarrow> (text_line (show_nat (unat (old div 1000)) @ ''s''), old))"

text \<open>\<open>total-bandwidth\<close> also sets the speed of the limiter, but only when the value is accepted.\<close>

definition cmd_total_bandwidth :: "'f f64_ops \<Rightarrow> string option \<Rightarrow> relay \<Rightarrow> string \<times> relay" where
  "cmd_total_bandwidth f arg r =
     (let old = rp_total_bandwidth (rl_params r);
          (res, v) = cmd_rate f mega ''Mb/s'' arg old;
          accepted = (case arg of
                        Some t \<Rightarrow> (case f_parse f t of Some x \<Rightarrow> f_positive f x | None \<Rightarrow> False)
                      | None \<Rightarrow> False)
      in (res, if accepted then r\<lparr>rl_params := (rl_params r)\<lparr>rp_total_bandwidth := v\<rparr>, rl_limit := v\<rparr> else r))"

definition relay_check_cmd ::
    "'f f64_ops \<Rightarrow> (string set \<Rightarrow> string list) \<Rightarrow> string \<Rightarrow> relay \<Rightarrow> string \<times> relay" where
  "relay_check_cmd f keys cmd r =
     (let fds = split_on (CHR '' '') (str_trim cmd);
          c = hd fds; a = (if 1 < length fds then Some (fds ! 1) else None); p = rl_params r
      in if c = ''h'' then (relay_help, r)
         else if c \<in> {''blacklist-add'', ''ba''} then ([], r\<lparr>rl_blacklist := list_add a (rl_blacklist r)\<rparr>)
         else if c \<in> {''blacklist-remove'', ''br''} then ([], r\<lparr>rl_blacklist := list_remove a (rl_blacklist r)\<rparr>)
         else if c \<in> {''blacklist'', ''b''} then (list_show keys a (rl_blacklist r), r)
         else if c \<in> {''blocklist-add'', ''Ba''} then ([], r\<lparr>rl_blocklist := list_add a (rl_blocklist r)\<rparr>)
         else if c \<in> {''blocklist-remove'', ''Br''} then ([], r\<lparr>rl_blocklist := list_remove a (rl_blocklist r)\<rparr>)
         else if c \<in> {''blocklist'', ''B''} then (list_show keys a (rl_blocklist r), r)
         else if c \<in> {''downgrade-threshold'', ''dt''} then
           (let (res, v) = cmd_rate f 100 [] a (rp_downgrade_threshold_100 p)
            in (res, r\<lparr>rl_params := p\<lparr>rp_downgrade_threshold_100 := v\<rparr>\<rparr>))
         else if c \<in> {''downgrade-start-check'', ''t''} then
           (let (res, v) = cmd_start_check a (rp_downgrade_start_check p)
            in (res, r\<lparr>rl_params := p\<lparr>rp_downgrade_start_check := v\<rparr>\<rparr>))
         else if c \<in> {''limit-speed'', ''ls''} then
           (let (res, v) = cmd_rate f mega ''Mb/s'' a (rp_limit_speed p)
            in (res, r\<lparr>rl_params := p\<lparr>rp_limit_speed := v\<rparr>\<rparr>))
         else if c \<in> {''total-bandwidth'', ''tb''} then cmd_total_bandwidth f a r
         else if c \<in> {''single-bandwidth'', ''sb''} then
           (let (res, v) = cmd_rate f mega ''Mb/s'' a (rp_single_bandwidth p)
            in (res, r\<lparr>rl_params := p\<lparr>rp_single_bandwidth := v\<rparr>\<rparr>))
         else if c \<in> {''usage'', ''u''} then (show_usage f keys (rl_usage r), r)
         else ([], r))"

section \<open>Transfer\<close>

text \<open>The variables of the loop of \<open>relay\<close>.\<close>

record transfer =
  tr_tm :: instant
  tr_elapsed :: usize
  tr_total :: usize
  tr_total_s :: usize
  tr_highest_s :: usize
  tr_downgrade :: bool
  tr_blacked :: bool
  tr_last_recv :: instant

definition new_transfer :: "instant \<Rightarrow> transfer" where
  "new_transfer now =
     \<lparr>tr_tm = now, tr_elapsed = 0, tr_total = 0, tr_total_s = 0, tr_highest_s = 0, tr_downgrade = False,
      tr_blacked = False, tr_last_recv = now\<rparr>"

datatype side = PeerSide | StreamSide

text \<open>An event of the loop: a message from one side, with whether forwarding it succeeds; the end of
  one side; the timer.\<close>

datatype transfer_event = Message side bytes bool | Closed side | TimerTick

datatype limiter_kind = SingleLimiter | BlacklistLimiter | TotalLimiter

datatype transfer_effect = Consume limiter_kind usize | Forward side bytes | ReportUsage usage

datatype transfer_end = Finished | SendError | TimedOut

fun other_side :: "side \<Rightarrow> side" where
  "other_side PeerSide = StreamSide"
| "other_side StreamSide = PeerSide"

text \<open>The branches of the \<open>select!\<close>.\<close>

definition transfer_branch ::
    "instant \<Rightarrow> transfer_event \<Rightarrow> transfer \<Rightarrow> (transfer_end + transfer) \<times> transfer_effect list" where
  "transfer_branch now ev t =
     (case ev of
        Message from bs sent \<Rightarrow>
          (let nb = of_nat (length bs) * 8;
               t = t\<lparr>tr_last_recv := now, tr_total := tr_total t + nb, tr_total_s := tr_total_s t + nb\<rparr>;
               charge = [Consume (if tr_blacked t \<or> tr_downgrade t then BlacklistLimiter else SingleLimiter) nb,
                         Consume TotalLimiter nb]
           in if bs = [] then (Inr t, charge)
              else if sent then (Inr t, charge @ [Forward (other_side from) bs])
              else (Inl SendError, charge))
      | Closed from \<Rightarrow> (Inl Finished, [])
      | TimerTick \<Rightarrow> if elapsed_secs now (tr_last_recv t) > 30 then (Inl TimedOut, []) else (Inr t, []))"

text \<open>The accounting after a branch, once a second has passed; \<open>threshold\<close> is in bits per
  millisecond.\<close>

definition transfer_account ::
    "string \<Rightarrow> usize \<Rightarrow> relay \<Rightarrow> instant \<Rightarrow> transfer \<Rightarrow> (transfer_end + transfer) \<times> transfer_effect list" where
  "transfer_account ip threshold r now t =
     (let n = (of_nat (elapsed_millis now (tr_tm t)) :: usize) in
      if n \<ge> 1000 then
        (if ip \<in> rl_blocklist r then (Inl Finished, [])
         else
           (let speed = tr_total_s t div n;
                t = t\<lparr>tr_blacked := (ip \<in> rl_blacklist r), tr_tm := now,
                      tr_highest_s := max (tr_highest_s t) speed, tr_elapsed := tr_elapsed t + n, tr_total_s := 0\<rparr>;
                report = ReportUsage (tr_elapsed t, tr_total t, tr_highest_s t, speed)
            in (Inr (if tr_elapsed t > rp_downgrade_start_check (rl_params r) \<and> \<not> tr_downgrade t \<and>
                        tr_total t > tr_elapsed t * threshold
                     then t\<lparr>tr_downgrade := True\<rparr> else t), [report])))
      else (Inr t, []))"

text \<open>One turn of the loop, with the clock before and after the branch.\<close>

definition transfer_turn ::
    "string \<Rightarrow> usize \<Rightarrow> relay \<Rightarrow> instant \<times> instant \<times> transfer_event \<Rightarrow> transfer \<Rightarrow>
     (transfer_end + transfer) \<times> transfer_effect list" where
  "transfer_turn ip threshold r ev t =
     (case ev of (now, now', e) \<Rightarrow>
        case transfer_branch now e t of
          (Inl stop, out) \<Rightarrow> (Inl stop, out)
        | (Inr t, out) \<Rightarrow>
            (case transfer_account ip threshold r now' t of (res, out') \<Rightarrow> (res, out @ out')))"

text \<open>\<open>relay\<close>: the loop over its events, each with the state of the server at that time. The threshold is
  computed once, from the parameters at the start.\<close>

fun transfer_run ::
    "string \<Rightarrow> usize \<Rightarrow> (relay \<times> instant \<times> instant \<times> transfer_event) list \<Rightarrow> transfer \<Rightarrow>
     (transfer_end + transfer) \<times> transfer_effect list" where
  "transfer_run ip threshold [] t = (Inr t, [])"
| "transfer_run ip threshold ((r, ev) # evs) t =
     (case transfer_turn ip threshold r ev t of
        (Inl stop, out) \<Rightarrow> (Inl stop, out)
      | (Inr t, out) \<Rightarrow> (case transfer_run ip threshold evs t of (res, out') \<Rightarrow> (res, out @ out')))"

definition relay_transfer ::
    "'f f64_ops \<Rightarrow> relay \<Rightarrow> socket_addr \<Rightarrow> instant \<Rightarrow> (relay \<times> instant \<times> instant \<times> transfer_event) list \<Rightarrow>
     (transfer_end + transfer) \<times> transfer_effect list" where
  "relay_transfer f r addr now evs =
     transfer_run (ip_to_string (sa_ip addr))
       (f_threshold f (rp_single_bandwidth (rl_params r)) (rp_downgrade_threshold_100 (rl_params r)))
       evs (new_transfer now)"

section \<open>Steps\<close>

inductive relay_step :: "'f f64_ops \<Rightarrow> (bytes \<Rightarrow> rmsg option) \<Rightarrow> string \<Rightarrow> relay \<Rightarrow> relay \<Rightarrow> bool" for f parse key where
  accept: "handle_connection addr ws v (rl_blocklist r) = Served \<Longrightarrow> \<not> (ws \<and> v) \<Longrightarrow>
    relay_step f parse key r (r\<lparr>rl_next := Suc (rl_next r),
      rl_tasks := (rl_tasks r)(rl_next r \<mapsto> Reading (if ws then ws_real_addr h addr else addr) ws v)\<rparr>)"
| request: "rl_tasks r n = Some (Reading addr ws v) \<Longrightarrow>
    relay_step f parse key r (pair_request parse key n addr ws v bs r)"
| give_up: "rl_tasks r n = Some (Reading addr ws v) \<Longrightarrow> relay_step f parse key r (end_task n r)"
| insert: "rl_tasks r n = Some (Inserting uuid ws) \<Longrightarrow> relay_step f parse key r (pair_insert now n uuid ws r)"
| expire: "rl_tasks r n = Some (Waiting uuid since) \<Longrightarrow> elapsed_secs now since \<ge> 30 \<Longrightarrow>
    relay_step f parse key r (pair_expire n uuid r)"
| report: "rl_tasks r n = Some (Relaying p uid raw) \<Longrightarrow>
    relay_step f parse key r (r\<lparr>rl_usage := (rl_usage r)(uid \<mapsto> u)\<rparr>)"
| close: "rl_tasks r n = Some (Relaying p uid raw) \<Longrightarrow> relay_step f parse key r (pair_close n uid r)"
| command: "relay_check_cmd f keys cmd r = (res, r') \<Longrightarrow> relay_step f parse key r r'"

inductive relay_run :: "'f f64_ops \<Rightarrow> (bytes \<Rightarrow> rmsg option) \<Rightarrow> string \<Rightarrow> relay \<Rightarrow> relay \<Rightarrow> bool" for f parse key where
  start: "relay_run f parse key r r"
| step: "relay_run f parse key r r' \<Longrightarrow> relay_step f parse key r' r'' \<Longrightarrow> relay_run f parse key r r''"

text \<open>The tables of the pairing are in order.\<close>

definition pairing_ok ::
    "nat \<Rightarrow> (string \<rightharpoonup> nat \<times> bool) \<Rightarrow> (nat \<rightharpoonup> task) \<Rightarrow> (nat \<rightharpoonup> string) \<Rightarrow> bool" where
  "pairing_ok nx peers tasks asked \<longleftrightarrow>
     (\<forall>n \<ge> nx. tasks n = None \<and> asked n = None) \<and>
     (\<forall>n u. asked n = Some u \<longrightarrow> u \<noteq> []) \<and>
     (\<forall>n a ws v. tasks n = Some (Reading a ws v) \<longrightarrow> asked n = None) \<and>
     (\<forall>n u ws. tasks n = Some (Inserting u ws) \<longrightarrow> asked n = Some u) \<and>
     (\<forall>u n ws. peers u = Some (n, ws) \<longrightarrow> asked n = Some u \<and> (\<exists>t. tasks n = Some (Waiting u t))) \<and>
     (\<forall>m p uid raw. tasks m = Some (Relaying p uid raw) \<longrightarrow>
        asked m \<noteq> None \<and> asked p = asked m \<and> p \<notin> fst ` ran peers \<and>
        (tasks p = None \<or> (\<exists>u t. tasks p = Some (Waiting u t)))) \<and>
     (\<forall>m m' p uid raw uid' raw'. tasks m = Some (Relaying p uid raw) \<longrightarrow>
        tasks m' = Some (Relaying p uid' raw') \<longrightarrow> m = m')"

definition relay_ok :: "relay \<Rightarrow> bool" where
  "relay_ok r \<longleftrightarrow> pairing_ok (rl_next r) (rl_peers r) (rl_tasks r) (rl_asked r)"

section \<open>Pairing lemmas\<close>

lemmas pairing_unfold = pairing_ok_def [THEN iffD1]
lemmas pairing_tail = pairing_unfold [THEN conjunct2]

lemmas pairingD =
  pairing_unfold [THEN conjunct1, rule_format]
  pairing_tail [THEN conjunct1, rule_format]
  pairing_tail [THEN conjunct2, THEN conjunct1, rule_format]
  pairing_tail [THEN conjunct2, THEN conjunct2, THEN conjunct1, rule_format]
  pairing_tail [THEN conjunct2, THEN conjunct2, THEN conjunct2, THEN conjunct1, rule_format]
  pairing_tail [THEN conjunct2, THEN conjunct2, THEN conjunct2, THEN conjunct2, THEN conjunct1, rule_format]
  pairing_tail [THEN conjunct2, THEN conjunct2, THEN conjunct2, THEN conjunct2, THEN conjunct2, rule_format]

text \<open>A task that does not wait ends.\<close>

lemma pairing_end:
  assumes ok: "pairing_ok nx peers tasks asked" and n: "\<And>u t. tasks n \<noteq> Some (Waiting u t)"
  shows "pairing_ok nx peers (tasks(n := None)) asked"
  unfolding pairing_ok_def
proof (intro conjI allI impI; (elim conjE)?)
  fix m p uid raw assume "(tasks(n := None)) m = Some (Relaying p uid raw)"
  then have m: "tasks m = Some (Relaying p uid raw)" by (auto split: if_splits)
  note pairingD(6) [OF ok m]
  then show "asked m \<noteq> None" "asked p = asked m" "p \<notin> fst ` ran peers"
    "(tasks(n := None)) p = None \<or> (\<exists>u t. (tasks(n := None)) p = Some (Waiting u t))" by auto
next
  fix m m' p uid raw uid' raw'
  assume "(tasks(n := None)) m = Some (Relaying p uid raw)" "(tasks(n := None)) m' = Some (Relaying p uid' raw')"
  then show "m = m'" using pairingD(7) [OF ok] by (auto split: if_splits)
next
  fix u m w assume p: "peers u = Some (m, w)"
  then show "asked m = Some u" using pairingD(5) [OF ok] by blast
  show "\<exists>t. (tasks(n := None)) m = Some (Waiting u t)" using pairingD(5) [OF ok p] n by auto
qed (use pairingD(1-4) [OF ok] in \<open>auto split: if_splits\<close>)

lemma pairing_accept:
  assumes ok: "pairing_ok nx peers tasks asked"
  shows "pairing_ok (Suc nx) peers (tasks(nx \<mapsto> Reading a ws v)) asked"
  unfolding pairing_ok_def
proof (intro conjI allI impI)
  fix m p uid raw assume "(tasks(nx \<mapsto> Reading a ws v)) m = Some (Relaying p uid raw)"
  then have m: "tasks m = Some (Relaying p uid raw)" by (auto split: if_splits)
  have "p \<noteq> nx" using pairingD(6) [OF ok m] pairingD(1) [OF ok, of nx] by auto
  with pairingD(6) [OF ok m] show "asked m \<noteq> None" "asked p = asked m" "p \<notin> fst ` ran peers"
    "(tasks(nx \<mapsto> Reading a ws v)) p = None \<or> (\<exists>u t. (tasks(nx \<mapsto> Reading a ws v)) p = Some (Waiting u t))" by auto
next
  fix m m' p uid raw uid' raw'
  assume "(tasks(nx \<mapsto> Reading a ws v)) m = Some (Relaying p uid raw)" "(tasks(nx \<mapsto> Reading a ws v)) m' = Some (Relaying p uid' raw')"
  then show "m = m'" using pairingD(7) [OF ok] by (auto split: if_splits)
next
  fix u m w assume p: "peers u = Some (m, w)"
  then show "asked m = Some u" using pairingD(5) [OF ok] by blast
  have "m \<noteq> nx" using pairingD(5) [OF ok p] pairingD(1) [OF ok, of nx] by auto
  then show "\<exists>t. (tasks(nx \<mapsto> Reading a ws v)) m = Some (Waiting u t)" using pairingD(5) [OF ok p] by auto
qed (use pairingD(1-4) [OF ok] in \<open>auto split: if_splits\<close>)

lemma pairing_await:
  assumes ok: "pairing_ok nx peers tasks asked" and n: "tasks n = Some (Reading a ws v)" and u: "u \<noteq> []"
  shows "pairing_ok nx peers (tasks(n \<mapsto> Inserting u ws)) (asked(n \<mapsto> u))"
  unfolding pairing_ok_def
proof (intro conjI allI impI)
  fix m p uid raw assume "(tasks(n \<mapsto> Inserting u ws)) m = Some (Relaying p uid raw)"
  then have m: "tasks m = Some (Relaying p uid raw)" "m \<noteq> n" by (auto split: if_splits)
  have "p \<noteq> n" using pairingD(6) [OF ok m(1)] n by auto
  with m(2) pairingD(6) [OF ok m(1)] show "(asked(n \<mapsto> u)) m \<noteq> None" "(asked(n \<mapsto> u)) p = (asked(n \<mapsto> u)) m" "p \<notin> fst ` ran peers"
    "(tasks(n \<mapsto> Inserting u ws)) p = None \<or> (\<exists>u' t. (tasks(n \<mapsto> Inserting u ws)) p = Some (Waiting u' t))" by auto
next
  fix m m' p uid raw uid' raw'
  assume "(tasks(n \<mapsto> Inserting u ws)) m = Some (Relaying p uid raw)" "(tasks(n \<mapsto> Inserting u ws)) m' = Some (Relaying p uid' raw')"
  then show "m = m'" using pairingD(7) [OF ok] by (auto split: if_splits)
next
  fix u' m w assume p: "peers u' = Some (m, w)"
  have "m \<noteq> n" using pairingD(5) [OF ok p] n by auto
  then show "(asked(n \<mapsto> u)) m = Some u'" "\<exists>t. (tasks(n \<mapsto> Inserting u ws)) m = Some (Waiting u' t)"
    using pairingD(5) [OF ok p] by auto
next
  fix m assume "nx \<le> m"
  moreover have "n < nx" using pairingD(1) [OF ok, of n] n by (cases "n < nx") auto
  ultimately show "(tasks(n \<mapsto> Inserting u ws)) m = None" "(asked(n \<mapsto> u)) m = None"
    using pairingD(1) [OF ok, of m] by auto
qed (use pairingD(2-4) [OF ok] u in \<open>auto split: if_splits\<close>)

lemma pairing_pair:
  assumes ok: "pairing_ok nx peers tasks asked" and n: "tasks n = Some (Reading a ws v)" and q: "peers u = Some (q, qws)"
  shows "pairing_ok nx (peers(u := None)) (tasks(n \<mapsto> Relaying q uid raw)) (asked(n \<mapsto> u))"
  unfolding pairing_ok_def
proof (intro conjI allI impI)
  have q': "asked q = Some u" "q \<noteq> n" "\<exists>t. tasks q = Some (Waiting u t)" using pairingD(5) [OF ok q] n by auto
  have sub: "fst ` ran (peers(u := None)) \<subseteq> fst ` ran peers" by (auto simp: ran_def image_iff split: if_splits)
  have gone: "q \<notin> fst ` ran (peers(u := None))"
  proof
    assume "q \<in> fst ` ran (peers(u := None))"
    then obtain u' w where "u' \<noteq> u" "peers u' = Some (q, w)" by (auto simp: ran_def split: if_splits)
    then show False using pairingD(5) [OF ok, of u' q w] q'(1) by auto
  qed
  fix m p uid' raw' assume m: "(tasks(n \<mapsto> Relaying q uid raw)) m = Some (Relaying p uid' raw')"
  have "asked p = asked m \<and> asked m \<noteq> None \<and> p \<noteq> n \<and> p \<notin> fst ` ran peers \<and> (tasks p = None \<or> (\<exists>u t. tasks p = Some (Waiting u t)))"
    if "m \<noteq> n"
    using m that pairingD(6) [OF ok, of m p uid' raw'] n by auto
  with m q' gone sub show "(asked(n \<mapsto> u)) m \<noteq> None" "(asked(n \<mapsto> u)) p = (asked(n \<mapsto> u)) m" "p \<notin> fst ` ran (peers(u := None))"
    "(tasks(n \<mapsto> Relaying q uid raw)) p = None \<or> (\<exists>u t. (tasks(n \<mapsto> Relaying q uid raw)) p = Some (Waiting u t))"
    by (cases "m = n"; force)+
next
  fix m m' p uid1 raw1 uid2 raw2
  assume m: "(tasks(n \<mapsto> Relaying q uid raw)) m = Some (Relaying p uid1 raw1)" "(tasks(n \<mapsto> Relaying q uid raw)) m' = Some (Relaying p uid2 raw2)"
  have "q \<in> fst ` ran peers" using q by (force simp: ran_def)
  then have "tasks k \<noteq> Some (Relaying q uid' raw')" for k uid' raw' using pairingD(6) [OF ok, of k q uid' raw'] by blast
  with m show "m = m'" using pairingD(7) [OF ok, of m p uid1 raw1 m' uid2 raw2] by (auto split: if_splits)
next
  fix u' m w assume p: "(peers(u := None)) u' = Some (m, w)"
  then have p': "peers u' = Some (m, w)" by (auto split: if_splits)
  have "m \<noteq> n" using pairingD(5) [OF ok p'] n by auto
  then show "(asked(n \<mapsto> u)) m = Some u'" "\<exists>t. (tasks(n \<mapsto> Relaying q uid raw)) m = Some (Waiting u' t)"
    using pairingD(5) [OF ok p'] by auto
next
  fix m assume "nx \<le> m"
  moreover have "n < nx" using pairingD(1) [OF ok, of n] n by (cases "n < nx") auto
  ultimately show "(tasks(n \<mapsto> Relaying q uid raw)) m = None" "(asked(n \<mapsto> u)) m = None"
    using pairingD(1) [OF ok, of m] by auto
qed (use pairingD(2-4) [OF ok] pairingD(5) [OF ok q] in \<open>auto split: if_splits\<close>)

lemma pairing_wait:
  assumes ok: "pairing_ok nx peers tasks asked" and n: "tasks n = Some (Inserting u ws)"
  shows "pairing_ok nx (peers(u \<mapsto> (n, ws))) (tasks(n \<mapsto> Waiting u now)) asked"
  unfolding pairing_ok_def
proof (intro conjI allI impI)
  fix m p uid raw assume "(tasks(n \<mapsto> Waiting u now)) m = Some (Relaying p uid raw)"
  then have m: "tasks m = Some (Relaying p uid raw)" "m \<noteq> n" by (auto split: if_splits)
  have "p \<noteq> n" using pairingD(6) [OF ok m(1)] n by auto
  moreover have "fst ` ran (peers(u \<mapsto> (n, ws))) \<subseteq> insert n (fst ` ran peers)"
    by (auto simp: ran_def image_iff split: if_splits)
  ultimately show "asked m \<noteq> None" "asked p = asked m" "p \<notin> fst ` ran (peers(u \<mapsto> (n, ws)))"
    "(tasks(n \<mapsto> Waiting u now)) p = None \<or> (\<exists>u' t. (tasks(n \<mapsto> Waiting u now)) p = Some (Waiting u' t))"
    using pairingD(6) [OF ok m(1)] by auto
next
  fix m m' p uid raw uid' raw'
  assume "(tasks(n \<mapsto> Waiting u now)) m = Some (Relaying p uid raw)" "(tasks(n \<mapsto> Waiting u now)) m' = Some (Relaying p uid' raw')"
  then show "m = m'" using pairingD(7) [OF ok] by (auto split: if_splits)
next
  fix u' m w assume "(peers(u \<mapsto> (n, ws))) u' = Some (m, w)"
  then have "u' = u \<and> m = n \<or> u' \<noteq> u \<and> peers u' = Some (m, w)" by (auto split: if_splits)
  then show "asked m = Some u'" "\<exists>t. (tasks(n \<mapsto> Waiting u now)) m = Some (Waiting u' t)"
    using pairingD(5) [OF ok, of u' m w] pairingD(4) [OF ok n] n by auto
next
  fix m assume "nx \<le> m"
  moreover have "n < nx" using pairingD(1) [OF ok, of n] n by (cases "n < nx") auto
  ultimately show "(tasks(n \<mapsto> Waiting u now)) m = None" "asked m = None" using pairingD(1) [OF ok, of m] by auto
qed (use pairingD(2-4) [OF ok] in \<open>auto split: if_splits\<close>)

lemma pairing_expire:
  assumes ok: "pairing_ok nx peers tasks asked" and n: "tasks n = Some (Waiting u since)"
  shows "pairing_ok nx (peers(u := None)) (tasks(n := None)) asked"
  unfolding pairing_ok_def
proof (intro conjI allI impI)
  fix m p uid raw assume "(tasks(n := None)) m = Some (Relaying p uid raw)"
  then have m: "tasks m = Some (Relaying p uid raw)" by (auto split: if_splits)
  have "fst ` ran (peers(u := None)) \<subseteq> fst ` ran peers" by (auto simp: ran_def image_iff split: if_splits)
  then show "asked m \<noteq> None" "asked p = asked m" "p \<notin> fst ` ran (peers(u := None))"
    "(tasks(n := None)) p = None \<or> (\<exists>u' t. (tasks(n := None)) p = Some (Waiting u' t))"
    using pairingD(6) [OF ok m] by auto
next
  fix m m' p uid raw uid' raw'
  assume "(tasks(n := None)) m = Some (Relaying p uid raw)" "(tasks(n := None)) m' = Some (Relaying p uid' raw')"
  then show "m = m'" using pairingD(7) [OF ok] by (auto split: if_splits)
next
  fix u' m w assume "(peers(u := None)) u' = Some (m, w)"
  then have "u' \<noteq> u" "peers u' = Some (m, w)" by (auto split: if_splits)
  then show "asked m = Some u'" "\<exists>t. (tasks(n := None)) m = Some (Waiting u' t)"
    using pairingD(5) [OF ok, of u' m w] n by auto
qed (use pairingD(1-4) [OF ok] in \<open>auto split: if_splits\<close>)

lemma relay_cmd_frame:
  assumes "relay_check_cmd f keys cmd r = (res, r')"
  shows "rl_peers r' = rl_peers r" "rl_tasks r' = rl_tasks r" "rl_asked r' = rl_asked r" "rl_next r' = rl_next r"
    "rl_usage r' = rl_usage r"
proof -
  have "rl_peers r' = rl_peers r \<and> rl_tasks r' = rl_tasks r \<and> rl_asked r' = rl_asked r \<and> rl_next r' = rl_next r \<and>
      rl_usage r' = rl_usage r"
    using assms
    by (auto simp: relay_check_cmd_def cmd_total_bandwidth_def Let_def split: if_splits prod.splits)
  then show "rl_peers r' = rl_peers r" "rl_tasks r' = rl_tasks r" "rl_asked r' = rl_asked r" "rl_next r' = rl_next r"
    "rl_usage r' = rl_usage r" by simp_all
qed

lemma pair_request_cases:
  obtains
    (ended) "pair_request parse key n addr ws v bs r = end_task n r"
  | (paired) rf p pws where "parse bs = Some (RequestRelay rf)" "relay_key_is_valid key (rf_licence_key rf) v"
      "rf_uuid rf \<noteq> []" "rl_peers r (rf_uuid rf) = Some (p, pws)"
      "pair_request parse key n addr ws v bs r =
        r\<lparr>rl_asked := (rl_asked r)(n \<mapsto> rf_uuid rf), rl_peers := (rl_peers r)(rf_uuid rf := None),
          rl_usage := (rl_usage r)(usage_id addr \<mapsto> (0, 0, 0, 0)),
          rl_tasks := (rl_tasks r)(n \<mapsto> Relaying p (usage_id addr) (\<not> ws \<and> \<not> pws))\<rparr>"
  | (first) rf where "parse bs = Some (RequestRelay rf)" "relay_key_is_valid key (rf_licence_key rf) v"
      "rf_uuid rf \<noteq> []" "rl_peers r (rf_uuid rf) = None"
      "pair_request parse key n addr ws v bs r =
        r\<lparr>rl_asked := (rl_asked r)(n \<mapsto> rf_uuid rf), rl_tasks := (rl_tasks r)(n \<mapsto> Inserting (rf_uuid rf) ws)\<rparr>"
proof (cases "\<exists>rf. parse bs = Some (RequestRelay rf) \<and> relay_key_is_valid key (rf_licence_key rf) v \<and> rf_uuid rf \<noteq> []")
  case True
  then obtain rf where rf: "parse bs = Some (RequestRelay rf)" "relay_key_is_valid key (rf_licence_key rf) v" "rf_uuid rf \<noteq> []"
    by blast
  show ?thesis
  proof (cases "rl_peers r (rf_uuid rf)")
    case None
    with rf first show ?thesis by (simp add: pair_request_def)
  next
    case (Some q)
    with rf paired [of rf "fst q" "snd q"] show ?thesis by (auto simp: pair_request_def split: prod.splits)
  qed
next
  case False
  then have "pair_request parse key n addr ws v bs r = end_task n r"
    by (auto simp: pair_request_def split: option.splits rmsg.splits)
  then show ?thesis by (rule ended)
qed

lemma relay_step_ok:
  assumes "relay_step f parse key r r'" "relay_ok r"
  shows "relay_ok r'"
  using assms(1)
proof (cases rule: relay_step.cases)
  case (accept addr ws v h)
  then show ?thesis using pairing_accept [OF assms(2) [unfolded relay_ok_def]] by (simp add: relay_ok_def)
next
  case (request n addr ws v bs)
  note ok = assms(2) [unfolded relay_ok_def]
  show ?thesis
  proof (cases rule: pair_request_cases [of parse key n addr ws v bs r])
    case ended
    then show ?thesis using request pairing_end [OF ok, of n] by (simp add: relay_ok_def end_task_def)
  next
    case (paired rf p pws)
    then show ?thesis using request pairing_pair [OF ok request(2) paired(4)] by (simp add: relay_ok_def)
  next
    case (first rf)
    then show ?thesis using request pairing_await [OF ok request(2) first(3)] by (simp add: relay_ok_def)
  qed
next
  case (give_up n addr ws v)
  then show ?thesis
    using pairing_end [OF assms(2) [unfolded relay_ok_def], of n] by (simp add: relay_ok_def end_task_def)
next
  case (insert n uuid ws now)
  then show ?thesis
    using pairing_wait [OF assms(2) [unfolded relay_ok_def] insert(2)] by (simp add: relay_ok_def pair_insert_def)
next
  case (expire n uuid since now)
  then show ?thesis
    using pairing_expire [OF assms(2) [unfolded relay_ok_def] expire(2)] by (simp add: relay_ok_def pair_expire_def end_task_def)
next
  case (report n p uid raw u)
  then show ?thesis using assms(2) by (simp add: relay_ok_def)
next
  case (close n p uid raw)
  then show ?thesis
    using pairing_end [OF assms(2) [unfolded relay_ok_def], of n] by (simp add: relay_ok_def pair_close_def end_task_def)
next
  case (command keys cmd res)
  then show ?thesis using assms(2) relay_cmd_frame [OF command] by (simp add: relay_ok_def)
qed

lemma relay_run_ok: "relay_run f parse key r r' \<Longrightarrow> relay_ok r \<Longrightarrow> relay_ok r'"
  by (induction rule: relay_run.induct) (auto dest: relay_step_ok)

lemma new_relay_ok: "relay_ok (new_relay f env black block)"
  by (simp add: relay_ok_def new_relay_def pairing_ok_def Let_def)

text \<open>The timer of a stream that was taken long ago removes whatever waits under its session then: a
  stream that asks for the same session again is dropped before its time is over.\<close>

lemma stale_timer_drops_younger:
  assumes "rl_tasks r n = Some (Waiting u t)" "rl_tasks r m = Some (Waiting u t')" "rl_peers r u = Some (m, ws)"
    and "t' = t + 10 * 1000000000" "now = t + 30 * 1000000000"
  shows "\<exists>r'. relay_step f parse key r r' \<and> rl_peers r' u = None \<and> elapsed_secs now t' = 20"
proof -
  have "relay_step f parse key r (pair_expire n u r)"
    by (rule relay_step.expire [OF assms(1), of now]) (simp add: assms(5) elapsed_secs_def elapsed_def as_secs_def)
  moreover have "elapsed_secs now t' = 20" by (simp add: assms(4,5) elapsed_secs_def elapsed_def as_secs_def)
  ultimately show ?thesis by (auto simp: pair_expire_def end_task_def)
qed

section \<open>Transfer lemmas\<close>

text \<open>The bytes that one side has sent in a list of events, and that were forwarded to one side.\<close>

fun sent_by :: "side \<Rightarrow> transfer_event \<Rightarrow> bytes" where
  "sent_by s (Message from bs sent) = (if from = s then bs else [])"
| "sent_by s _ = []"

fun forwarded_to :: "side \<Rightarrow> transfer_effect \<Rightarrow> bytes" where
  "forwarded_to s (Forward s' bs) = (if s' = s then bs else [])"
| "forwarded_to s _ = []"

fun consumed :: "limiter_kind set \<Rightarrow> transfer_effect \<Rightarrow> usize" where
  "consumed ks (Consume k nb) = (if k \<in> ks then nb else 0)"
| "consumed ks _ = 0"

abbreviation all_sent :: "side \<Rightarrow> (relay \<times> instant \<times> instant \<times> transfer_event) list \<Rightarrow> bytes" where
  "all_sent s evs \<equiv> concat (map (\<lambda>ev. sent_by s (snd (snd (snd ev)))) evs)"

abbreviation all_forwarded :: "side \<Rightarrow> transfer_effect list \<Rightarrow> bytes" where
  "all_forwarded s out \<equiv> concat (map (forwarded_to s) out)"

abbreviation all_consumed :: "limiter_kind set \<Rightarrow> transfer_effect list \<Rightarrow> usize" where
  "all_consumed ks out \<equiv> sum_list (map (consumed ks) out)"

lemma other_side_eq: "other_side s = s' \<longleftrightarrow> s = other_side s'"
  by (cases s; cases s') auto

lemma account_quiet:
  assumes "transfer_account ip th r now t = (res, out)"
  shows "all_forwarded s out = []" "all_consumed ks out = 0"
    "res = Inr t' \<Longrightarrow> tr_total t' = tr_total t \<and> (tr_downgrade t \<longrightarrow> tr_downgrade t')"
  using assms by (auto simp: transfer_account_def Let_def split: if_splits)

lemma branch_forwards:
  assumes "transfer_branch now ev t = (res, out)"
  shows "all_forwarded s out = (if isl res then [] else sent_by (other_side s) ev)"
  using assms by (cases ev)
    (auto simp: transfer_branch_def Let_def other_side_eq split: if_splits)

lemma turn_forwards:
  assumes "transfer_turn ip th r ev t = (res, out)"
  shows "prefix (all_forwarded s out) (sent_by (other_side s) (snd (snd ev)))"
    "\<not> isl res \<Longrightarrow> all_forwarded s out = sent_by (other_side s) (snd (snd ev))"
proof -
  obtain now now' e where ev: "ev = (now, now', e)" by (metis surj_pair)
  obtain b bout where b: "transfer_branch now e t = (b, bout)" by fastforce
  note fw = branch_forwards [OF b, of s]
  have "prefix (all_forwarded s out) (sent_by (other_side s) e) \<and>
      (\<not> isl res \<longrightarrow> all_forwarded s out = sent_by (other_side s) e)"
  proof (cases b)
    case (Inl stop)
    then show ?thesis using assms fw b by (simp add: transfer_turn_def ev)
  next
    case (Inr t1)
    obtain a aout where a: "transfer_account ip th r now' t1 = (a, aout)" by fastforce
    then have "out = bout @ aout" using assms b Inr by (simp add: transfer_turn_def ev)
    then have "all_forwarded s out = all_forwarded s bout @ all_forwarded s aout" by simp
    then show ?thesis using fw Inr account_quiet(1) [OF a, of s] by (simp only:) simp
  qed
  then show "prefix (all_forwarded s out) (sent_by (other_side s) (snd (snd ev)))"
    "\<not> isl res \<Longrightarrow> all_forwarded s out = sent_by (other_side s) (snd (snd ev))" by (simp_all add: ev)
qed

lemma run_forwards:
  assumes "transfer_run ip th evs t = (res, out)"
  shows "prefix (all_forwarded s out) (all_sent (other_side s) evs) \<and>
    (\<not> isl res \<longrightarrow> all_forwarded s out = all_sent (other_side s) evs)"
  using assms
proof (induction evs arbitrary: t res out)
  case (Cons x evs)
  obtain r ev where x: "x = (r, ev)" by (cases x)
  obtain res1 out1 where t1: "transfer_turn ip th r ev t = (res1, out1)" by fastforce
  note fw = turn_forwards [OF t1, of s]
  show ?case
  proof (cases res1)
    case (Inl stop)
    then show ?thesis using Cons.prems t1 x fw(1) by (auto simp: prefix_def)
  next
    case (Inr t2)
    obtain res2 out2 where t2: "transfer_run ip th evs t2 = (res2, out2)" by fastforce
    show ?thesis using Cons.prems t1 x Inr t2 fw(2) Cons.IH [OF t2] by auto
  qed
qed simp

lemma branch_charges:
  assumes "transfer_branch now ev t = (res, out)"
  shows "all_consumed {TotalLimiter} out = of_nat (8 * length (sent_by PeerSide ev @ sent_by StreamSide ev))"
    "all_consumed {SingleLimiter, BlacklistLimiter} out = all_consumed {TotalLimiter} out"
    "res = Inr t' \<Longrightarrow> tr_total t' = tr_total t + all_consumed {TotalLimiter} out \<and> tr_downgrade t' = tr_downgrade t"
proof -
  have side: "from = PeerSide \<or> from = StreamSide" for "from" by (cases "from") auto
  show "all_consumed {TotalLimiter} out = of_nat (8 * length (sent_by PeerSide ev @ sent_by StreamSide ev))"
    using assms side by (cases ev) (fastforce simp: transfer_branch_def Let_def split: if_splits)+
  show "all_consumed {SingleLimiter, BlacklistLimiter} out = all_consumed {TotalLimiter} out"
    "res = Inr t' \<Longrightarrow> tr_total t' = tr_total t + all_consumed {TotalLimiter} out \<and> tr_downgrade t' = tr_downgrade t"
    using assms by (cases ev; auto simp: transfer_branch_def Let_def split: if_splits)+
qed

lemma run_charges:
  assumes "transfer_run ip th evs t = (Inr t', out)"
  shows "all_consumed {TotalLimiter} out = of_nat (8 * (length (all_sent PeerSide evs) + length (all_sent StreamSide evs))) \<and>
    all_consumed {SingleLimiter, BlacklistLimiter} out = all_consumed {TotalLimiter} out \<and>
    tr_total t' = tr_total t + all_consumed {TotalLimiter} out \<and> (tr_downgrade t \<longrightarrow> tr_downgrade t')"
  using assms
proof (induction evs arbitrary: t out)
  case (Cons x evs)
  obtain r now now' e where x: "x = (r, now, now', e)" by (cases x) auto
  obtain t1 bout where b: "transfer_branch now e t = (Inr t1, bout)"
    using Cons.prems x by (auto simp: transfer_turn_def split: prod.splits sum.splits)
  obtain t2 aout where a: "transfer_account ip th r now' t1 = (Inr t2, aout)"
    using Cons.prems x b by (auto simp: transfer_turn_def split: prod.splits sum.splits)
  obtain out2 where c: "transfer_run ip th evs t2 = (Inr t', out2)" "out = bout @ aout @ out2"
    using Cons.prems x b a by (auto simp: transfer_turn_def split: prod.splits)
  note quiet = account_quiet [OF a] and charge = branch_charges [OF b] and IH = Cons.IH [OF c(1)]
  have "all_consumed ks out = all_consumed ks bout + all_consumed ks out2" for ks
    using quiet(2) [of ks] c(2) by simp
  then show ?case
    using charge(1,2) charge(3) [of t1] quiet(3) [of t2] IH
    by (simp add: x algebra_simps)
qed simp

lemma relay_run_trans:
  assumes "relay_run f parse key r' r''" "relay_run f parse key r r'"
  shows "relay_run f parse key r r''"
  using assms by (induction rule: relay_run.induct) (auto intro: relay_run.step)

text \<open>Two connections that ask for the same session, one after the other.\<close>

lemma two_requests_pair:
  fixes now :: instant
  assumes "rl_tasks r a = Some (Reading addr_a ws_a v_a)" "rl_tasks r b = Some (Reading addr_b ws_b v_b)" "a \<noteq> b"
    and "parse bs_a = Some (RequestRelay rf_a)" "parse bs_b = Some (RequestRelay rf_b)"
    and "relay_key_is_valid key (rf_licence_key rf_a) v_a" "relay_key_is_valid key (rf_licence_key rf_b) v_b"
    and "rf_uuid rf_a \<noteq> []" "rf_uuid rf_b = rf_uuid rf_a" "rl_peers r (rf_uuid rf_a) = None"
  defines "r1 \<equiv> pair_insert now a (rf_uuid rf_a) ws_a (pair_request parse key a addr_a ws_a v_a bs_a r)"
  shows "rl_tasks (pair_request parse key b addr_b ws_b v_b bs_b r1) b =
      Some (Relaying a (usage_id addr_b) (\<not> ws_b \<and> \<not> ws_a))"
    "rl_peers (pair_request parse key b addr_b ws_b v_b bs_b r1) = rl_peers r"
    "relay_run f parse key r (pair_request parse key b addr_b ws_b v_b bs_b r1)"
proof -
  have first: "pair_request parse key a addr_a ws_a v_a bs_a r =
      r\<lparr>rl_asked := (rl_asked r)(a \<mapsto> rf_uuid rf_a), rl_tasks := (rl_tasks r)(a \<mapsto> Inserting (rf_uuid rf_a) ws_a)\<rparr>"
    using assms by (simp add: pair_request_def)
  then have r1: "rl_peers r1 = (rl_peers r)(rf_uuid rf_a \<mapsto> (a, ws_a))" "rl_tasks r1 b = Some (Reading addr_b ws_b v_b)"
    using assms by (simp_all add: r1_def pair_insert_def)
  then show "rl_tasks (pair_request parse key b addr_b ws_b v_b bs_b r1) b =
      Some (Relaying a (usage_id addr_b) (\<not> ws_b \<and> \<not> ws_a))"
    "rl_peers (pair_request parse key b addr_b ws_b v_b bs_b r1) = rl_peers r"
    using assms(5,7-10) by (auto simp: pair_request_def fun_eq_iff)
  have "relay_run f parse key r (pair_request parse key a addr_a ws_a v_a bs_a r)"
    by (rule relay_run.step [OF relay_run.start relay_step.request [OF assms(1)]])
  moreover have "relay_step f parse key (pair_request parse key a addr_a ws_a v_a bs_a r) r1"
    unfolding r1_def by (rule relay_step.insert) (simp add: first)
  ultimately have "relay_run f parse key r r1" by (rule relay_run.step)
  then show "relay_run f parse key r (pair_request parse key b addr_b ws_b v_b bs_b r1)"
    by (rule relay_run.step) (rule relay_step.request [OF r1(2)])
qed

text \<open>A server without limits in its environment, a request, and two connections from other hosts.\<close>

definition no_floats :: "unit f64_ops" where
  "no_floats = \<lparr>f_parse = (\<lambda>_. None), f_positive = (\<lambda>_. False), f_scaled = (\<lambda>_ _. 0), f_show = (\<lambda>_ _. []),
     f_show_mb = (\<lambda>_. []), f_threshold = (\<lambda>_ _. 0)\<rparr>"

abbreviation sample_rf :: request_relay where
  "sample_rf \<equiv> \<lparr>rf_id = [], rf_uuid = ''u'', rf_socket_addr = [], rf_relay_server = [], rf_secure = True,
     rf_licence_key = ''k'', rf_rest = []\<rparr>"

definition two_readers :: relay where
  "two_readers = (new_relay no_floats [] None None)\<lparr>rl_next := 2,
     rl_tasks := [0 \<mapsto> Reading (SockV4 9 1) False False, 1 \<mapsto> Reading (SockV4 8 1) False False]\<rparr>"

definition sample_parse :: "bytes \<Rightarrow> rmsg option" where
  "sample_parse bs = Some (RequestRelay sample_rf)"

lemma sample_premises:
  "rl_tasks two_readers 0 = Some (Reading (SockV4 9 1) False False)"
  "rl_tasks two_readers 1 = Some (Reading (SockV4 8 1) False False)"
  "(0 :: nat) \<noteq> 1" "sample_parse [] = Some (RequestRelay sample_rf)"
  "relay_key_is_valid ''k'' (rf_licence_key sample_rf) False" "rf_uuid sample_rf \<noteq> []"
  "rf_uuid sample_rf = rf_uuid sample_rf" "rl_peers two_readers (rf_uuid sample_rf) = None"
  by (simp_all add: two_readers_def new_relay_def sample_parse_def relay_key_is_valid_def Let_def)

lemma two_readers_run: "relay_run no_floats parse key (new_relay no_floats [] None None) two_readers"
proof -
  let ?r = "new_relay no_floats [] None None"
  have served: "handle_connection (SockV4 a 1) False False (rl_blocklist x) = Served"
    if "rl_blocklist x = {}" "a \<in> {8, 9}" for a x
    using that by (auto simp: handle_connection_def Let_def)
  have "rl_blocklist ?r = {}" by (simp add: new_relay_def Let_def)
  then have "relay_run no_floats parse key ?r (?r\<lparr>rl_next := 1, rl_tasks := [0 \<mapsto> Reading (SockV4 9 1) False False]\<rparr>)"
    using relay_run.step [OF relay_run.start relay_step.accept [OF served [of ?r 9]]]
    by (simp add: new_relay_def Let_def)
  from relay_run.step [OF this relay_step.accept [OF served [of _ 8]]] \<open>rl_blocklist ?r = {}\<close>
  show ?thesis by (simp add: two_readers_def numeral_2_eq_2)
qed

section \<open>Properties\<close>

text \<open>C1. Sessions are never mixed up. In every state that the relay server reaches, with any
  interleaving of requests, insertions, time-outs, transfers and commands: a stream is connected to
  another one only if both have asked for the same session, and both did so with a valid key; no
  stream is part of two transfers, and no stream that is in a transfer is still offered to others.\<close>

theorem relay_pairs_sound:
  assumes "relay_run f parse key (new_relay f env black block) r"
  shows "(\<forall>m p uid raw. rl_tasks r m = Some (Relaying p uid raw) \<longrightarrow>
       m \<noteq> p \<and> rl_asked r m \<noteq> None \<and> rl_asked r p = rl_asked r m \<and>
       (\<forall>k q uid' raw'. rl_tasks r k = Some (Relaying q uid' raw') \<longrightarrow> q \<noteq> m \<and> (q = p \<longrightarrow> k = m) \<and> k \<noteq> p) \<and>
       {m, p} \<inter> fst ` ran (rl_peers r) = {}) \<and>
    (\<forall>r' n u. relay_step f parse key r r' \<longrightarrow> rl_asked r' n = Some u \<longrightarrow> rl_asked r n \<noteq> Some u \<longrightarrow>
       u \<noteq> [] \<and> (\<exists>addr ws v bs rf. rl_tasks r n = Some (Reading addr ws v) \<and> parse bs = Some (RequestRelay rf) \<and>
          rf_uuid rf = u \<and> relay_key_is_valid key (rf_licence_key rf) v))"
proof (intro conjI allI impI)
  have ok: "pairing_ok (rl_next r) (rl_peers r) (rl_tasks r) (rl_asked r)"
    using relay_run_ok [OF assms new_relay_ok] by (simp add: relay_ok_def)
  fix m p uid raw assume m: "rl_tasks r m = Some (Relaying p uid raw)"
  note facts = pairingD(6) [OF ok m]
  show "m \<noteq> p" using facts m by auto
  show "rl_asked r m \<noteq> None" "rl_asked r p = rl_asked r m" using facts by blast+
  have "m \<notin> fst ` ran (rl_peers r)"
  proof
    assume "m \<in> fst ` ran (rl_peers r)"
    then obtain u ws where "rl_peers r u = Some (m, ws)" by (auto simp: ran_def)
    from pairingD(5) [OF ok this] m show False by auto
  qed
  with facts show "{m, p} \<inter> fst ` ran (rl_peers r) = {}" by blast
  fix k q uid' raw' assume k: "rl_tasks r k = Some (Relaying q uid' raw')"
  show "q \<noteq> m" using pairingD(6) [OF ok k] m by auto
  show "k = m" if "q = p" using pairingD(7) [OF ok k [unfolded that] m] .
  show "k \<noteq> p" using facts k by auto
next
  fix r' n u assume st: "relay_step f parse key r r'" "rl_asked r' n = Some u" "rl_asked r n \<noteq> Some u"
  have "u \<noteq> [] \<and> (\<exists>addr ws v bs rf. rl_tasks r n = Some (Reading addr ws v) \<and> parse bs = Some (RequestRelay rf) \<and>
      rf_uuid rf = u \<and> relay_key_is_valid key (rf_licence_key rf) v)"
    using st(1)
  proof (cases rule: relay_step.cases)
    case (request m addr ws v bs)
    show ?thesis
      by (cases rule: pair_request_cases [of parse key m addr ws v bs r])
         (use request st(2,3) in \<open>auto simp: end_task_def split: if_splits\<close>)
  next
    case (command keys cmd res)
    then show ?thesis using relay_cmd_frame(3) [OF command] st(2,3) by simp
  qed (use st(2,3) in \<open>auto simp: end_task_def pair_insert_def pair_expire_def pair_close_def\<close>)
  then show "u \<noteq> []" "\<exists>addr ws v bs rf. rl_tasks r n = Some (Reading addr ws v) \<and> parse bs = Some (RequestRelay rf) \<and>
      rf_uuid rf = u \<and> relay_key_is_valid key (rf_licence_key rf) v" by blast+
qed

theorem relay_pairs_sound_witness:
  "\<exists>r. relay_run no_floats sample_parse ''k'' (new_relay no_floats [] None None) r \<and>
     (\<exists>uid raw. rl_tasks r 1 = Some (Relaying 0 uid raw)) \<and> rl_asked r 0 = rl_asked r 1"
proof -
  note pair =
    two_requests_pair(1) [where parse = sample_parse and bs_a = "[]" and bs_b = "[]" and now = 0, OF sample_premises(1,2,3,4,4,5,5,6,7,8)]
    two_requests_pair(3) [where parse = sample_parse and bs_a = "[]" and bs_b = "[]" and now = 0 and f = no_floats,
      OF sample_premises(1,2,3,4,4,5,5,6,7,8)]
  then obtain r where r: "relay_run no_floats sample_parse ''k'' two_readers r"
      "\<exists>uid raw. rl_tasks r 1 = Some (Relaying 0 uid raw)" by blast
  have run: "relay_run no_floats sample_parse ''k'' (new_relay no_floats [] None None) r"
    by (rule relay_run_trans [OF r(1) two_readers_run])
  from r(2) obtain uid raw where t: "rl_tasks r 1 = Some (Relaying 0 uid raw)" by blast
  from relay_pairs_sound [OF run, THEN conjunct1, rule_format, OF t] have "rl_asked r 0 = rl_asked r 1" by blast
  with run r(2) show ?thesis by blast
qed

text \<open>C11. Whoever asks for the same session is connected, and the connection is faithful. Let two
  connections send a relay request with a valid key for a session under which nobody waits, the second
  after the first has been entered. Then the second is connected to the first, without framing if
  neither is a web socket. Whatever the events of the transfer are, each side receives a prefix of
  exactly the bytes that the other one sent, in order, and all of them as long as the transfer runs.\<close>

theorem relay_end_to_end:
  assumes "rl_tasks r a = Some (Reading addr_a ws_a v_a)" "rl_tasks r b = Some (Reading addr_b ws_b v_b)" "a \<noteq> b"
    and "parse bs_a = Some (RequestRelay rf_a)" "parse bs_b = Some (RequestRelay rf_b)"
    and "relay_key_is_valid key (rf_licence_key rf_a) v_a" "relay_key_is_valid key (rf_licence_key rf_b) v_b"
    and "rf_uuid rf_a \<noteq> []" "rf_uuid rf_b = rf_uuid rf_a" "rl_peers r (rf_uuid rf_a) = None"
    and "r' = pair_request parse key b addr_b ws_b v_b bs_b
           (pair_insert now a (rf_uuid rf_a) ws_a (pair_request parse key a addr_a ws_a v_a bs_a r))"
    and "relay_transfer f r' addr_b now' evs = (res, out)"
  shows "relay_run f parse key r r' \<and> rl_peers r' = rl_peers r \<and>
    rl_tasks r' b = Some (Relaying a (usage_id addr_b) (\<not> ws_b \<and> \<not> ws_a)) \<and>
    prefix (all_forwarded s out) (all_sent (other_side s) evs) \<and>
    (\<not> isl res \<longrightarrow> all_forwarded s out = all_sent (other_side s) evs)"
  using two_requests_pair(1,2) [OF assms(1-10), where now = now]
    two_requests_pair(3) [OF assms(1-10), where now = now and f = f] run_forwards [OF assms(12) [unfolded relay_transfer_def], of s]
  by (simp add: assms(11))

theorem relay_end_to_end_witness:
  "\<exists>r'. rl_tasks r' 1 = Some (Relaying 0 (usage_id (SockV4 8 1)) True) \<and>
     all_forwarded StreamSide (snd (relay_transfer no_floats r' (SockV4 8 1) 0
       [(r', 0, 0, Message PeerSide [1, 2] True), (r', 0, 0, Message StreamSide [3] True)])) = [1, 2]"
proof -
  define r' where "r' = pair_request sample_parse ''k'' 1 (SockV4 8 1) False False []
    (pair_insert 0 0 (rf_uuid sample_rf) False (pair_request sample_parse ''k'' 0 (SockV4 9 1) False False [] two_readers))"
  let ?evs = "[(r', 0, 0, Message PeerSide [1, 2] True), (r', 0, 0, Message StreamSide [3] True)]"
  obtain res out where run: "relay_transfer no_floats r' (SockV4 8 1) 0 ?evs = (res, out)" by fastforce
  then have "\<not> isl res"
    by (auto simp: relay_transfer_def transfer_turn_def transfer_branch_def transfer_account_def new_transfer_def
        elapsed_millis_def as_millis_def Let_def)
  with relay_end_to_end [where parse = sample_parse and bs_a = "[]" and bs_b = "[]" and s = StreamSide,
      OF sample_premises(1,2,3,4,4,5,5,6,7,8) r'_def run]
  have "rl_tasks r' 1 = Some (Relaying 0 (usage_id (SockV4 8 1)) True)" "all_forwarded StreamSide out = [1, 2]"
    by simp_all
  with run show ?thesis by (intro exI [of _ r']) simp
qed

text \<open>C39. Every byte is charged. While a transfer runs, the number of bits it has counted and the
  amount taken from the limiter that all transfers share are both eight times the number of bytes that
  the two sides have sent, and the same amount was taken from the transfer's own limiters, the normal
  one and the one for blacklisted and downgraded transfers together (all numbers modulo the width of a
  machine word). A transfer that was downgraded stays so.\<close>

theorem relay_charges_every_byte:
  assumes "transfer_run ip th evs t = (Inr t', out)"
  shows "all_consumed {TotalLimiter} out = of_nat (8 * (length (all_sent PeerSide evs) + length (all_sent StreamSide evs))) \<and>
    all_consumed {SingleLimiter, BlacklistLimiter} out = all_consumed {TotalLimiter} out \<and>
    tr_total t' = tr_total t + all_consumed {TotalLimiter} out \<and> (tr_downgrade t \<longrightarrow> tr_downgrade t')"
  by (rule run_charges [OF assms])

theorem relay_charges_every_byte_witness:
  "\<exists>t' out. transfer_run [] 0 [(two_readers, 0, 0, Message PeerSide [1, 2] True)] (new_transfer 0) = (Inr t', out) \<and>
     tr_total t' = 16 \<and> all_consumed {TotalLimiter} out = 16"
proof -
  obtain t' out where run: "transfer_run [] 0 [(two_readers, 0, 0, Message PeerSide [1, 2] True)] (new_transfer 0) = (Inr t', out)"
    by (simp add: transfer_turn_def transfer_branch_def transfer_account_def new_transfer_def elapsed_millis_def as_millis_def Let_def)
  from relay_charges_every_byte [OF run] run show ?thesis by (simp add: new_transfer_def)
qed

end
