(* ===== verification/Pf_Window.thy ===== *)
theory Pf_Window
  imports Rust_Str
begin

text \<open>
  Flow control of a multiplexed port-forward tunnel
  (\<^verbatim>\<open>src/client/src/port_forward_mux.rs\<close>, lines 15 to 200): the window a receiver grants, the
  credit a sender holds, and the frames of the protocol. Both counters are \<open>u32\<close> of the
  source and keep their width; the lemmas read them as natural numbers and say that no
  subtraction of the code wraps and no saturation loses anything within the bounds the code keeps.
  A length (\<open>usize\<close>) is a natural number.
\<close>

type_synonym i32 = "32 word"

section \<open>The integer operations of the source\<close>

definition saturating_add :: "u32 \<Rightarrow> u32 \<Rightarrow> u32" where
  "saturating_add a b = (if unat a + unat b < 2 ^ 32 then a + b else - 1)"

definition checked_sub :: "u32 \<Rightarrow> u32 \<Rightarrow> u32 option" where
  "checked_sub a b = (if b \<le> a then Some (a - b) else None)"

definition u32_try_from :: "nat \<Rightarrow> u32 option" where
  "u32_try_from n = (if n < 2 ^ 32 then Some (of_nat n) else None)"

lemma unat_max_u32: "unat (- 1 :: u32) = 4294967295"
  by (simp add: unsigned_minus_1_eq_mask mask_eq_exp_minus_1)

lemma unat_saturating_add: "unat (saturating_add a b) = min (unat a + unat b) 4294967295"
  using unat_add_lem [of a b] by (auto simp: saturating_add_def unat_max_u32)

lemma unat_checked_sub: "checked_sub a b = Some c \<Longrightarrow> unat b \<le> unat a \<and> unat c = unat a - unat b"
  by (auto simp: checked_sub_def word_le_nat_alt unat_sub_if' split: if_splits)

lemma checked_sub_None: "checked_sub a b = None \<longleftrightarrow> unat a < unat b"
  by (auto simp: checked_sub_def word_le_nat_alt split: if_splits)

lemma unat_max: "unat (max a b) = max (unat a) (unat (b :: 'a::len word))"
  by (auto simp: max_def word_le_nat_alt)

lemma unat_min: "unat (min a b) = min (unat a) (unat (b :: 'a::len word))"
  by (auto simp: min_def word_le_nat_alt)

lemma unat_of_nat_u32: "n < 2 ^ 32 \<Longrightarrow> unat (of_nat n :: u32) = n"
  by (simp add: unat_of_nat take_bit_nat_def)

section \<open>Constants of the protocol\<close>

definition INITIAL_WINDOW :: u32 where "INITIAL_WINDOW = 64 * 1024"
definition MIN_FRAME_CHARGE :: u32 where "MIN_FRAME_CHARGE = 64"
definition CHANNEL_WINDOW :: u32 where "CHANNEL_WINDOW = 256 * 1024"
definition MAX_FRAME :: nat where "MAX_FRAME = 64 * 1024"
definition UPDATE_THRESHOLD :: u32 where "UPDATE_THRESHOLD = CHANNEL_WINDOW div 2"
definition MAX_CHANNELS :: nat where "MAX_CHANNELS = 256"
definition MAX_SEND_CREDIT :: u32 where "MAX_SEND_CREDIT = CHANNEL_WINDOW"

lemma window_consts [simp]:
  "unat INITIAL_WINDOW = 65536" "unat MIN_FRAME_CHARGE = 64" "unat CHANNEL_WINDOW = 262144"
  "unat UPDATE_THRESHOLD = 131072" "unat MAX_SEND_CREDIT = 262144"
  by (simp_all add: INITIAL_WINDOW_def MIN_FRAME_CHARGE_def CHANNEL_WINDOW_def UPDATE_THRESHOLD_def
      MAX_SEND_CREDIT_def unat_div)

definition effective_window :: "u32 \<Rightarrow> u32" where
  "effective_window advertised = max advertised INITIAL_WINDOW"

definition charge :: "nat \<Rightarrow> u32" where
  "charge len = max (case u32_try_from len of Some n \<Rightarrow> n | None \<Rightarrow> - 1) MIN_FRAME_CHARGE"

lemma unat_effective_window: "unat (effective_window w) = max (unat w) 65536"
  by (simp add: effective_window_def unat_max)

lemma unat_charge: "unat (charge n) = max 64 (min n 4294967295)"
  by (auto simp: charge_def u32_try_from_def unat_max unat_max_u32 unat_of_nat_u32)

abbreviation cost :: "nat \<Rightarrow> nat" where
  "cost len \<equiv> unat (charge len)"

lemma cost_pos: "64 \<le> cost n"
  by (simp add: unat_charge)

lemma cost_le: "n \<le> m \<Longrightarrow> 64 \<le> m \<Longrightarrow> cost n \<le> m"
  by (simp add: unat_charge)

lemma cost_covers: "cost n \<le> m \<Longrightarrow> m < 4294967295 \<Longrightarrow> n \<le> m"
  by (simp add: unat_charge min_def split: if_splits)

section \<open>The receiver's window\<close>

record recv_window =
  remaining :: u32
  drained_since_update :: u32

definition recv_window_new :: "u32 \<Rightarrow> recv_window" where
  "recv_window_new granted = \<lparr>remaining = effective_window granted, drained_since_update = 0\<rparr>"

definition accept :: "nat \<Rightarrow> recv_window \<Rightarrow> bool \<times> recv_window" where
  "accept len w =
     (case checked_sub (remaining w) (charge len) of
        Some left \<Rightarrow> (True, w\<lparr>remaining := left\<rparr>)
      | None \<Rightarrow> (False, w))"

definition grant :: "u32 \<Rightarrow> recv_window \<Rightarrow> recv_window" where
  "grant n w = w\<lparr>remaining := saturating_add (remaining w) n\<rparr>"

definition drained :: "nat \<Rightarrow> recv_window \<Rightarrow> u32 option \<times> recv_window" where
  "drained n w =
     (let d = saturating_add (drained_since_update w) (charge n) in
      if d < UPDATE_THRESHOLD then (None, w\<lparr>drained_since_update := d\<rparr>)
      else (Some d, w\<lparr>drained_since_update := 0, remaining := saturating_add (remaining w) d\<rparr>))"

abbreviation rem :: "recv_window \<Rightarrow> nat" where
  "rem w \<equiv> unat (remaining w)"

abbreviation owed :: "recv_window \<Rightarrow> nat" where
  "owed w \<equiv> unat (drained_since_update w)"

lemma recv_window_new_vals [simp]:
  "rem (recv_window_new g) = max (unat g) 65536" "owed (recv_window_new g) = 0"
  by (simp_all add: recv_window_new_def unat_effective_window)

lemma accept_iff: "fst (accept len w) \<longleftrightarrow> cost len \<le> rem w"
  by (auto simp: accept_def checked_sub_def word_le_nat_alt split: option.splits if_splits)

lemma accept_vals:
  "owed (snd (accept len w)) = owed w"
  "rem (snd (accept len w)) = (if cost len \<le> rem w then rem w - cost len else rem w)"
  by (auto simp: accept_def checked_sub_None dest: unat_checked_sub split: option.splits)

lemma grant_vals:
  "owed (grant n w) = owed w" "rem (grant n w) = min (rem w + unat n) 4294967295"
  by (simp_all add: grant_def unat_saturating_add)

text \<open>Draining moves its charge from the drained side of the account to the remaining side once
  the threshold is reached; within the window nothing saturates.\<close>

lemma drained_cases:
  assumes "rem w + owed w + cost n \<le> 262144"
  shows "drained n w = (None, w\<lparr>drained_since_update := drained_since_update w + charge n\<rparr>) \<and>
           owed w + cost n < 131072 \<and> unat (drained_since_update w + charge n) = owed w + cost n \<or>
         (\<exists>w'. drained n w = (Some (drained_since_update w + charge n), w') \<and> owed w' = 0 \<and>
           unat (drained_since_update w + charge n) = owed w + cost n \<and> rem w' = rem w + owed w + cost n)"
proof -
  have d: "saturating_add (drained_since_update w) (charge n) = drained_since_update w + charge n"
    "unat (drained_since_update w + charge n) = owed w + cost n"
    using assms unat_saturating_add [of "drained_since_update w" "charge n"]
    by (simp_all add: saturating_add_def)
  show ?thesis
    using assms d by (auto simp: drained_def Let_def word_less_nat_alt unat_saturating_add)
qed

section \<open>The sender's credit\<close>

definition send_credit_new :: "u32 \<Rightarrow> u32" where
  "send_credit_new initial = min initial MAX_SEND_CREDIT"

text \<open>One turn of the loop of \<open>SendCredit::take\<close>: the amount taken and the credit left, or
  \<open>None\<close> while the caller stays parked.\<close>

definition take_credit :: "nat \<Rightarrow> u32 \<Rightarrow> (nat \<times> u32) option" where
  "take_credit m c =
     (if MIN_FRAME_CHARGE \<le> c then let n = min (unat c) m in Some (n, c - of_nat n) else None)"

definition add_credit :: "u32 \<Rightarrow> u32 \<Rightarrow> u32" where
  "add_credit n c = min (saturating_add c n) MAX_SEND_CREDIT"

definition raise_initial :: "u32 \<Rightarrow> u32 \<Rightarrow> u32" where
  "raise_initial window c =
     (let extra = effective_window window - INITIAL_WINDOW in if extra > 0 then add_credit extra c else c)"

lemma unat_send_credit_new: "unat (send_credit_new i) = min (unat i) 262144"
  by (simp add: send_credit_new_def unat_min)

lemma unat_add_credit: "unat (add_credit n c) = min (unat c + unat n) 262144"
  by (simp add: add_credit_def unat_min unat_saturating_add)

lemma take_creditD:
  assumes "take_credit m c = Some (n, c')"
  shows "n \<le> m" "n \<le> unat c" "unat c' = unat c - n" "64 \<le> m \<Longrightarrow> 64 \<le> n"
proof -
  have n: "n = min (unat c) m" and c': "c' = c - of_nat n" and c: "64 \<le> unat c"
    using assms by (auto simp: take_credit_def Let_def word_le_nat_alt split: if_splits)
  have "unat (of_nat n :: u32) = n"
    using n unsigned_less [of c] by (intro unat_of_nat_u32) (auto simp: min_def)
  then show "n \<le> m" "n \<le> unat c" "unat c' = unat c - n" "64 \<le> m \<Longrightarrow> 64 \<le> n"
    using n c c' by (auto simp: unat_sub_if')
qed

lemma take_credit_ready: "(\<exists>r. take_credit m c = Some r) \<longleftrightarrow> 64 \<le> unat c"
  by (auto simp: take_credit_def Let_def word_le_nat_alt)

lemma unat_window_extra: "unat (effective_window t - INITIAL_WINDOW) = max (unat t) 65536 - 65536"
  by (simp add: unat_sub_if' unat_effective_window)

lemma unat_raise_initial:
  "unat c \<le> 262144 \<Longrightarrow> unat (raise_initial t c) = min (unat c + (max (unat t) 65536 - 65536)) 262144"
  by (auto simp: raise_initial_def Let_def unat_add_credit unat_window_extra word_less_nat_alt)

section \<open>Frames\<close>

text \<open>The union of \<open>PortForwardChannel\<close>, with the channel id first.\<close>

datatype frame =
    Open i32 string int u32
  | Opened i32 bool string u32
  | Data i32 bytes
  | Close i32
  | WindowUpdate i32 u32

fun channel_id :: "frame \<Rightarrow> i32" where
  "channel_id (Open i _ _ _) = i"
| "channel_id (Opened i _ _ _) = i"
| "channel_id (Data i _) = i"
| "channel_id (Close i) = i"
| "channel_id (WindowUpdate i _) = i"

datatype inbound = InData bytes | InClose | InViolation

datatype relay_end = LocalEof | PeerClosed | Violation | Cancelled | TunnelGone

end
