(* ===== verification/Pf_Channel.thy ===== *)
theory Pf_Channel
  imports Pf_Window "HOL-Library.Sublist"
begin

text \<open>
  One channel of a port-forward tunnel: the task that runs it at each end
  (\<^verbatim>\<open>src/client/src/port_forward_mux.rs\<close>, \<open>relay_socket_to_tunnel\<close>,
  \<open>relay_tunnel_to_socket\<close>, \<open>run_channel\<close>, and
  \<^verbatim>\<open>src/client/src/server/port_forward_mux.rs\<close>, \<open>run_controlled_channel\<close>), what a frame
  of the peer does to it, and the two ends joined by the tunnel.

  The tasks run concurrently and stop at every \<open>await\<close>, so each is a step function: its
  program point is a value of a datatype, an event is what the \<open>await\<close> it is parked on returns,
  and the result is \<open>None\<close> where the code stays parked on that event. The state the tasks share
  by \<open>Arc\<close> (credit, window, inbound queue) is in the channel's record, which also holds the
  bytes read from (\<open>sock_in\<close>) and written to (\<open>sock_out\<close>) the local socket so far.
\<close>

section \<open>The state of a channel at one end\<close>

datatype up_state = UpTake | UpRead nat | UpSend bytes | UpEnd relay_end

datatype down_state = DownNext | DownWrite bytes | DownEnd relay_end

text \<open>\<open>Absent\<close>: the controlled side has not seen \<open>open\<close> yet; \<open>Opening\<close>: the controller's task
  is sending it; \<open>Connecting\<close>: the controlled side connects to the target; \<open>Relaying\<close>: inside
  \<open>run_channel\<close>; \<open>Finished\<close>: the task has returned.\<close>

datatype phase = Absent | Opening | Connecting | Relaying | Finished

text \<open>\<open>tx_alive\<close> says that the channel's entry is still in the map of its side; the entry owns the
  only sender of the inbound queue. \<open>opened\<close> is the flag of the controller's entry.\<close>

record chan =
  credit :: u32
  window :: recv_window
  inbound :: "inbound list"
  tx_alive :: bool
  opened :: bool
  phase :: phase
  pending :: "bytes list"
  pending_len :: nat
  up :: up_state
  down :: down_state
  cancelled :: bool
  prebuf :: bytes
  sock_in :: bytes
  sock_out :: bytes

text \<open>The receiver of the inbound queue lives in the task, and in \<open>run_channel\<close> in the half that
  writes to the socket: it is dropped when that half ends.\<close>

definition rx_alive :: "chan \<Rightarrow> bool" where
  "rx_alive ch =
     (case phase ch of
        Finished \<Rightarrow> False
      | Absent \<Rightarrow> False
      | Relaying \<Rightarrow> (case down ch of DownEnd _ \<Rightarrow> False | _ \<Rightarrow> True)
      | _ \<Rightarrow> True)"

text \<open>What a task puts on its \<open>FrameSink\<close>: on the ordered queue or on the control queue.\<close>

datatype out = Ordered frame | Control frame

section \<open>The two halves of \<open>run_channel\<close>\<close>

text \<open>\<open>Sink ok\<close> is the result of \<open>send_ordered\<close>, \<open>ReadReturns bs\<close> what the socket's \<open>read\<close>
  gives (empty at the end of the stream and on an error). The bytes of \<open>prebuf\<close> are read before
  those of the socket.\<close>

datatype up_event = Poll | ReadReturns bytes | Sink bool | CancelUp

definition after_read :: "nat \<Rightarrow> bytes \<Rightarrow> chan \<Rightarrow> chan" where
  "after_read allow got ch =
     (let spent = (if got = [] then 0 else charge (length got));
          c = (if unat spent < allow then add_credit (of_nat allow - spent) (credit ch) else credit ch)
      in if got = [] then ch\<lparr>credit := c, up := UpEnd LocalEof\<rparr>
         else ch\<lparr>credit := c, up := UpSend got, prebuf := drop allow (prebuf ch),
                 sock_in := sock_in ch @ got\<rparr>)"

definition relay_socket_to_tunnel :: "i32 \<Rightarrow> up_event \<Rightarrow> chan \<Rightarrow> (chan \<times> out list) option" where
  "relay_socket_to_tunnel i ev ch =
     (case (up ch, ev) of
        (UpTake, Poll) \<Rightarrow>
          (case take_credit MAX_FRAME (credit ch) of
             Some (n, c) \<Rightarrow> Some (ch\<lparr>credit := c, up := UpRead n\<rparr>, [])
           | None \<Rightarrow> None)
      | (UpTake, CancelUp) \<Rightarrow> if cancelled ch then Some (ch\<lparr>up := UpEnd Cancelled\<rparr>, []) else None
      | (UpRead allow, ReadReturns bs) \<Rightarrow>
          (let got = (if prebuf ch \<noteq> [] then take allow (prebuf ch) else bs) in
           if length got \<le> allow then Some (after_read allow got ch, []) else None)
      | (UpRead allow, CancelUp) \<Rightarrow>
          if cancelled ch
          then Some (ch\<lparr>credit := add_credit (of_nat allow) (credit ch), up := UpEnd Cancelled\<rparr>, []) else None
      | (UpSend bs, Sink ok) \<Rightarrow>
          if ok then Some (ch\<lparr>up := UpTake\<rparr>, [Ordered (Data i bs)])
          else Some (ch\<lparr>up := UpEnd TunnelGone\<rparr>, [])
      | _ \<Rightarrow> None)"

text \<open>\<open>Written ok\<close>: the whole chunk went out and \<open>ok\<close> is the result of \<open>send_control\<close>, if the
  code calls it; a failed or cancelled \<open>write_all\<close> may have written any prefix of the chunk.\<close>

datatype down_event = NextChunk | Written bool | WriteFails nat | CancelDown nat

definition after_write :: "i32 \<Rightarrow> bytes \<Rightarrow> bool \<Rightarrow> chan \<Rightarrow> chan \<times> out list" where
  "after_write i c ok ch =
     (let (update, w) = drained (length c) (window ch);
          ch' = ch\<lparr>window := w, sock_out := sock_out ch @ c\<rparr>
      in case update of
           None \<Rightarrow> (ch'\<lparr>down := DownNext\<rparr>, [])
         | Some add \<Rightarrow> if ok then (ch'\<lparr>down := DownNext\<rparr>, [Control (WindowUpdate i add)])
                       else (ch'\<lparr>down := DownEnd TunnelGone\<rparr>, []))"

definition next_chunk :: "chan \<Rightarrow> chan option" where
  "next_chunk ch =
     (case pending ch of
        c # cs \<Rightarrow> Some (ch\<lparr>pending := cs, down := DownWrite c\<rparr>)
      | [] \<Rightarrow>
          (case inbound ch of
             InData c # q \<Rightarrow> Some (ch\<lparr>inbound := q, down := DownWrite c\<rparr>)
           | InClose # q \<Rightarrow> Some (ch\<lparr>inbound := q, down := DownEnd PeerClosed\<rparr>)
           | InViolation # q \<Rightarrow> Some (ch\<lparr>inbound := q, down := DownEnd Violation\<rparr>)
           | [] \<Rightarrow> if tx_alive ch then None else Some (ch\<lparr>down := DownEnd TunnelGone\<rparr>)))"

definition relay_tunnel_to_socket :: "i32 \<Rightarrow> down_event \<Rightarrow> chan \<Rightarrow> (chan \<times> out list) option" where
  "relay_tunnel_to_socket i ev ch =
     (case (down ch, ev) of
        (DownNext, NextChunk) \<Rightarrow> map_option (\<lambda>ch'. (ch', [])) (next_chunk ch)
      | (DownNext, CancelDown _) \<Rightarrow>
          if cancelled ch \<and> pending ch = [] then Some (ch\<lparr>down := DownEnd Cancelled\<rparr>, []) else None
      | (DownWrite c, Written ok) \<Rightarrow> Some (after_write i c ok ch)
      | (DownWrite c, WriteFails k) \<Rightarrow>
          Some (ch\<lparr>sock_out := sock_out ch @ take k c, down := DownEnd LocalEof\<rparr>, [])
      | (DownWrite c, CancelDown k) \<Rightarrow>
          if cancelled ch
          then Some (ch\<lparr>sock_out := sock_out ch @ take k c, down := DownEnd Cancelled\<rparr>, []) else None
      | _ \<Rightarrow> None)"

section \<open>The tasks\<close>

fun up_ended :: "chan \<Rightarrow> relay_end option" where
  "up_ended ch = (case up ch of UpEnd e \<Rightarrow> Some e | _ \<Rightarrow> None)"

fun down_ended :: "chan \<Rightarrow> relay_end option" where
  "down_ended ch = (case down ch of DownEnd e \<Rightarrow> Some e | _ \<Rightarrow> None)"

definition close_due :: "relay_end \<Rightarrow> relay_end \<Rightarrow> bool" where
  "close_due first second =
     (let peer_closed = (first = PeerClosed \<or> second = PeerClosed);
          tunnel_gone = (first = TunnelGone \<or> second = TunnelGone);
          local_reason = (first = LocalEof \<or> first = Violation \<or> second = LocalEof \<or> second = Violation)
      in \<not> peer_closed \<and> \<not> tunnel_gone \<and> local_reason)"

text \<open>\<open>EndSeen teardown\<close>: the \<open>select!\<close> of \<open>run_channel\<close> sees a half that has ended, or the
  tunnel's teardown, and cancels the halves. \<open>Join ok\<close>: both have ended; \<open>close\<close> goes out when it
  is due (\<open>ok\<close> is the result of sending it).\<close>

datatype run_event = UpEv up_event | DownEv down_event | EndSeen bool | Join bool

definition run_channel :: "i32 \<Rightarrow> run_event \<Rightarrow> chan \<Rightarrow> (chan \<times> out list) option" where
  "run_channel i ev ch =
     (case ev of
        UpEv e \<Rightarrow> relay_socket_to_tunnel i e ch
      | DownEv e \<Rightarrow> relay_tunnel_to_socket i e ch
      | EndSeen teardown \<Rightarrow>
          if \<not> cancelled ch \<and> (up_ended ch \<noteq> None \<or> down_ended ch \<noteq> None \<or> teardown)
          then Some (ch\<lparr>cancelled := True\<rparr>, []) else None
      | Join ok \<Rightarrow>
          (case (up_ended ch, down_ended ch) of
             (Some e1, Some e2) \<Rightarrow>
               if cancelled ch
               then Some (ch\<lparr>phase := Finished\<rparr>,
                          if close_due e1 e2 \<and> ok then [Ordered (Close i)] else [])
               else None
           | _ \<Rightarrow> None))"

definition pending_fits :: "nat \<Rightarrow> nat \<Rightarrow> bool" where
  "pending_fits charged add_len = (charged + cost add_len \<le> unat INITIAL_WINDOW)"

datatype connect_event = Command | ConnectOk bool | ConnectErr bool

definition unreachable_message :: "string \<Rightarrow> bool \<Rightarrow> string" where
  "unreachable_message addr is_rdp =
     ''Failed to access remote '' @ (if is_rdp then ''RDP'' else addr) @ ''. Please make sure it is reachable/open.''"

text \<open>The controlled side before the relay: the \<open>select!\<close> is biased, so a finished connect counts
  only when \<open>inbound.recv()\<close> is not ready.\<close>

definition run_controlled_channel ::
    "i32 \<Rightarrow> string \<Rightarrow> bool \<Rightarrow> connect_event \<Rightarrow> chan \<Rightarrow> (chan \<times> out list) option" where
  "run_controlled_channel i addr is_rdp ev ch =
     (case ev of
        Command \<Rightarrow>
          (case inbound ch of
             InData b # q \<Rightarrow>
               if \<not> pending_fits (pending_len ch) (length b)
               then Some (ch\<lparr>inbound := q, phase := Finished\<rparr>, [Ordered (Close i)])
               else Some (ch\<lparr>inbound := q, pending := pending ch @ [b],
                             pending_len := pending_len ch + cost (length b)\<rparr>, [])
           | InClose # q \<Rightarrow> Some (ch\<lparr>inbound := q, phase := Finished\<rparr>, [])
           | InViolation # q \<Rightarrow> Some (ch\<lparr>inbound := q, phase := Finished\<rparr>, [Ordered (Close i)])
           | [] \<Rightarrow> if tx_alive ch then None else Some (ch\<lparr>phase := Finished\<rparr>, []))
      | ConnectOk ok \<Rightarrow>
          if inbound ch = [] \<and> tx_alive ch
          then let ch' = ch\<lparr>window := grant (CHANNEL_WINDOW - INITIAL_WINDOW) (window ch)\<rparr> in
               if ok then Some (ch'\<lparr>phase := Relaying\<rparr>, [Ordered (Opened i True [] CHANNEL_WINDOW)])
               else Some (ch'\<lparr>phase := Finished\<rparr>, [])
          else None
      | ConnectErr ok \<Rightarrow>
          if inbound ch = [] \<and> tx_alive ch
          then Some (ch\<lparr>phase := Finished\<rparr>,
                     if ok then [Ordered (Opened i False (unreachable_message addr is_rdp) 0)] else [])
          else None)"

text \<open>A channel's whole task. \<open>OpenSent ok\<close> is the first \<open>await\<close> of the controller's.\<close>

datatype task_event = OpenSent bool | ConnectEv connect_event | RunEv run_event

record target =
  t_host :: string
  t_port :: int
  t_addr :: string
  t_rdp :: bool

definition chan_task :: "i32 \<Rightarrow> target \<Rightarrow> task_event \<Rightarrow> chan \<Rightarrow> (chan \<times> out list) option" where
  "chan_task i tg ev ch =
     (case (phase ch, ev) of
        (Opening, OpenSent ok) \<Rightarrow>
          if ok then Some (ch\<lparr>phase := Relaying\<rparr>, [Ordered (Open i (t_host tg) (t_port tg) CHANNEL_WINDOW)])
          else Some (ch\<lparr>phase := Finished\<rparr>, [])
      | (Connecting, ConnectEv e) \<Rightarrow> run_controlled_channel i (t_addr tg) (t_rdp tg) e ch
      | (Relaying, RunEv e) \<Rightarrow> run_channel i e ch
      | _ \<Rightarrow> None)"

section \<open>What a frame does to the channel it names\<close>

definition new_controller_chan :: "bytes \<Rightarrow> chan" where
  "new_controller_chan pre =
     \<lparr>credit = send_credit_new INITIAL_WINDOW, window = recv_window_new CHANNEL_WINDOW, inbound = [],
      tx_alive = True, opened = False, phase = Opening, pending = [], pending_len = 0, up = UpTake,
      down = DownNext, cancelled = False, prebuf = pre, sock_in = [], sock_out = []\<rparr>"

definition new_controlled_chan :: "u32 \<Rightarrow> chan" where
  "new_controlled_chan advertised =
     \<lparr>credit = send_credit_new (effective_window advertised), window = recv_window_new INITIAL_WINDOW,
      inbound = [], tx_alive = True, opened = True, phase = Connecting, pending = [], pending_len = 0,
      up = UpTake, down = DownNext, cancelled = False, prebuf = [], sock_in = [], sock_out = []\<rparr>"

text \<open>Sending on the inbound queue fails once its receiver is gone.\<close>

definition send_inbound :: "inbound \<Rightarrow> chan \<Rightarrow> chan" where
  "send_inbound x ch = (if rx_alive ch then ch\<lparr>inbound := inbound ch @ [x]\<rparr> else ch)"

definition unlist :: "chan \<Rightarrow> chan" where
  "unlist ch = ch\<lparr>tx_alive := False\<rparr>"

definition chan_data :: "bytes \<Rightarrow> chan \<Rightarrow> chan" where
  "chan_data d ch =
     (let (accepted, w) = accept (length d) (window ch);
          ch' = ch\<lparr>window := w\<rparr>;
          delivered = (accepted \<and> rx_alive ch)
      in if delivered then send_inbound (InData d) ch'
         else if accepted then unlist ch' else unlist (send_inbound InViolation ch'))"

definition chan_close :: "chan \<Rightarrow> chan" where
  "chan_close ch = unlist (send_inbound InClose ch)"

definition chan_window_update :: "u32 \<Rightarrow> chan \<Rightarrow> chan" where
  "chan_window_update add ch = ch\<lparr>credit := add_credit add (credit ch)\<rparr>"

definition chan_opened :: "bool \<Rightarrow> u32 \<Rightarrow> chan \<Rightarrow> chan" where
  "chan_opened success w ch =
     (if success
      then (if opened ch then ch else ch\<lparr>opened := True, credit := raise_initial w (credit ch)\<rparr>)
      else chan_close ch)"

text \<open>The controller's and the controlled side's reaction, for a channel still in the map.\<close>

fun controller_frame :: "frame \<Rightarrow> chan \<Rightarrow> chan" where
  "controller_frame (Opened _ success _ w) ch = chan_opened success w ch"
| "controller_frame (Data _ d) ch = chan_data d ch"
| "controller_frame (Close _) ch = chan_close ch"
| "controller_frame (WindowUpdate _ add) ch = chan_window_update add ch"
| "controller_frame (Open _ _ _ _) ch = ch"

fun controlled_frame :: "frame \<Rightarrow> chan \<Rightarrow> chan" where
  "controlled_frame (Data _ d) ch = chan_data d ch"
| "controlled_frame (Close _) ch = chan_close ch"
| "controlled_frame (WindowUpdate _ add) ch = chan_window_update add ch"
| "controlled_frame (Opened _ _ _ _) ch = ch"
| "controlled_frame (Open _ _ _ _) ch = ch"

end
