(* ===== verification/Pf_Flow.thy ===== *)
theory Pf_Flow
  imports Pf_Channel
begin

text \<open>
  What holds of one end of a channel whatever its peer sends: the accounts of its credit and window,
  the bounds of its counters and buffers, and the cases of a step of its task, on which the proofs
  about the joined ends rest.
\<close>

section \<open>Accounts of one end\<close>

fun in_cost :: "inbound \<Rightarrow> nat" where
  "in_cost (InData b) = cost (length b)"
| "in_cost InClose = 0"
| "in_cost InViolation = 0"

fun in_bytes :: "inbound \<Rightarrow> bytes" where
  "in_bytes (InData b) = b"
| "in_bytes InClose = []"
| "in_bytes InViolation = []"

definition pend_cost :: "bytes list \<Rightarrow> nat" where
  "pend_cost bs = sum_list (map (\<lambda>b. cost (length b)) bs)"

definition queue_cost :: "inbound list \<Rightarrow> nat" where
  "queue_cost q = sum_list (map in_cost q)"

definition write_cost :: "down_state \<Rightarrow> nat" where
  "write_cost d = (case d of DownWrite c \<Rightarrow> cost (length c) | _ \<Rightarrow> 0)"

definition undrained :: "chan \<Rightarrow> nat" where
  "undrained ch = queue_cost (inbound ch) + pend_cost (pending ch) + write_cost (down ch)"

definition reserved :: "up_state \<Rightarrow> nat" where
  "reserved u = (case u of UpRead n \<Rightarrow> n | UpSend bs \<Rightarrow> cost (length bs) | _ \<Rightarrow> 0)"

definition held :: "chan \<Rightarrow> nat" where
  "held ch = unat (credit ch) + reserved (up ch)"

definition waiting :: "phase \<Rightarrow> bool" where
  "waiting p = (p = Absent \<or> p = Connecting)"

definition window_cap :: "phase \<Rightarrow> nat" where
  "window_cap p = (if waiting p then 65536 else 262144)"

definition sender_ok :: "chan \<Rightarrow> bool" where
  "sender_ok ch =
     (unat (credit ch) \<le> 262144 \<and>
      (case up ch of
         UpRead n \<Rightarrow> 64 \<le> n \<and> n \<le> 65536
       | UpSend bs \<Rightarrow> bs \<noteq> [] \<and> length bs \<le> 65536
       | _ \<Rightarrow> True))"

definition receiver_ok :: "chan \<Rightarrow> bool" where
  "receiver_ok ch =
     (rem (window ch) + owed (window ch) + undrained ch \<le> window_cap (phase ch) \<and>
      (waiting (phase ch) \<longrightarrow> pending_len ch = pend_cost (pending ch) \<and> owed (window ch) = 0 \<and>
         down ch = DownNext \<and> up ch = UpTake \<and> sock_in ch = [] \<and> sock_out ch = []))"

definition chan_ok :: "chan \<Rightarrow> bool" where
  "chan_ok ch = (sender_ok ch \<and> receiver_ok ch)"

lemma account_simps [simp]:
  "queue_cost [] = 0" "queue_cost (x # q) = in_cost x + queue_cost q"
  "queue_cost (q @ q') = queue_cost q + queue_cost q'"
  "pend_cost [] = 0" "pend_cost (b # cs) = cost (length b) + pend_cost cs"
  "pend_cost (cs @ cs') = pend_cost cs + pend_cost cs'"
  "write_cost DownNext = 0" "write_cost (DownWrite c) = cost (length c)" "write_cost (DownEnd e) = 0"
  "reserved UpTake = 0" "reserved (UpRead n) = n" "reserved (UpSend bs) = cost (length bs)"
  "reserved (UpEnd e) = 0"
  "waiting Absent" "waiting Connecting" "\<not> waiting Opening" "\<not> waiting Relaying" "\<not> waiting Finished"
  by (simp_all add: queue_cost_def pend_cost_def write_cost_def reserved_def waiting_def)

lemma window_cap_simps [simp]:
  "window_cap Absent = 65536" "window_cap Connecting = 65536" "window_cap Opening = 262144"
  "window_cap Relaying = 262144" "window_cap Finished = 262144"
  by (simp_all add: window_cap_def)

lemma window_cap_le: "window_cap p \<le> 262144"
  by (simp add: window_cap_def)

section \<open>Frames that leave in one step\<close>

fun out_frame :: "out \<Rightarrow> frame" where
  "out_frame (Ordered f) = f"
| "out_frame (Control f) = f"

fun data_of :: "frame \<Rightarrow> bytes" where
  "data_of (Data _ bs) = bs"
| "data_of _ = []"

fun cost_of :: "frame \<Rightarrow> nat" where
  "cost_of (Data _ bs) = cost (length bs)"
| "cost_of _ = 0"

fun update_of :: "frame \<Rightarrow> nat" where
  "update_of (WindowUpdate _ add) = unat add"
| "update_of _ = 0"

fun raise_of :: "frame \<Rightarrow> nat" where
  "raise_of (Opened _ success _ w) = (if success then max (unat w) 65536 - 65536 else 0)"
| "raise_of _ = 0"

abbreviation total_of :: "(frame \<Rightarrow> nat) \<Rightarrow> frame list \<Rightarrow> nat" where
  "total_of f F \<equiv> sum_list (map f F)"

abbreviation fdata :: "frame list \<Rightarrow> bytes" where
  "fdata F \<equiv> concat (map data_of F)"

section \<open>Each event, by program point\<close>

lemmas task_defs = chan_task_def run_channel_def relay_socket_to_tunnel_def relay_tunnel_to_socket_def
  run_controlled_channel_def

lemma after_read_account:
  assumes "sender_ok ch" "up ch = UpRead allow" "length got \<le> allow"
  shows "held (after_read allow got ch) \<le> held ch"
    and "sender_ok (after_read allow got ch)"
    and "held ch \<le> 262144 \<Longrightarrow> got \<noteq> [] \<Longrightarrow> held (after_read allow got ch) = held ch"
proof -
  have a: "64 \<le> allow" "allow \<le> 65536" "unat (of_nat allow :: u32) = allow"
    using assms unat_of_nat_u32 [of allow] by (simp_all add: sender_ok_def)
  have c: "cost (length got) \<le> allow"
    using cost_le [OF assms(3) a(1)] .
  then have refund: "unat (of_nat allow - charge (length got)) = allow - cost (length got)"
    using a by (simp add: unat_sub word_le_nat_alt)
  show "held (after_read allow got ch) \<le> held ch"
    "held ch \<le> 262144 \<Longrightarrow> got \<noteq> [] \<Longrightarrow> held (after_read allow got ch) = held ch"
    using assms(2) a c refund by (auto simp: after_read_def Let_def held_def unat_add_credit)
  show "sender_ok (after_read allow got ch)"
    using assms a by (auto simp: after_read_def Let_def sender_ok_def unat_add_credit)
qed

lemma after_read_frame [simp]:
  "window (after_read a g ch) = window ch" "inbound (after_read a g ch) = inbound ch"
  "tx_alive (after_read a g ch) = tx_alive ch" "opened (after_read a g ch) = opened ch"
  "phase (after_read a g ch) = phase ch" "pending (after_read a g ch) = pending ch"
  "pending_len (after_read a g ch) = pending_len ch" "down (after_read a g ch) = down ch"
  "sock_out (after_read a g ch) = sock_out ch" "cancelled (after_read a g ch) = cancelled ch"
  by (simp_all add: after_read_def Let_def)

text \<open>What is written moves from the undrained side of the receiver's account to the drained side,
  or to the window and into an update of the same size.\<close>

lemma after_write_account:
  assumes "receiver_ok ch" "down ch = DownWrite c" "phase ch = Relaying" "after_write i c ok ch = (ch', outs)"
  shows "rem (window ch') + owed (window ch') + undrained ch' = rem (window ch) + owed (window ch) + undrained ch"
    and "rem (window ch) + total_of update_of (map out_frame outs) \<le> rem (window ch')"
    and "ok \<Longrightarrow> rem (window ch) + total_of update_of (map out_frame outs) = rem (window ch')"
    and "owed (window ch') < 131072 \<or> owed (window ch') = 0"
    and "receiver_ok ch'"
    and "ch' = ch\<lparr>window := window ch', sock_out := sock_out ch @ c, down := down ch'\<rparr>"
    and "down ch' = DownNext \<and> (outs = [] \<or> (\<exists>add. outs = [Control (WindowUpdate i add)])) \<or>
         down ch' = DownEnd TunnelGone \<and> outs = [] \<and> \<not> ok"
proof -
  have le: "rem (window ch) + owed (window ch) + cost (length c) \<le> 262144"
    using assms by (simp add: receiver_ok_def undrained_def)
  from drained_cases [OF le] assms
  show "rem (window ch') + owed (window ch') + undrained ch' = rem (window ch) + owed (window ch) + undrained ch"
    "rem (window ch) + total_of update_of (map out_frame outs) \<le> rem (window ch')"
    "ok \<Longrightarrow> rem (window ch) + total_of update_of (map out_frame outs) = rem (window ch')"
    "owed (window ch') < 131072 \<or> owed (window ch') = 0"
    "receiver_ok ch'"
    "ch' = ch\<lparr>window := window ch', sock_out := sock_out ch @ c, down := down ch'\<rparr>"
    "down ch' = DownNext \<and> (outs = [] \<or> (\<exists>add. outs = [Control (WindowUpdate i add)])) \<or>
         down ch' = DownEnd TunnelGone \<and> outs = [] \<and> \<not> ok"
    by (auto simp: after_write_def Let_def receiver_ok_def undrained_def split: if_splits)
qed

lemma chan_task_cases:
  assumes "chan_task i tg ev ch = Some (ch', outs)"
  obtains
    (open_sent) "phase ch = Opening" "ch' = ch\<lparr>phase := Relaying\<rparr>"
      "outs = [Ordered (Open i (t_host tg) (t_port tg) CHANNEL_WINDOW)]"
  | (open_lost) "phase ch = Opening" "ch' = ch\<lparr>phase := Finished\<rparr>" "outs = []"
  | (buffer) b q where "phase ch = Connecting" "inbound ch = InData b # q" "pending_fits (pending_len ch) (length b)"
      "ch' = ch\<lparr>inbound := q, pending := pending ch @ [b], pending_len := pending_len ch + cost (length b)\<rparr>"
      "outs = []"
  | (overflow) b q where "phase ch = Connecting" "inbound ch = InData b # q"
      "\<not> pending_fits (pending_len ch) (length b)" "ch' = ch\<lparr>inbound := q, phase := Finished\<rparr>"
      "outs = [Ordered (Close i)]"
  | (dropped) x q where "phase ch = Connecting" "inbound ch = x # q" "x = InClose \<or> x = InViolation"
      "ch' = ch\<lparr>inbound := q, phase := Finished\<rparr>" "outs = [] \<or> outs = [Ordered (Close i)]"
  | (orphaned) "phase ch = Connecting" "inbound ch = []" "ch' = ch\<lparr>phase := Finished\<rparr>" "outs = []"
  | (connected) ok where "phase ch = Connecting" "inbound ch = []" "tx_alive ch"
      "ch' = ch\<lparr>window := grant (CHANNEL_WINDOW - INITIAL_WINDOW) (window ch),
                phase := if ok then Relaying else Finished\<rparr>"
      "outs = (if ok then [Ordered (Opened i True [] CHANNEL_WINDOW)] else [])"
  | (unreachable) ok where "phase ch = Connecting" "inbound ch = []" "tx_alive ch" "ch' = ch\<lparr>phase := Finished\<rparr>"
      "outs = (if ok then [Ordered (Opened i False (unreachable_message (t_addr tg) (t_rdp tg)) 0)] else [])"
  | (taken) n c where "phase ch = Relaying" "up ch = UpTake" "take_credit MAX_FRAME (credit ch) = Some (n, c)"
      "ch' = ch\<lparr>credit := c, up := UpRead n\<rparr>" "outs = []"
  | (read) allow got where "phase ch = Relaying" "up ch = UpRead allow" "length got \<le> allow"
      "ch' = after_read allow got ch" "outs = []"
  | (up_cancelled) "phase ch = Relaying" "cancelled ch" "up ch = UpTake"
      "ch' = ch\<lparr>up := UpEnd Cancelled\<rparr>" "outs = []"
  | (read_cancelled) allow where "phase ch = Relaying" "cancelled ch" "up ch = UpRead allow"
      "ch' = ch\<lparr>credit := add_credit (of_nat allow) (credit ch), up := UpEnd Cancelled\<rparr>" "outs = []"
  | (sent) bs where "phase ch = Relaying" "up ch = UpSend bs" "ch' = ch\<lparr>up := UpTake\<rparr>"
      "outs = [Ordered (Data i bs)]"
  | (sink_gone) bs where "phase ch = Relaying" "up ch = UpSend bs" "ch' = ch\<lparr>up := UpEnd TunnelGone\<rparr>" "outs = []"
  | (next_pending) c cs where "phase ch = Relaying" "down ch = DownNext" "pending ch = c # cs"
      "ch' = ch\<lparr>pending := cs, down := DownWrite c\<rparr>" "outs = []"
  | (next_data) c q where "phase ch = Relaying" "down ch = DownNext" "pending ch = []" "inbound ch = InData c # q"
      "ch' = ch\<lparr>inbound := q, down := DownWrite c\<rparr>" "outs = []"
  | (next_end) e q where "phase ch = Relaying" "down ch = DownNext" "pending ch = []"
      "inbound ch = InClose # q \<and> e = PeerClosed \<or> inbound ch = InViolation # q \<and> e = Violation"
      "ch' = ch\<lparr>inbound := q, down := DownEnd e\<rparr>" "outs = []"
  | (next_gone) "phase ch = Relaying" "down ch = DownNext" "pending ch = []" "inbound ch = []" "\<not> tx_alive ch"
      "ch' = ch\<lparr>down := DownEnd TunnelGone\<rparr>" "outs = []"
  | (down_cancelled) "phase ch = Relaying" "cancelled ch" "down ch = DownNext" "pending ch = []"
      "ch' = ch\<lparr>down := DownEnd Cancelled\<rparr>" "outs = []"
  | (written) c ok where "phase ch = Relaying" "down ch = DownWrite c" "after_write i c ok ch = (ch', outs)"
  | (broken) c k e where "phase ch = Relaying" "down ch = DownWrite c" "e = LocalEof \<or> e = Cancelled"
      "ch' = ch\<lparr>sock_out := sock_out ch @ take k c, down := DownEnd e\<rparr>" "outs = []"
  | (end_seen) "phase ch = Relaying" "ch' = ch\<lparr>cancelled := True\<rparr>" "outs = []"
  | (joined) e1 e2 where "phase ch = Relaying" "up ch = UpEnd e1" "down ch = DownEnd e2"
      "ch' = ch\<lparr>phase := Finished\<rparr>" "outs = [] \<or> outs = [Ordered (Close i)] \<and> close_due e1 e2"
proof -
  show thesis
  proof (cases "phase ch")
    case Opening
    then show thesis using assms open_sent open_lost by (auto simp: chan_task_def split: task_event.splits if_splits)
  next
    case Connecting
    then obtain e where "run_controlled_channel i (t_addr tg) (t_rdp tg) e ch = Some (ch', outs)"
      using assms by (auto simp: chan_task_def split: task_event.splits)
    then show thesis
    proof (cases e)
      case Command
      note run = \<open>run_controlled_channel _ _ _ _ _ = _\<close> [unfolded Command]
      show thesis
      proof (cases "inbound ch")
        case Nil
        then show thesis using run Connecting orphaned by (simp add: run_controlled_channel_def split: if_splits)
      next
        case (Cons x q)
        then show thesis using run Connecting buffer [of _ q] overflow [of _ q] dropped [of x q]
          by (cases x) (simp_all add: run_controlled_channel_def split: if_splits)
      qed
    next
      case (ConnectOk ok)
      then show thesis using \<open>run_controlled_channel _ _ _ _ _ = _\<close> Connecting connected [of ok]
        by (auto simp: run_controlled_channel_def Let_def split: if_splits)
    next
      case (ConnectErr ok)
      then show thesis using \<open>run_controlled_channel _ _ _ _ _ = _\<close> Connecting unreachable [of ok]
        by (auto simp: run_controlled_channel_def split: if_splits)
    qed
  next
    case Relaying
    then obtain e where e: "run_channel i e ch = Some (ch', outs)"
      using assms by (auto simp: chan_task_def split: task_event.splits)
    show thesis
    proof (cases e)
      case (UpEv u)
      then have u: "relay_socket_to_tunnel i u ch = Some (ch', outs)" using e by (simp add: run_channel_def)
      show thesis
      proof (cases "up ch")
        case UpTake
        then show thesis using u Relaying taken up_cancelled
          by (cases u) (auto simp: relay_socket_to_tunnel_def split: if_splits option.splits)
      next
        case (UpRead allow)
        note [simp] = UpRead relay_socket_to_tunnel_def Let_def
        show thesis
        proof (cases u)
          case (ReadReturns bs)
          then show thesis using u Relaying read [of allow] by (fastforce split: if_splits)
        next
          case CancelUp
          then show thesis using u Relaying read_cancelled [of allow] by (simp split: if_splits)
        qed (use u in simp_all)
      next
        case (UpSend bs)
        then show thesis using u Relaying sent sink_gone
          by (cases u) (simp_all add: relay_socket_to_tunnel_def split: if_splits)
      qed (use u in \<open>simp add: relay_socket_to_tunnel_def\<close>)
    next
      case (DownEv d)
      then have d: "relay_tunnel_to_socket i d ch = Some (ch', outs)" using e by (simp add: run_channel_def)
      show thesis
      proof (cases "down ch")
        case DownNext
        show thesis
        proof (cases d)
          case NextChunk
          then show thesis
            using d DownNext Relaying next_pending next_data next_gone next_end [of "tl (inbound ch)"]
            by (simp add: relay_tunnel_to_socket_def next_chunk_def
                split: if_splits list.splits inbound.splits)
        next
          case (CancelDown k)
          then show thesis using d DownNext Relaying down_cancelled
            by (simp add: relay_tunnel_to_socket_def split: if_splits)
        qed (use d DownNext in \<open>simp_all add: relay_tunnel_to_socket_def\<close>)
      next
        case (DownWrite c)
        note [simp] = DownWrite relay_tunnel_to_socket_def
        show thesis
        proof (cases d)
          case (Written ok)
          then show thesis using d Relaying written [of c ok] by simp
        next
          case (WriteFails k)
          then show thesis using d Relaying broken [of c LocalEof k] by simp
        next
          case (CancelDown k)
          then show thesis using d Relaying broken [of c Cancelled k] by (simp split: if_splits)
        qed (use d in simp)
      qed (use d in \<open>simp add: relay_tunnel_to_socket_def\<close>)
    next
      case (EndSeen t)
      then show thesis using e Relaying end_seen by (simp add: run_channel_def split: if_splits)
    next
      case (Join ok)
      then show thesis using e Relaying joined
        by (auto simp: run_channel_def split: if_splits option.splits up_state.splits down_state.splits)
    qed
  qed (use assms in \<open>simp_all add: chan_task_def\<close>)
qed

section \<open>One end against any peer\<close>

lemma chan_okD:
  "chan_ok ch \<Longrightarrow> sender_ok ch" "chan_ok ch \<Longrightarrow> receiver_ok ch"
  by (simp_all add: chan_ok_def)

lemma grant_opened:
  "unat (CHANNEL_WINDOW - INITIAL_WINDOW) = 196608"
  by (simp add: CHANNEL_WINDOW_def INITIAL_WINDOW_def)

lemma sender_ok_task:
  assumes "chan_task i tg ev ch = Some (ch', outs)" "sender_ok ch"
  shows "sender_ok ch'"
  using assms(1)
proof (cases rule: chan_task_cases)
  case (taken n c)
  then show ?thesis
    using assms(2) take_creditD [OF taken(3)] by (simp add: sender_ok_def MAX_FRAME_def)
next
  case (read allow got)
  then show ?thesis using after_read_account(2) assms(2) by simp
next
  case (written c ok)
  then show ?thesis using assms(2) by (auto simp: after_write_def Let_def sender_ok_def split: option.splits if_splits prod.splits)
qed (use assms(2) in \<open>auto simp: sender_ok_def unat_add_credit\<close>)

text \<open>While the controlled side connects, what it buffers was accepted by a window of
  \<open>INITIAL_WINDOW\<close>, so the guard \<open>pending_fits\<close> never fails.\<close>

lemma pending_fits_ok:
  assumes "receiver_ok ch" "phase ch = Connecting" "inbound ch = InData b # q"
  shows "pending_fits (pending_len ch) (length b)"
  using assms by (simp add: receiver_ok_def pending_fits_def undrained_def)

lemma receiver_ok_task:
  assumes "chan_task i tg ev ch = Some (ch', outs)" "receiver_ok ch"
  shows "receiver_ok ch'"
  using assms(1)
proof (cases rule: chan_task_cases)
  case (written c ok)
  then show ?thesis using after_write_account(5) assms(2) by blast
next
  case (connected ok)
  then show ?thesis using assms(2)
    by (auto simp: receiver_ok_def undrained_def grant_vals grant_opened)
qed (use assms(2) in \<open>auto simp: receiver_ok_def undrained_def\<close>)

lemma chan_ok_task:
  assumes "chan_task i tg ev ch = Some (ch', outs)" "chan_ok ch"
  shows "chan_ok ch'"
  using assms sender_ok_task receiver_ok_task by (simp add: chan_ok_def)

lemma rx_alive_cong: "phase a = phase b \<Longrightarrow> down a = down b \<Longrightarrow> rx_alive a = rx_alive b"
  by (cases "phase b") (simp_all add: rx_alive_def)

lemma rx_alive_updates [simp]:
  "rx_alive (ch\<lparr>window := w\<rparr>) = rx_alive ch" "rx_alive (ch\<lparr>tx_alive := b\<rparr>) = rx_alive ch"
  "rx_alive (ch\<lparr>credit := c\<rparr>) = rx_alive ch" "rx_alive (ch\<lparr>inbound := q\<rparr>) = rx_alive ch"
  by (rule rx_alive_cong; simp)+

lemma send_inbound_vals [simp]:
  "credit (send_inbound x ch) = credit ch" "window (send_inbound x ch) = window ch"
  "tx_alive (send_inbound x ch) = tx_alive ch" "opened (send_inbound x ch) = opened ch"
  "phase (send_inbound x ch) = phase ch" "pending (send_inbound x ch) = pending ch"
  "pending_len (send_inbound x ch) = pending_len ch" "up (send_inbound x ch) = up ch"
  "down (send_inbound x ch) = down ch" "sock_in (send_inbound x ch) = sock_in ch"
  "sock_out (send_inbound x ch) = sock_out ch"
  "inbound (send_inbound x ch) = (if rx_alive ch then inbound ch @ [x] else inbound ch)"
  by (simp_all add: send_inbound_def)

lemma unlist_vals [simp]:
  "credit (unlist ch) = credit ch" "window (unlist ch) = window ch" "\<not> tx_alive (unlist ch)"
  "opened (unlist ch) = opened ch" "phase (unlist ch) = phase ch" "pending (unlist ch) = pending ch"
  "pending_len (unlist ch) = pending_len ch" "up (unlist ch) = up ch" "down (unlist ch) = down ch"
  "sock_in (unlist ch) = sock_in ch" "sock_out (unlist ch) = sock_out ch"
  "inbound (unlist ch) = inbound ch" "rx_alive (unlist ch) = rx_alive ch"
  by (simp_all add: unlist_def)

lemma chan_data_account:
  shows "rem (window (chan_data d ch)) + cost (length d) = rem (window ch) \<or>
         rem (window ch) < cost (length d) \<and> rem (window (chan_data d ch)) = rem (window ch)"
    and "owed (window (chan_data d ch)) = owed (window ch)"
    and "rem (window (chan_data d ch)) + undrained (chan_data d ch) \<le> rem (window ch) + undrained ch"
    and "rx_alive ch \<Longrightarrow> rem (window (chan_data d ch)) + undrained (chan_data d ch) = rem (window ch) + undrained ch"
proof -
  obtain a w where aw: "accept (length d) (window ch) = (a, w)" by (cases "accept (length d) (window ch)")
  have a: "a \<longleftrightarrow> cost (length d) \<le> rem (window ch)" and o: "owed w = owed (window ch)"
    and r: "rem w = (if cost (length d) \<le> rem (window ch) then rem (window ch) - cost (length d) else rem (window ch))"
    using accept_iff [of "length d" "window ch"] accept_vals [of "length d" "window ch"] by (simp_all add: aw)
  show "rem (window (chan_data d ch)) + cost (length d) = rem (window ch) \<or>
         rem (window ch) < cost (length d) \<and> rem (window (chan_data d ch)) = rem (window ch)"
    "owed (window (chan_data d ch)) = owed (window ch)"
    "rem (window (chan_data d ch)) + undrained (chan_data d ch) \<le> rem (window ch) + undrained ch"
    "rx_alive ch \<Longrightarrow> rem (window (chan_data d ch)) + undrained (chan_data d ch) = rem (window ch) + undrained ch"
    using a o r by (auto simp: chan_data_def Let_def aw undrained_def)
qed

lemma chan_data_vals [simp]:
  "credit (chan_data d ch) = credit ch" "opened (chan_data d ch) = opened ch"
  "phase (chan_data d ch) = phase ch" "pending (chan_data d ch) = pending ch"
  "pending_len (chan_data d ch) = pending_len ch" "up (chan_data d ch) = up ch"
  "down (chan_data d ch) = down ch" "sock_in (chan_data d ch) = sock_in ch"
  "sock_out (chan_data d ch) = sock_out ch"
  by (simp_all add: chan_data_def Let_def split: prod.splits)

lemma chan_ok_data: "chan_ok ch \<Longrightarrow> chan_ok (chan_data d ch)"
  using chan_data_account(3) [of d ch] chan_data_account(2) [of d ch]
  by (auto simp: chan_ok_def sender_ok_def receiver_ok_def)

lemma undrained_send_inbound: "in_cost x = 0 \<Longrightarrow> undrained (send_inbound x ch) = undrained ch"
  by (simp add: undrained_def)

lemma undrained_unlist [simp]: "undrained (unlist ch) = undrained ch"
  by (simp add: undrained_def)

lemma chan_ok_close: "chan_ok ch \<Longrightarrow> chan_ok (chan_close ch)"
  by (simp add: chan_close_def chan_ok_def sender_ok_def receiver_ok_def undrained_send_inbound)

lemma chan_ok_update: "chan_ok ch \<Longrightarrow> chan_ok (chan_window_update add ch)"
  by (auto simp: chan_window_update_def chan_ok_def sender_ok_def receiver_ok_def unat_add_credit undrained_def)

lemma chan_ok_opened: "chan_ok ch \<Longrightarrow> chan_ok (chan_opened ok w ch)"
  using unat_raise_initial [of "credit ch" w] chan_ok_close [of ch]
  by (auto simp: chan_opened_def chan_ok_def sender_ok_def receiver_ok_def undrained_def)

lemma chan_ok_frame:
  assumes "chan_ok ch"
  shows "chan_ok (controller_frame f ch)" "chan_ok (controlled_frame f ch)"
  using assms by (cases f; simp add: chan_ok_data chan_ok_close chan_ok_update chan_ok_opened)+

lemma chan_ok_unlist: "chan_ok ch \<Longrightarrow> chan_ok (unlist ch)"
  by (simp add: chan_ok_def sender_ok_def receiver_ok_def)

lemma chan_ok_new: "chan_ok (new_controller_chan pre)" "chan_ok (new_controlled_chan w)"
  by (simp_all add: new_controller_chan_def new_controlled_chan_def chan_ok_def sender_ok_def
      receiver_ok_def undrained_def unat_send_credit_new)

text \<open>An end of a channel in the hands of an arbitrary peer: its own task runs, and any frame may
  arrive at any time.\<close>

inductive chan_reach :: "i32 \<Rightarrow> target \<Rightarrow> chan \<Rightarrow> bool" for i tg where
  controller: "chan_reach i tg (new_controller_chan pre)"
| controlled: "chan_reach i tg (new_controlled_chan advertised)"
| task: "chan_reach i tg ch \<Longrightarrow> chan_task i tg ev ch = Some (ch', outs) \<Longrightarrow> chan_reach i tg ch'"
| controller_in: "chan_reach i tg ch \<Longrightarrow> tx_alive ch \<Longrightarrow> chan_reach i tg (controller_frame f ch)"
| controlled_in: "chan_reach i tg ch \<Longrightarrow> tx_alive ch \<Longrightarrow> chan_reach i tg (controlled_frame f ch)"
| removed: "chan_reach i tg ch \<Longrightarrow> chan_reach i tg (unlist ch)"

lemma chan_reach_ok: "chan_reach i tg ch \<Longrightarrow> chan_ok ch"
  by (induction rule: chan_reach.induct)
     (blast intro: chan_ok_new chan_ok_task chan_ok_frame chan_ok_unlist)+

lemma bytes_le_cost:
  "pend_cost cs \<le> m \<Longrightarrow> m < 4294967295 \<Longrightarrow> length (concat cs) \<le> pend_cost cs \<and> 64 * length cs \<le> pend_cost cs"
proof (induction cs)
  case (Cons c cs)
  then show ?case using cost_covers [of "length c" "cost (length c)"] cost_pos [of "length c"] by simp
qed simp

lemma queue_le_cost:
  "queue_cost q \<le> m \<Longrightarrow> m < 4294967295 \<Longrightarrow>
   length (concat (map in_bytes q)) \<le> queue_cost q \<and> 64 * length (filter (\<lambda>x. in_cost x \<noteq> 0) q) \<le> queue_cost q"
proof (induction q)
  case (Cons x q)
  then show ?case
    using cost_covers [of "length (in_bytes x)" "cost (length (in_bytes x))"] cost_pos [of "length (in_bytes x)"]
    by (cases x) auto
qed simp

definition buffered :: "chan \<Rightarrow> bytes" where
  "buffered ch =
     (case down ch of DownWrite c \<Rightarrow> c | _ \<Rightarrow> []) @ concat (pending ch) @ concat (map in_bytes (inbound ch))"

lemma chan_bounds:
  assumes "chan_ok ch"
  shows "unat (credit ch) \<le> unat MAX_SEND_CREDIT"
    and "\<And>allow. up ch = UpRead allow \<Longrightarrow> unat MIN_FRAME_CHARGE \<le> allow \<and> allow \<le> MAX_FRAME"
    and "\<And>allow (got :: bytes). up ch = UpRead allow \<Longrightarrow> length got \<le> allow \<Longrightarrow>
           unat (of_nat allow - charge (length got)) = allow - cost (length got)"
    and "length (buffered ch) \<le> unat CHANNEL_WINDOW"
    and "64 * (length (pending ch) + length (filter (\<lambda>x. in_cost x \<noteq> 0) (inbound ch))) \<le> unat CHANNEL_WINDOW"
proof -
  have ok: "sender_ok ch" "receiver_ok ch"
    using assms by (simp_all add: chan_ok_def)
  then show "unat (credit ch) \<le> unat MAX_SEND_CREDIT"
    "\<And>allow. up ch = UpRead allow \<Longrightarrow> unat MIN_FRAME_CHARGE \<le> allow \<and> allow \<le> MAX_FRAME"
    by (auto simp: sender_ok_def MAX_FRAME_def)
  show "unat (of_nat allow - charge (length got)) = allow - cost (length got)"
    if "up ch = UpRead allow" "length got \<le> allow" for allow and got :: bytes
  proof -
    have "64 \<le> allow" "allow \<le> 65536" using ok(1) that(1) by (simp_all add: sender_ok_def)
    then show ?thesis
      using cost_le [OF that(2)] unat_of_nat_u32 [of allow] by (simp add: unat_sub word_le_nat_alt)
  qed
  have u: "undrained ch \<le> 262144"
    using ok(2) window_cap_le [of "phase ch"] by (simp add: receiver_ok_def)
  have w: "length (case down ch of DownWrite c \<Rightarrow> c | _ \<Rightarrow> []) \<le> write_cost (down ch)"
    using u cost_covers [of "length (in_bytes (InData c))" "cost (length c)" for c]
    by (auto simp: undrained_def write_cost_def split: down_state.splits)
  show "length (buffered ch) \<le> unat CHANNEL_WINDOW"
    "64 * (length (pending ch) + length (filter (\<lambda>x. in_cost x \<noteq> 0) (inbound ch))) \<le> unat CHANNEL_WINDOW"
    using u w bytes_le_cost [of "pending ch" 262144] queue_le_cost [of "inbound ch" 262144]
    by (simp_all add: undrained_def buffered_def)
qed

text \<open>C17. Whatever the peer sends, and whenever, the counters of a channel keep their meaning: the
  credit never exceeds \<open>MAX_SEND_CREDIT\<close>, a read is allowed between one minimum charge and one
  frame, the refund after a read never wraps below zero, and the bytes and the chunks held for
  the local socket stay within the channel's window: at most 256 KiB in at most 4096 chunks.\<close>

theorem channel_type_ok:
  assumes "chan_reach i tg ch"
  shows "credit ch \<le> MAX_SEND_CREDIT \<and>
         (\<forall>allow. up ch = UpRead allow \<longrightarrow> unat MIN_FRAME_CHARGE \<le> allow \<and> allow \<le> MAX_FRAME \<and>
            (\<forall>got :: bytes. length got \<le> allow \<longrightarrow>
               unat (of_nat allow - charge (length got)) = allow - cost (length got))) \<and>
         length (buffered ch) \<le> unat CHANNEL_WINDOW \<and>
         64 * (length (pending ch) + length (filter (\<lambda>x. in_cost x \<noteq> 0) (inbound ch))) \<le> unat CHANNEL_WINDOW"
  using chan_bounds [OF chan_reach_ok [OF assms]] by (simp add: word_le_nat_alt)

text \<open>A witness: a controlled channel that has accepted one frame of three bytes.\<close>

theorem channel_type_ok_witness:
  "length (buffered (chan_data [1, 2, 3] (new_controlled_chan 0))) \<le> unat CHANNEL_WINDOW \<and>
   buffered (chan_data [1, 2, 3] (new_controlled_chan 0)) = [1, 2, 3]"
proof -
  let ?ch = "new_controlled_chan 0"
  have "chan_reach 1 undefined (controlled_frame (Data 1 [1, 2, 3]) ?ch)"
    by (rule chan_reach.controlled_in [OF chan_reach.controlled]) (simp add: new_controlled_chan_def)
  moreover have "buffered (chan_data [1, 2, 3] ?ch) = [1, 2, 3]"
    by (simp add: new_controlled_chan_def chan_data_def accept_def buffered_def send_inbound_def
        rx_alive_def recv_window_new_def effective_window_def INITIAL_WINDOW_def charge_def
        MIN_FRAME_CHARGE_def u32_try_from_def checked_sub_def)
  ultimately show ?thesis
    using channel_type_ok [of 1 undefined "controlled_frame (Data 1 [1, 2, 3]) ?ch"] by simp
qed

end
