(* ===== verification/Pf_Pair.thy ===== *)
theory Pf_Pair
  imports Pf_Flow
begin

text \<open>
  The two ends of a channel joined by the tunnel
  (\<^verbatim>\<open>src/client/src/port_forward_mux.rs\<close>, \<open>tunnel_loop\<close> and \<open>FrameSink\<close>). The controller puts
  ordered frames and window updates on two queues, which the loop drains in any order onto the stream;
  the controlled side has one ordered sink. Everything else of the tunnel's life may happen at any
  time: an end drops the channel from its map, the target is refused, a task is cancelled by the
  teardown.
\<close>

section \<open>The pair\<close>

record pair =
  ctl :: chan
  cld :: chan
  data_q :: "frame list"
  ctl_q :: "frame list"
  up_wire :: "frame list"
  down_wire :: "frame list"

text \<open>The queue a frame goes to: \<open>FrameSink::Queued\<close> on the controller, \<open>FrameSink::Direct\<close> on the
  controlled side.\<close>

definition ordered_outs :: "out list \<Rightarrow> frame list" where
  "ordered_outs outs = List.map_filter (\<lambda>x. case x of Ordered f \<Rightarrow> Some f | Control _ \<Rightarrow> None) outs"

definition control_outs :: "out list \<Rightarrow> frame list" where
  "control_outs outs = List.map_filter (\<lambda>x. case x of Control f \<Rightarrow> Some f | Ordered _ \<Rightarrow> None) outs"

definition sink_queued :: "out list \<Rightarrow> pair \<Rightarrow> pair" where
  "sink_queued outs p =
     p\<lparr>data_q := data_q p @ ordered_outs outs, ctl_q := ctl_q p @ control_outs outs\<rparr>"

definition sink_direct :: "out list \<Rightarrow> pair \<Rightarrow> pair" where
  "sink_direct outs p = p\<lparr>down_wire := down_wire p @ map out_frame outs\<rparr>"

definition absent_chan :: chan where
  "absent_chan = (new_controlled_chan CHANNEL_WINDOW)\<lparr>phase := Absent, tx_alive := False\<rparr>"

definition start_pair :: "bytes \<Rightarrow> pair" where
  "start_pair pre =
     \<lparr>ctl = new_controller_chan pre, cld = absent_chan, data_q = [], ctl_q = [], up_wire = [], down_wire = []\<rparr>"

text \<open>A frame for a channel that is no longer in the map is dropped.\<close>

definition hear :: "bool \<Rightarrow> frame \<Rightarrow> chan \<Rightarrow> chan" where
  "hear is_ctl f ch =
     (if tx_alive ch then (if is_ctl then controller_frame f ch else controlled_frame f ch) else ch)"

text \<open>\<open>refuse_open\<close> stands for the guards of \<open>on_open\<close> that answer with a refusal; they are modelled with
  the maps of channels.\<close>

inductive pf_step :: "i32 \<Rightarrow> target \<Rightarrow> pair \<Rightarrow> pair \<Rightarrow> bool" for i tg where
  ctl_task: "chan_task i tg ev (ctl p) = Some (ch, outs) \<Longrightarrow> pf_step i tg p (sink_queued outs (p\<lparr>ctl := ch\<rparr>))"
| cld_task: "chan_task i tg ev (cld p) = Some (ch, outs) \<Longrightarrow> pf_step i tg p (sink_direct outs (p\<lparr>cld := ch\<rparr>))"
| send_data: "data_q p = f # q \<Longrightarrow> pf_step i tg p (p\<lparr>data_q := q, up_wire := up_wire p @ [f]\<rparr>)"
| send_control: "ctl_q p = f # q \<Longrightarrow> pf_step i tg p (p\<lparr>ctl_q := q, up_wire := up_wire p @ [f]\<rparr>)"
| to_ctl: "down_wire p = f # w \<Longrightarrow>
    pf_step i tg p (p\<lparr>down_wire := w, ctl := hear True f (ctl p)\<rparr>)"
| accept_open: "up_wire p = Open j h pt adv # w \<Longrightarrow> phase (cld p) = Absent \<Longrightarrow>
    pf_step i tg p (p\<lparr>up_wire := w, cld := new_controlled_chan adv\<rparr>)"
| refuse_open: "up_wire p = Open j h pt adv # w \<Longrightarrow> phase (cld p) = Absent \<Longrightarrow>
    pf_step i tg p (p\<lparr>up_wire := w, cld := (cld p)\<lparr>phase := Finished\<rparr>,
                      down_wire := down_wire p @ [Opened j False reason 0]\<rparr>)"
| to_cld: "up_wire p = f # w \<Longrightarrow> phase (cld p) \<noteq> Absent \<or> (\<forall>j h pt adv. f \<noteq> Open j h pt adv) \<Longrightarrow>
    pf_step i tg p (p\<lparr>up_wire := w, cld := hear False f (cld p)\<rparr>)"
| drop_ctl: "pf_step i tg p (p\<lparr>ctl := unlist (ctl p)\<rparr>)"
| drop_cld: "pf_step i tg p (p\<lparr>cld := unlist (cld p)\<rparr>)"

inductive pf_reach :: "i32 \<Rightarrow> target \<Rightarrow> bytes \<Rightarrow> pair \<Rightarrow> bool" for i tg pre where
  start: "pf_reach i tg pre (start_pair pre)"
| step: "pf_reach i tg pre p \<Longrightarrow> pf_step i tg p p' \<Longrightarrow> pf_reach i tg pre p'"

text \<open>A schedule of the pair: which task or queue takes the next turn.\<close>

datatype turn = CtlTurn task_event | CldTurn task_event | SendData | SendControl | ToCtl | ToCld

definition pf_turn :: "i32 \<Rightarrow> target \<Rightarrow> turn \<Rightarrow> pair \<Rightarrow> pair option" where
  "pf_turn i tg t p =
     (case t of
        CtlTurn ev \<Rightarrow>
          map_option (\<lambda>(ch, outs). sink_queued outs (p\<lparr>ctl := ch\<rparr>)) (chan_task i tg ev (ctl p))
      | CldTurn ev \<Rightarrow>
          map_option (\<lambda>(ch, outs). sink_direct outs (p\<lparr>cld := ch\<rparr>)) (chan_task i tg ev (cld p))
      | SendData \<Rightarrow> (case data_q p of f # q \<Rightarrow> Some (p\<lparr>data_q := q, up_wire := up_wire p @ [f]\<rparr>) | [] \<Rightarrow> None)
      | SendControl \<Rightarrow> (case ctl_q p of f # q \<Rightarrow> Some (p\<lparr>ctl_q := q, up_wire := up_wire p @ [f]\<rparr>) | [] \<Rightarrow> None)
      | ToCtl \<Rightarrow> (case down_wire p of f # w \<Rightarrow> Some (p\<lparr>down_wire := w, ctl := hear True f (ctl p)\<rparr>) | [] \<Rightarrow> None)
      | ToCld \<Rightarrow>
          (case up_wire p of
             Open j h pt adv # w \<Rightarrow>
               if phase (cld p) = Absent then Some (p\<lparr>up_wire := w, cld := new_controlled_chan adv\<rparr>)
               else Some (p\<lparr>up_wire := w, cld := hear False (Open j h pt adv) (cld p)\<rparr>)
           | f # w \<Rightarrow> Some (p\<lparr>up_wire := w, cld := hear False f (cld p)\<rparr>)
           | [] \<Rightarrow> None))"

fun pf_turns :: "i32 \<Rightarrow> target \<Rightarrow> turn list \<Rightarrow> pair \<Rightarrow> pair option" where
  "pf_turns i tg [] p = Some p"
| "pf_turns i tg (t # ts) p = Option.bind (pf_turn i tg t p) (pf_turns i tg ts)"

lemma pf_turn_step: "pf_turn i tg t p = Some p' \<Longrightarrow> pf_step i tg p p'"
  by (cases t) (auto simp: pf_turn_def intro: pf_step.intros split: list.splits frame.splits if_splits)

lemma pf_turns_reach:
  "pf_turns i tg ts p = Some p' \<Longrightarrow> pf_reach i tg pre p \<Longrightarrow> pf_reach i tg pre p'"
proof (induction ts arbitrary: p)
  case (Cons t ts)
  then obtain q where "pf_turn i tg t p = Some q" "pf_turns i tg ts q = Some p'"
    by (cases "pf_turn i tg t p") auto
  then show ?case using Cons pf_turn_step pf_reach.step by blast
qed simp

lemmas pf_eval = pf_turn_def start_pair_def new_controller_chan_def new_controlled_chan_def absent_chan_def
  chan_task_def run_channel_def relay_socket_to_tunnel_def relay_tunnel_to_socket_def run_controlled_channel_def
  sink_queued_def sink_direct_def ordered_outs_def control_outs_def List.map_filter_def send_credit_new_def
  take_credit_def INITIAL_WINDOW_def CHANNEL_WINDOW_def MIN_FRAME_CHARGE_def MAX_SEND_CREDIT_def MAX_FRAME_def
  UPDATE_THRESHOLD_def after_read_def after_write_def Let_def charge_def u32_try_from_def add_credit_def
  saturating_add_def hear_def chan_data_def chan_close_def accept_def checked_sub_def recv_window_new_def
  effective_window_def rx_alive_def send_inbound_def unlist_def pending_fits_def grant_def next_chunk_def drained_def
  close_due_def min_def max_def

text \<open>A tunnel to \<open>db:5432\<close> on which the controller sends three bytes, and then closes in order.\<close>

definition demo_target :: target where
  "demo_target = \<lparr>t_host = ''db'', t_port = 5432, t_addr = ''db:5432'', t_rdp = False\<rparr>"

definition demo_send :: "turn list" where
  "demo_send =
     [CtlTurn (OpenSent True), SendData, ToCld, CtlTurn (RunEv (UpEv Poll)),
      CtlTurn (RunEv (UpEv (ReadReturns []))), CtlTurn (RunEv (UpEv (Sink True))), SendData]"

definition demo_close :: "turn list" where
  "demo_close =
     [ToCld, CldTurn (ConnectEv Command), CldTurn (ConnectEv (ConnectOk True)), CldTurn (RunEv (DownEv NextChunk)),
      CldTurn (RunEv (DownEv (Written True))), CtlTurn (RunEv (UpEv Poll)),
      CtlTurn (RunEv (UpEv (ReadReturns []))), CtlTurn (RunEv (EndSeen False)),
      CtlTurn (RunEv (DownEv (CancelDown 0))), CtlTurn (RunEv (Join True)), SendData, ToCld,
      CldTurn (RunEv (DownEv NextChunk))]"

section \<open>Traffic\<close>

fun ord :: "frame \<Rightarrow> bool" where
  "ord (WindowUpdate _ _) = False"
| "ord _ = True"

definition up_ord :: "pair \<Rightarrow> frame list" where
  "up_ord p = filter ord (up_wire p @ data_q p)"

definition up_upd :: "pair \<Rightarrow> nat" where
  "up_upd p = total_of update_of (up_wire p) + total_of update_of (ctl_q p)"

definition down_ord :: "pair \<Rightarrow> frame list" where
  "down_ord p = filter ord (down_wire p)"

definition down_upd :: "pair \<Rightarrow> nat" where
  "down_upd p = total_of update_of (down_wire p)"

definition queues_ok :: "pair \<Rightarrow> bool" where
  "queues_ok p = ((\<forall>f\<in>set (data_q p). ord f) \<and> (\<forall>f\<in>set (ctl_q p). \<not> ord f))"

lemma not_ord [simp]:
  "\<not> ord f \<Longrightarrow> data_of f = []" "\<not> ord f \<Longrightarrow> cost_of f = 0" "\<not> ord f \<Longrightarrow> raise_of f = 0"
  by (cases f; simp)+

lemma ord_update [simp]: "ord f \<Longrightarrow> update_of f = 0"
  by (cases f) simp_all

lemma total_ord [simp]: "(\<And>f. f \<in> set F \<Longrightarrow> ord f) \<Longrightarrow> total_of update_of F = 0"
  by (induction F) auto

text \<open>A task puts at most one frame on its sink, and only window updates on the control queue.\<close>

lemma chan_task_outs:
  assumes "chan_task i tg ev ch = Some (ch', outs)"
  shows "outs = [] \<or> (\<exists>f. outs = [Ordered f] \<and> ord f) \<or> (\<exists>f. outs = [Control f] \<and> \<not> ord f)"
  using assms
proof (cases rule: chan_task_cases)
  case (written c ok)
  then show ?thesis
    by (auto simp: after_write_def Let_def split: option.splits if_splits prod.splits)
qed (auto split: if_splits)

lemma sink_queued_traffic:
  assumes "chan_task i tg ev ch = Some (ch', outs)" "queues_ok p"
  shows "up_ord (sink_queued outs p) = up_ord p @ filter ord (map out_frame outs)"
    and "up_upd (sink_queued outs p) = up_upd p + total_of update_of (map out_frame outs)"
    and "queues_ok (sink_queued outs p)"
  using chan_task_outs [OF assms(1)] assms(2)
  by (auto simp: sink_queued_def up_ord_def up_upd_def queues_ok_def ordered_outs_def control_outs_def
      List.map_filter_def)

lemma sink_queued_vals [simp]:
  "ctl (sink_queued outs p) = ctl p" "cld (sink_queued outs p) = cld p"
  "down_wire (sink_queued outs p) = down_wire p" "up_wire (sink_queued outs p) = up_wire p"
  "down_ord (sink_queued outs p) = down_ord p" "down_upd (sink_queued outs p) = down_upd p"
  by (simp_all add: sink_queued_def down_ord_def down_upd_def)

lemma sink_direct_vals [simp]:
  "ctl (sink_direct outs p) = ctl p" "cld (sink_direct outs p) = cld p" "data_q (sink_direct outs p) = data_q p"
  "ctl_q (sink_direct outs p) = ctl_q p" "up_wire (sink_direct outs p) = up_wire p"
  "up_ord (sink_direct outs p) = up_ord p" "up_upd (sink_direct outs p) = up_upd p"
  "queues_ok (sink_direct outs p) = queues_ok p"
  "down_ord (sink_direct outs p) = down_ord p @ filter ord (map out_frame outs)"
  "down_upd (sink_direct outs p) = down_upd p + total_of update_of (map out_frame outs)"
  by (simp_all add: sink_direct_def up_ord_def up_upd_def queues_ok_def down_ord_def down_upd_def)

lemma traffic_updates [simp]:
  "up_ord (p\<lparr>ctl := c\<rparr>) = up_ord p" "up_ord (p\<lparr>cld := c\<rparr>) = up_ord p" "up_upd (p\<lparr>ctl := c\<rparr>) = up_upd p"
  "up_upd (p\<lparr>cld := c\<rparr>) = up_upd p" "down_ord (p\<lparr>ctl := c\<rparr>) = down_ord p"
  "down_ord (p\<lparr>cld := c\<rparr>) = down_ord p" "down_upd (p\<lparr>ctl := c\<rparr>) = down_upd p"
  "down_upd (p\<lparr>cld := c\<rparr>) = down_upd p" "queues_ok (p\<lparr>ctl := c\<rparr>) = queues_ok p"
  "queues_ok (p\<lparr>cld := c\<rparr>) = queues_ok p" "queues_ok (p\<lparr>up_wire := w\<rparr>) = queues_ok p"
  "queues_ok (p\<lparr>down_wire := w\<rparr>) = queues_ok p" "down_ord (p\<lparr>up_wire := w\<rparr>) = down_ord p"
  "down_upd (p\<lparr>up_wire := w\<rparr>) = down_upd p" "up_ord (p\<lparr>down_wire := w\<rparr>) = up_ord p"
  "up_upd (p\<lparr>down_wire := w\<rparr>) = up_upd p"
  by (simp_all add: up_ord_def up_upd_def down_ord_def down_upd_def queues_ok_def)

text \<open>The turns of \<open>tunnel_loop\<close> that send only move frames along.\<close>

lemma send_data_traffic:
  assumes "data_q p = f # q" "queues_ok p"
  defines "p' \<equiv> p\<lparr>data_q := q, up_wire := up_wire p @ [f]\<rparr>"
  shows "up_ord p' = up_ord p" "up_upd p' = up_upd p" "queues_ok p'" "down_ord p' = down_ord p"
    "down_upd p' = down_upd p" "ctl p' = ctl p" "cld p' = cld p"
  using assms by (simp_all add: up_ord_def up_upd_def queues_ok_def down_ord_def down_upd_def)

lemma send_control_traffic:
  assumes "ctl_q p = f # q" "queues_ok p"
  defines "p' \<equiv> p\<lparr>ctl_q := q, up_wire := up_wire p @ [f]\<rparr>"
  shows "up_ord p' = up_ord p" "up_upd p' = up_upd p" "queues_ok p'" "down_ord p' = down_ord p"
    "down_upd p' = down_upd p" "ctl p' = ctl p" "cld p' = cld p"
  using assms by (simp_all add: up_ord_def up_upd_def queues_ok_def down_ord_def down_upd_def)

end
