(* ===== verification/Pf_Stream.thy ===== *)
theory Pf_Stream
  imports Pf_Pair
begin

text \<open>
  Both directions of a channel at once. A direction is a sending end, a receiving end, the ordered
  frames on their way from the one to the other and back, and the sum of the window updates on their
  way back. Every step of the pair is a step of each of its directions, so an invariant of a
  direction is proved once and holds of both. The invariant of this theory gives that the sender never
  overruns the receiver's window; \<open>Pf_Exact\<close> and \<open>Pf_Bytes\<close> add theirs.
\<close>

section \<open>Directions\<close>

record dir =
  sender :: chan
  receiver :: chan
  fwd :: "frame list"
  ret :: "frame list"
  upd :: nat

definition to_controlled :: "pair \<Rightarrow> dir" where
  "to_controlled p = \<lparr>sender = ctl p, receiver = cld p, fwd = up_ord p, ret = down_ord p, upd = down_upd p\<rparr>"

definition to_controller :: "pair \<Rightarrow> dir" where
  "to_controller p = \<lparr>sender = cld p, receiver = ctl p, fwd = down_ord p, ret = up_ord p, upd = up_upd p\<rparr>"

text \<open>\<open>dstep i tg b\<close>: a step of a direction; \<open>b\<close> says that its sender is the controller.\<close>

inductive dstep :: "i32 \<Rightarrow> target \<Rightarrow> bool \<Rightarrow> dir \<Rightarrow> dir \<Rightarrow> bool" for i tg b where
  snd_task: "chan_task i tg ev (sender d) = Some (ch, outs) \<Longrightarrow>
    dstep i tg b d (d\<lparr>sender := ch, fwd := fwd d @ filter ord (map out_frame outs)\<rparr>)"
| rcv_task: "chan_task i tg ev (receiver d) = Some (ch, outs) \<Longrightarrow>
    dstep i tg b d (d\<lparr>receiver := ch, ret := ret d @ filter ord (map out_frame outs),
                      upd := upd d + total_of update_of (map out_frame outs)\<rparr>)"
| snd_hears: "ret d = f # K \<Longrightarrow> ord f \<Longrightarrow>
    dstep i tg b d (d\<lparr>ret := K, sender := hear b f (sender d)\<rparr>)"
| snd_updated: "\<not> ord f \<Longrightarrow> upd d = v + update_of f \<Longrightarrow> dstep i tg b d (d\<lparr>upd := v, sender := hear b f (sender d)\<rparr>)"
| rcv_hears: "fwd d = f # F \<Longrightarrow> ord f \<Longrightarrow> b \<longrightarrow> phase (receiver d) \<noteq> Absent \<or> (\<forall>j h pt adv. f \<noteq> Open j h pt adv) \<Longrightarrow>
    dstep i tg b d (d\<lparr>fwd := F, receiver := hear (\<not> b) f (receiver d)\<rparr>)"
| rcv_updated: "\<not> ord f \<Longrightarrow> dstep i tg b d (d\<lparr>receiver := hear (\<not> b) f (receiver d)\<rparr>)"
| snd_opens: "\<not> b \<Longrightarrow> ret d = Open j h pt adv # K \<Longrightarrow> phase (sender d) = Absent \<Longrightarrow>
    dstep i tg b d (d\<lparr>ret := K, sender := new_controlled_chan adv\<rparr>)"
| snd_refused: "\<not> b \<Longrightarrow> ret d = Open j h pt adv # K \<Longrightarrow> phase (sender d) = Absent \<Longrightarrow>
    dstep i tg b d (d\<lparr>ret := K, sender := (sender d)\<lparr>phase := Finished\<rparr>, fwd := fwd d @ [Opened j False msg 0]\<rparr>)"
| rcv_opens: "b \<Longrightarrow> fwd d = Open j h pt adv # F \<Longrightarrow> phase (receiver d) = Absent \<Longrightarrow>
    dstep i tg b d (d\<lparr>fwd := F, receiver := new_controlled_chan adv\<rparr>)"
| rcv_refused: "b \<Longrightarrow> fwd d = Open j h pt adv # F \<Longrightarrow> phase (receiver d) = Absent \<Longrightarrow>
    dstep i tg b d (d\<lparr>fwd := F, receiver := (receiver d)\<lparr>phase := Finished\<rparr>, ret := ret d @ [Opened j False msg 0]\<rparr>)"
| snd_drop: "dstep i tg b d (d\<lparr>sender := unlist (sender d)\<rparr>)"
| rcv_drop: "dstep i tg b d (d\<lparr>receiver := unlist (receiver d)\<rparr>)"
| idle: "dstep i tg b d d"

lemmas dir_views = to_controlled_def to_controller_def

lemma up_wire_Cons:
  assumes "up_wire p = f # w"
  obtains K v where "up_ord p = (if ord f then f # K else K)" "up_upd p = v + update_of f"
    "up_ord (p\<lparr>up_wire := w\<rparr>) = K" "up_upd (p\<lparr>up_wire := w\<rparr>) = v"
  using assms by (simp add: up_ord_def up_upd_def)

lemma down_wire_Cons:
  assumes "down_wire p = f # w"
  obtains K v where "down_ord p = (if ord f then f # K else K)" "down_upd p = v + update_of f"
    "down_ord (p\<lparr>down_wire := w\<rparr>) = K" "down_upd (p\<lparr>down_wire := w\<rparr>) = v"
  using assms by (simp add: down_ord_def down_upd_def)

lemma down_push:
  "down_ord (q\<lparr>down_wire := down_wire p @ [Opened j ok msg n]\<rparr>) = down_ord p @ [Opened j ok msg n]"
  "down_upd (q\<lparr>down_wire := down_wire p @ [Opened j ok msg n]\<rparr>) = down_upd p"
  by (simp_all add: down_ord_def down_upd_def)

text \<open>A step of the pair, seen in each direction.\<close>

lemma pf_step_to_controlled:
  assumes "pf_step i tg p p'" "queues_ok p"
  shows "dstep i tg True (to_controlled p) (to_controlled p') \<and> queues_ok p'"
  using assms(1)
proof cases
  case (ctl_task ev ch outs)
  then show ?thesis
    using snd_task [of i tg ev "to_controlled p" ch outs True] sink_queued_traffic [OF ctl_task(2), of "p\<lparr>ctl := ch\<rparr>"] assms(2)
    by (simp add: dir_views)
next
  case (cld_task ev ch outs)
  then show ?thesis
    using rcv_task [of i tg ev "to_controlled p" ch outs True] assms(2) by (simp add: dir_views)
next
  case (send_data f q)
  then show ?thesis
    using send_data_traffic [OF send_data(2) assms(2)] idle [of i tg True "to_controlled p"] by (simp add: dir_views)
next
  case (send_control f q)
  then show ?thesis
    using send_control_traffic [OF send_control(2) assms(2)] idle [of i tg True "to_controlled p"] by (simp add: dir_views)
next
  case (to_ctl f w)
  obtain K v where [simp]: "down_ord p = (if ord f then f # K else K)" "down_upd p = v + update_of f"
    "down_ord (p\<lparr>down_wire := w\<rparr>) = K" "down_upd (p\<lparr>down_wire := w\<rparr>) = v"
    using to_ctl(2) by (rule down_wire_Cons)
  show ?thesis
    using snd_hears [of "to_controlled p" f K i tg True] snd_updated [of f "to_controlled p" v i tg True]
      to_ctl(1) assms(2)
    by (cases "ord f") (simp_all add: dir_views)
next
  case (accept_open j h pt adv w)
  obtain K v where [simp]: "up_ord p = Open j h pt adv # K" "up_upd p = v"
    "up_ord (p\<lparr>up_wire := w\<rparr>) = K" "up_upd (p\<lparr>up_wire := w\<rparr>) = v"
    using accept_open(2) by (rule up_wire_Cons) simp
  show ?thesis
    using rcv_opens [of True "to_controlled p" j h pt adv K i tg] accept_open assms(2) by (simp add: dir_views)
next
  case (refuse_open j h pt adv w reason)
  obtain K v where [simp]: "up_ord p = Open j h pt adv # K" "up_upd p = v"
    "up_ord (p\<lparr>up_wire := w\<rparr>) = K" "up_upd (p\<lparr>up_wire := w\<rparr>) = v"
    using refuse_open(2) by (rule up_wire_Cons) simp
  show ?thesis
    using rcv_refused [of True "to_controlled p" j h pt adv K i tg reason] refuse_open down_push assms(2)
    by (simp add: dir_views)
next
  case (to_cld f w)
  obtain K v where [simp]: "up_ord p = (if ord f then f # K else K)" "up_upd p = v + update_of f"
    "up_ord (p\<lparr>up_wire := w\<rparr>) = K" "up_upd (p\<lparr>up_wire := w\<rparr>) = v"
    using to_cld(2) by (rule up_wire_Cons)
  show ?thesis
    using rcv_hears [where d = "to_controlled p" and f = f and F = K and i = i and tg = tg and b = True] rcv_updated [of f i tg True "to_controlled p"]
      to_cld(1,3) assms(2)
    by (cases "ord f") (simp_all add: dir_views)
next
  case drop_ctl
  then show ?thesis using snd_drop [of i tg True "to_controlled p"] assms(2) by (simp add: dir_views)
next
  case drop_cld
  then show ?thesis using rcv_drop [of i tg True "to_controlled p"] assms(2) by (simp add: dir_views)
qed

lemma pf_step_to_controller:
  assumes "pf_step i tg p p'" "queues_ok p"
  shows "dstep i tg False (to_controller p) (to_controller p') \<and> queues_ok p'"
  using assms(1)
proof cases
  case (ctl_task ev ch outs)
  then show ?thesis
    using rcv_task [of i tg ev "to_controller p" ch outs False] sink_queued_traffic [OF ctl_task(2), of "p\<lparr>ctl := ch\<rparr>"] assms(2)
    by (simp add: dir_views)
next
  case (cld_task ev ch outs)
  then show ?thesis
    using snd_task [of i tg ev "to_controller p" ch outs False] assms(2) by (simp add: dir_views)
next
  case (send_data f q)
  then show ?thesis
    using send_data_traffic [OF send_data(2) assms(2)] idle [of i tg False "to_controller p"] by (simp add: dir_views)
next
  case (send_control f q)
  then show ?thesis
    using send_control_traffic [OF send_control(2) assms(2)] idle [of i tg False "to_controller p"] by (simp add: dir_views)
next
  case (to_ctl f w)
  obtain K v where [simp]: "down_ord p = (if ord f then f # K else K)" "down_upd p = v + update_of f"
    "down_ord (p\<lparr>down_wire := w\<rparr>) = K" "down_upd (p\<lparr>down_wire := w\<rparr>) = v"
    using to_ctl(2) by (rule down_wire_Cons)
  show ?thesis
    using rcv_hears [where d = "to_controller p" and f = f and F = K and i = i and tg = tg and b = False] rcv_updated [of f i tg False "to_controller p"]
      to_ctl(1) assms(2)
    by (cases "ord f") (simp_all add: dir_views)
next
  case (accept_open j h pt adv w)
  obtain K v where [simp]: "up_ord p = Open j h pt adv # K" "up_upd p = v"
    "up_ord (p\<lparr>up_wire := w\<rparr>) = K" "up_upd (p\<lparr>up_wire := w\<rparr>) = v"
    using accept_open(2) by (rule up_wire_Cons) simp
  show ?thesis
    using snd_opens [of False "to_controller p" j h pt adv K i tg] accept_open assms(2) by (simp add: dir_views)
next
  case (refuse_open j h pt adv w reason)
  obtain K v where [simp]: "up_ord p = Open j h pt adv # K" "up_upd p = v"
    "up_ord (p\<lparr>up_wire := w\<rparr>) = K" "up_upd (p\<lparr>up_wire := w\<rparr>) = v"
    using refuse_open(2) by (rule up_wire_Cons) simp
  show ?thesis
    using snd_refused [of False "to_controller p" j h pt adv K i tg reason] refuse_open down_push assms(2)
    by (simp add: dir_views)
next
  case (to_cld f w)
  obtain K v where [simp]: "up_ord p = (if ord f then f # K else K)" "up_upd p = v + update_of f"
    "up_ord (p\<lparr>up_wire := w\<rparr>) = K" "up_upd (p\<lparr>up_wire := w\<rparr>) = v"
    using to_cld(2) by (rule up_wire_Cons)
  show ?thesis
    using snd_hears [of "to_controller p" f K i tg False] snd_updated [of f "to_controller p" v i tg False]
      to_cld(1) assms(2)
    by (cases "ord f") (simp_all add: dir_views)
next
  case drop_ctl
  then show ?thesis using rcv_drop [of i tg False "to_controller p"] assms(2) by (simp add: dir_views)
next
  case drop_cld
  then show ?thesis using snd_drop [of i tg False "to_controller p"] assms(2) by (simp add: dir_views)
qed

section \<open>The ends, seen from the accounts\<close>

lemma total_filter_ord [simp]:
  "total_of cost_of (filter ord F) = total_of cost_of F" "total_of raise_of (filter ord F) = total_of raise_of F"
  by (induction F) auto

lemma fdata_filter_ord [simp]: "fdata (filter ord F) = fdata F"
  by (induction F) auto

lemma task_opened: "chan_task i tg ev ch = Some (ch', outs) \<Longrightarrow> opened ch' = opened ch"
  by (erule chan_task_cases)
     (auto simp: after_write_def Let_def split: option.splits if_splits prod.splits)

text \<open>A sender pays for every frame it emits out of what it held.\<close>

lemma task_held:
  assumes "chan_task i tg ev ch = Some (ch', outs)" "sender_ok ch"
  shows "held ch' + total_of cost_of (map out_frame outs) \<le> held ch"
  using assms(1)
proof (cases rule: chan_task_cases)
  case (taken n c)
  then show ?thesis using take_creditD [OF taken(3)] by (simp add: held_def)
next
  case (read allow got)
  then show ?thesis using after_read_account(1) assms(2) by simp
next
  case (read_cancelled allow)
  then have "unat (of_nat allow :: u32) = allow"
    using assms(2) by (simp add: sender_ok_def unat_of_nat_u32)
  then show ?thesis using read_cancelled by (simp add: held_def unat_add_credit)
next
  case (written c ok)
  then show ?thesis
    by (auto simp: after_write_def Let_def held_def split: option.splits if_splits prod.splits)
qed (auto simp: held_def)

text \<open>A receiver's window grows by at least what it advertises.\<close>

lemma task_rem:
  assumes "chan_task i tg ev ch = Some (ch', outs)" "receiver_ok ch"
  shows "rem (window ch) + total_of update_of (map out_frame outs) + total_of raise_of (map out_frame outs)
           \<le> rem (window ch')"
  using assms(1)
proof (cases rule: chan_task_cases)
  case (written c ok)
  show ?thesis
    using after_write_account(2,7) [OF assms(2) written(2,1,3)] by auto
next
  case (connected ok)
  then show ?thesis using assms(2) by (simp add: receiver_ok_def grant_vals grant_opened)
qed auto

lemma hear_held:
  assumes "sender_ok ch"
  shows "held (hear b f ch) + (if opened (hear b f ch) then 0 else k)
           \<le> held ch + update_of f + (if opened ch then 0 else raise_of f + k)"
  using assms unat_raise_initial [of "credit ch"]
  by (cases f) (auto simp: hear_def held_def chan_opened_def chan_close_def chan_window_update_def
      unat_add_credit sender_ok_def)

lemma hear_rem:
  assumes "cost_of f \<le> rem (window ch)"
  shows "rem (window ch) \<le> rem (window (hear b f ch)) + cost_of f"
  using assms chan_data_account(1) [of "data_of f" ch]
  by (cases f) (auto simp: hear_def chan_opened_def chan_close_def chan_window_update_def)

lemma chan_ok_hear: "chan_ok ch \<Longrightarrow> chan_ok (hear b f ch)"
  by (simp add: hear_def chan_ok_frame)

lemma hear_vals [simp]:
  "phase (hear b f ch) = phase ch" "opened (hear False f ch) = opened ch" "up (hear b f ch) = up ch"
  "sock_in (hear b f ch) = sock_in ch" "sock_out (hear b f ch) = sock_out ch" "down (hear b f ch) = down ch"
  "pending (hear b f ch) = pending ch"
  by (cases f; simp add: hear_def chan_opened_def chan_close_def chan_window_update_def)+

section \<open>The sender never overruns the window\<close>

definition open_ok :: "frame \<Rightarrow> bool" where
  "open_ok f = (case f of Open _ _ _ w \<Rightarrow> w = CHANNEL_WINDOW | _ \<Rightarrow> True)"

definition roles_ok :: "chan \<Rightarrow> chan \<Rightarrow> frame list \<Rightarrow> bool" where
  "roles_ok c x Q =
     (\<not> waiting (phase c) \<and> opened x \<and> phase x \<noteq> Opening \<and> (phase x = Absent \<longrightarrow> x = absent_chan) \<and>
      (\<forall>f\<in>set Q. open_ok f))"

definition dir_roles :: "bool \<Rightarrow> dir \<Rightarrow> bool" where
  "dir_roles b d =
     (if b then roles_ok (sender d) (receiver d) (fwd d) else roles_ok (receiver d) (sender d) (ret d))"

definition flow_le :: "dir \<Rightarrow> bool" where
  "flow_le d =
     (held (sender d) + total_of cost_of (fwd d) + upd d +
        (if opened (sender d) then 0 else total_of raise_of (ret d)) \<le> rem (window (receiver d)))"

definition dir_ok :: "bool \<Rightarrow> dir \<Rightarrow> bool" where
  "dir_ok b d = (chan_ok (sender d) \<and> chan_ok (receiver d) \<and> dir_roles b d \<and> flow_le d)"

lemma unlist_absent [simp]: "unlist absent_chan = absent_chan" "hear b f absent_chan = absent_chan"
  by (simp_all add: unlist_def absent_chan_def hear_def)

lemma absent_vals [simp]:
  "tx_alive absent_chan = False" "phase absent_chan = Absent" "opened absent_chan"
  "window absent_chan = window (new_controlled_chan CHANNEL_WINDOW)"
  "held absent_chan = held (new_controlled_chan CHANNEL_WINDOW)"
  by (simp_all add: absent_chan_def held_def new_controlled_chan_def)

lemma task_roles:
  assumes "chan_task i tg ev ch = Some (ch', outs)" "phase ch \<noteq> Absent"
  shows "phase ch' \<noteq> Absent" "phase ch' \<noteq> Opening" "\<not> waiting (phase ch) \<Longrightarrow> \<not> waiting (phase ch')"
    "\<forall>f\<in>set (map out_frame outs). open_ok f"
proof -
  have "phase ch' \<noteq> Absent \<and> phase ch' \<noteq> Opening \<and> (\<not> waiting (phase ch) \<longrightarrow> \<not> waiting (phase ch')) \<and>
      (\<forall>f\<in>set (map out_frame outs). open_ok f)"
    using assms(1)
    by (cases rule: chan_task_cases)
       (auto simp: open_ok_def after_write_def Let_def split: option.splits if_splits prod.splits)
  then show "phase ch' \<noteq> Absent" "phase ch' \<noteq> Opening" "\<not> waiting (phase ch) \<Longrightarrow> \<not> waiting (phase ch')"
    "\<forall>f\<in>set (map out_frame outs). open_ok f" by auto
qed

lemma task_not_absent: "chan_task i tg ev ch = Some r \<Longrightarrow> phase ch \<noteq> Absent"
  by (auto simp: chan_task_def)

lemma roles_ok_controller_task:
  assumes "chan_task i tg ev c = Some (c', outs)" "roles_ok c x Q"
  shows "roles_ok c' x (Q @ filter ord (map out_frame outs))"
  using assms(2) task_roles [OF assms(1) task_not_absent [OF assms(1)]] by (auto simp: roles_ok_def)

lemma roles_ok_controlled_task:
  assumes "chan_task i tg ev x = Some (x', outs)" "roles_ok c x Q"
  shows "roles_ok c x' Q"
  using assms(2) task_roles [OF assms(1) task_not_absent [OF assms(1)]] task_opened [OF assms(1)]
  by (auto simp: roles_ok_def)

lemma roles_ok_quiet:
  assumes "roles_ok c x Q"
  shows "roles_ok (hear b f c) x Q" "roles_ok c (hear False f x) Q" "roles_ok (unlist c) x Q" "roles_ok c (unlist x) Q"
  using assms by (auto simp: roles_ok_def)

lemma roles_ok_tl: "roles_ok c x (f # Q) \<Longrightarrow> roles_ok c x Q"
  by (simp add: roles_ok_def)

lemma dir_roles_step:
  assumes "dstep i tg b d d'" "dir_roles b d"
  shows "dir_roles b d'"
  using assms(1)
proof cases
  case (snd_task ev ch outs)
  then show ?thesis using assms(2) roles_ok_controller_task [OF snd_task(2)] roles_ok_controlled_task [OF snd_task(2)]
    by (simp add: dir_roles_def split: if_splits)
next
  case (rcv_task ev ch outs)
  then show ?thesis using assms(2) roles_ok_controller_task [OF rcv_task(2)] roles_ok_controlled_task [OF rcv_task(2)]
    by (simp add: dir_roles_def split: if_splits)
next
  case (snd_opens j h pt adv K)
  then show ?thesis using assms(2) by (simp add: dir_roles_def roles_ok_def new_controlled_chan_def)
next
  case (snd_refused j h pt adv K msg)
  then show ?thesis using assms(2) by (simp add: dir_roles_def roles_ok_def)
next
  case (rcv_opens j h pt adv F)
  then show ?thesis using assms(2) by (simp add: dir_roles_def roles_ok_def new_controlled_chan_def)
next
  case (rcv_refused j h pt adv F msg)
  then show ?thesis using assms(2) by (simp add: dir_roles_def roles_ok_def)
qed (use assms(2) in \<open>cases b; simp add: dir_roles_def roles_ok_quiet roles_ok_tl\<close>)+

lemma absent_open:
  assumes "roles_ok c x (Open j h pt adv # Q)" "phase x = Absent"
  shows "adv = CHANNEL_WINDOW" "x = absent_chan" "window x = window (new_controlled_chan adv)"
    "held x = held (new_controlled_chan adv)" "opened x" "opened (new_controlled_chan adv)"
  using assms by (auto simp: roles_ok_def open_ok_def) (simp add: new_controlled_chan_def)

lemma flow_le_step:
  assumes "dstep i tg b d d'" "dir_ok b d"
  shows "flow_le d'"
proof -
  have ok: "sender_ok (sender d)" "receiver_ok (receiver d)" and r: "dir_roles b d" and le: "flow_le d"
    using assms(2) by (simp_all add: dir_ok_def chan_ok_def)
  show ?thesis
    using assms(1)
  proof cases
    case (snd_task ev ch outs)
    then show ?thesis using le task_held [OF snd_task(2) ok(1)] task_opened [OF snd_task(2)]
      by (simp add: flow_le_def split: if_splits)
  next
    case (rcv_task ev ch outs)
    then show ?thesis using le task_rem [OF rcv_task(2) ok(2)] by (simp add: flow_le_def split: if_splits)
  next
    case (snd_hears f K)
    then show ?thesis
      using le hear_held [OF ok(1), of b f "total_of raise_of K"] by (simp add: flow_le_def split: if_splits)
  next
    case (snd_updated f v)
    then show ?thesis
      using le hear_held [OF ok(1), of b f "total_of raise_of (ret d)"] by (simp add: flow_le_def split: if_splits)
  next
    case (rcv_hears f F)
    then have "cost_of f \<le> rem (window (receiver d))" using le by (simp add: flow_le_def)
    from hear_rem [OF this, of "\<not> b"] rcv_hears show ?thesis using le by (simp add: flow_le_def split: if_splits)
  next
    case (rcv_updated f)
    then have "cost_of f = 0" by simp
    then show ?thesis using hear_rem [of f "receiver d" "\<not> b"] rcv_updated le by (simp add: flow_le_def split: if_splits)
  next
    case (snd_opens j h pt adv K)
    then show ?thesis using r le absent_open [of "receiver d" "sender d" j h pt adv K]
      by (simp add: flow_le_def dir_roles_def)
  next
    case (snd_refused j h pt adv K msg)
    then show ?thesis using r le by (simp add: flow_le_def dir_roles_def roles_ok_def held_def)
  next
    case (rcv_opens j h pt adv F)
    then show ?thesis using r le absent_open [of "sender d" "receiver d" j h pt adv F]
      by (simp add: flow_le_def dir_roles_def split: if_splits)
  next
    case (rcv_refused j h pt adv F msg)
    then show ?thesis using le by (simp add: flow_le_def split: if_splits)
  qed (use le in \<open>simp_all add: flow_le_def held_def split: if_splits\<close>)
qed

lemma chan_ok_refused: "chan_ok ch \<Longrightarrow> phase ch = Absent \<Longrightarrow> chan_ok (ch\<lparr>phase := Finished\<rparr>)"
  by (simp add: chan_ok_def sender_ok_def receiver_ok_def undrained_def)

lemma dir_ok_step:
  assumes "dstep i tg b d d'" "dir_ok b d"
  shows "dir_ok b d'"
proof -
  have ok: "chan_ok (sender d)" "chan_ok (receiver d)" using assms(2) by (simp_all add: dir_ok_def)
  have "chan_ok (sender d') \<and> chan_ok (receiver d')"
    using assms(1) ok
    by cases (auto intro: chan_ok_task chan_ok_hear chan_ok_new chan_ok_refused chan_ok_unlist)
  then show ?thesis
    using flow_le_step [OF assms] dir_roles_step [OF assms(1)] assms(2) by (simp add: dir_ok_def)
qed

lemma start_queues: "queues_ok (start_pair pre)"
  by (simp add: queues_ok_def start_pair_def)

lemma start_traffic [simp]:
  "up_ord (start_pair pre) = []" "up_upd (start_pair pre) = 0" "down_ord (start_pair pre) = []"
  "down_upd (start_pair pre) = 0" "ctl (start_pair pre) = new_controller_chan pre" "cld (start_pair pre) = absent_chan"
  by (simp_all add: start_pair_def up_ord_def up_upd_def down_ord_def down_upd_def)

lemma chan_ok_absent: "chan_ok absent_chan"
  using chan_ok_new(2) [of CHANNEL_WINDOW]
  by (auto simp: chan_ok_def sender_ok_def receiver_ok_def undrained_def absent_chan_def new_controlled_chan_def)

text \<open>An invariant of directions carries over to every reachable pair.\<close>

lemma pf_reach_dirs:
  assumes reach: "pf_reach i tg pre p"
    and start: "P True (to_controlled (start_pair pre))" "P False (to_controller (start_pair pre))"
    and step: "\<And>b d d'. dstep i tg b d d' \<Longrightarrow> P b d \<Longrightarrow> P b d'"
  shows "P True (to_controlled p) \<and> P False (to_controller p) \<and> queues_ok p"
  using reach
proof induction
  case start
  then show ?case using assms(2,3) start_queues by simp
next
  case (step p p')
  then show ?case
    using pf_step_to_controlled [OF step(2)] pf_step_to_controller [OF step(2)] assms(4) by blast
qed

lemma held_new:
  "held (new_controller_chan pre) = 65536" "held (new_controlled_chan adv) = min (max (unat adv) 65536) 262144"
  by (simp_all add: held_def new_controller_chan_def new_controlled_chan_def unat_send_credit_new unat_effective_window)

lemma new_chan_vals [simp]:
  "phase (new_controller_chan pre) = Opening" "opened (new_controller_chan pre) = False"
  "rem (window (new_controller_chan pre)) = 262144" "rem (window (new_controlled_chan adv)) = 65536"
  by (simp_all add: new_controller_chan_def new_controlled_chan_def)

lemma start_dir_ok:
  "dir_ok True (to_controlled (start_pair pre))" "dir_ok False (to_controller (start_pair pre))"
  by (simp_all add: dir_ok_def dir_views chan_ok_new chan_ok_absent dir_roles_def roles_ok_def flow_le_def
      held_new new_chan_vals)

lemma pf_reach_ok:
  assumes "pf_reach i tg pre p"
  shows "dir_ok True (to_controlled p)" "dir_ok False (to_controller p)" "queues_ok p"
  using pf_reach_dirs [OF assms, of dir_ok, OF start_dir_ok dir_ok_step] by simp_all

text \<open>So neither side ever reports a violation: no violation is queued, and no half ends with one.\<close>

definition no_violation :: "chan \<Rightarrow> bool" where
  "no_violation ch = (InViolation \<notin> set (inbound ch) \<and> up ch \<noteq> UpEnd Violation \<and> down ch \<noteq> DownEnd Violation)"

lemma no_violation_task:
  assumes "chan_task i tg ev ch = Some (ch', outs)" "no_violation ch"
  shows "no_violation ch'"
  using assms(1)
proof (cases rule: chan_task_cases)
  case (written c ok)
  then show ?thesis using assms(2)
    by (auto simp: no_violation_def after_write_def Let_def split: option.splits if_splits prod.splits)
next
  case (read allow got)
  then show ?thesis using assms(2) by (simp add: no_violation_def after_read_def Let_def)
qed (use assms(2) in \<open>auto simp: no_violation_def\<close>)

lemma no_violation_hear:
  assumes "no_violation ch" "cost_of f \<le> rem (window ch)"
  shows "no_violation (hear b f ch)"
proof -
  have "inbound (hear b f ch) = inbound ch \<or> inbound (hear b f ch) = inbound ch @ [InData (data_of f)] \<or>
      inbound (hear b f ch) = inbound ch @ [InClose]"
    using assms(2) accept_iff [of "length (data_of f)" "window ch"]
    by (cases f) (auto simp: hear_def chan_data_def chan_opened_def chan_close_def chan_window_update_def Let_def
        split: prod.splits)
  then show ?thesis using assms(1) by (auto simp: no_violation_def)
qed

lemma no_violation_new: "no_violation (new_controlled_chan adv)" "no_violation absent_chan"
    "no_violation (new_controller_chan pre)"
  by (simp_all add: no_violation_def absent_chan_def new_controlled_chan_def new_controller_chan_def)

lemma dstep_no_violation:
  assumes "dstep i tg b d d'" "dir_ok b d" "no_violation (receiver d)"
  shows "no_violation (receiver d')"
  using assms(1)
proof cases
  case (rcv_task ev ch outs)
  then show ?thesis using no_violation_task [OF rcv_task(2) assms(3)] by simp
next
  case (rcv_hears f F)
  then have "cost_of f \<le> rem (window (receiver d))" using assms(2) by (simp add: dir_ok_def flow_le_def)
  then show ?thesis using no_violation_hear [OF assms(3)] rcv_hears by simp
next
  case (rcv_updated f)
  then show ?thesis using no_violation_hear [OF assms(3), of f] by simp
qed (use assms(3) in \<open>auto simp: no_violation_new, auto simp: no_violation_def\<close>)

lemma pf_reach_no_violation:
  assumes "pf_reach i tg pre p"
  shows "no_violation (ctl p)" "no_violation (cld p)"
  using pf_reach_dirs [OF assms, of "\<lambda>b d. dir_ok b d \<and> no_violation (receiver d)"] start_dir_ok
    dir_ok_step dstep_no_violation
  by (auto simp: dir_views no_violation_new)

text \<open>C6. Flow control is sound: between two ends that run this code, on any schedule of their
  tasks and of the tunnel, a data frame in flight always fits the window its receiver still
  grants, so the receiver never finds its peer over the window, never queues a violation and
  never closes a channel for one.\<close>

theorem window_never_overrun:
  assumes "pf_reach i tg pre p"
  shows "total_of cost_of (up_ord p) \<le> rem (window (cld p)) \<and> total_of cost_of (down_ord p) \<le> rem (window (ctl p)) \<and>
         no_violation (ctl p) \<and> no_violation (cld p)"
  using pf_reach_ok [OF assms] pf_reach_no_violation [OF assms]
  by (simp add: dir_ok_def flow_le_def dir_views split: if_splits)

text \<open>A witness: three bytes in flight, which cost the minimum charge.\<close>

theorem window_never_overrun_witness:
  "\<exists>p. pf_turns 1 demo_target demo_send (start_pair [7, 8, 9]) = Some p \<and> total_of cost_of (up_ord p) = 64 \<and>
       total_of cost_of (up_ord p) \<le> rem (window (cld p)) \<and> no_violation (cld p)"
proof -
  have run: "\<exists>p. pf_turns 1 demo_target demo_send (start_pair [7, 8, 9]) = Some p \<and> total_of cost_of (up_ord p) = 64"
    by (simp add: demo_send_def demo_target_def pf_eval up_ord_def)
  then obtain p where p: "pf_turns 1 demo_target demo_send (start_pair [7, 8, 9]) = Some p"
    "total_of cost_of (up_ord p) = 64" by blast
  show ?thesis using window_never_overrun [OF pf_turns_reach [OF p(1) pf_reach.start]] p by blast
qed

end
