(* ===== verification/Pf_Exact.thy ===== *)
theory Pf_Exact
  imports Pf_Stream
begin

text \<open>
  The accounts of a direction whose ends are both at work are exact: credit held, charges in flight
  and credit on its way back add up to the receiver's window, and the window with what is drained and
  undrained adds up to the grant. So no credit leaks, and a sender is parked only while something is
  on its way.
\<close>

section \<open>Ends at work\<close>

definition sending :: "chan \<Rightarrow> bool" where
  "sending ch = (phase ch = Absent \<or> tx_alive ch \<and> phase ch \<noteq> Finished \<and> up_ended ch = None)"

definition receiving :: "chan \<Rightarrow> bool" where
  "receiving ch = (phase ch = Absent \<or> tx_alive ch \<and> rx_alive ch)"

definition at_work :: "dir \<Rightarrow> bool" where
  "at_work d = (sending (sender d) \<and> receiving (receiver d))"

lemma rx_alive_alt:
  "rx_alive ch \<longleftrightarrow> phase ch \<noteq> Absent \<and> phase ch \<noteq> Finished \<and> (phase ch = Relaying \<longrightarrow> down_ended ch = None)"
  by (cases "phase ch"; cases "down ch") (simp_all add: rx_alive_def)

lemma after_write_phase: "after_write i c ok ch = (ch', outs) \<Longrightarrow> phase ch' = phase ch"
  by (auto simp: after_write_def Let_def split: option.splits if_splits prod.splits)

lemma task_tx_alive: "chan_task i tg ev ch = Some (ch', outs) \<Longrightarrow> tx_alive ch' = tx_alive ch"
  by (erule chan_task_cases)
     (auto simp: after_write_def Let_def split: option.splits if_splits prod.splits)

lemma rx_alive_task:
  assumes "chan_task i tg ev ch = Some (ch', outs)" "rx_alive ch'"
  shows "rx_alive ch"
  using assms(1)
proof (cases rule: chan_task_cases)
  case (written c ok)
  then show ?thesis by (simp add: rx_alive_def)
qed (use assms(2) in \<open>auto simp: rx_alive_def\<close>)

lemma sending_task:
  assumes "chan_task i tg ev ch = Some (ch', outs)" "sending ch'"
  shows "sending ch"
  using assms(1)
proof (cases rule: chan_task_cases)
  case (written c ok)
  then show ?thesis using assms(2)
    by (auto simp: sending_def after_write_def Let_def split: option.splits if_splits prod.splits)
qed (use assms(2) in \<open>auto simp: sending_def split: if_splits\<close>)

lemma receiving_task:
  assumes "chan_task i tg ev ch = Some (ch', outs)" "receiving ch'"
  shows "receiving ch"
  using assms rx_alive_task task_tx_alive task_roles(1) [OF assms(1) task_not_absent [OF assms(1)]]
  by (auto simp: receiving_def)

lemma hear_alive: "tx_alive (hear b f ch) \<Longrightarrow> tx_alive ch"
  by (simp add: hear_def split: if_splits)

lemma rx_alive_hear [simp]: "rx_alive (hear b f ch) = rx_alive ch"
  by (rule rx_alive_cong) simp_all

lemma sending_hear: "sending (hear b f ch) \<Longrightarrow> sending ch"
  by (auto simp: sending_def dest: hear_alive)

lemma receiving_hear: "receiving (hear b f ch) \<Longrightarrow> receiving ch"
  by (auto simp: receiving_def dest: hear_alive)

lemma at_work_step:
  assumes "dstep i tg b d d'" "at_work d'"
  shows "at_work d"
  using assms(1)
proof cases
  case (snd_task ev ch outs)
  then show ?thesis using assms(2) sending_task [OF snd_task(2)] by (simp add: at_work_def)
next
  case (rcv_task ev ch outs)
  then show ?thesis using assms(2) receiving_task [OF rcv_task(2)] by (simp add: at_work_def)
next
  case snd_drop
  then show ?thesis using assms(2) by (auto simp: at_work_def sending_def)
next
  case rcv_drop
  then show ?thesis using assms(2) by (auto simp: at_work_def receiving_def)
qed (use assms(2) in \<open>auto simp: at_work_def sending_def receiving_def rx_alive_alt new_controlled_chan_def
       dest: hear_alive\<close>)

section \<open>Exact accounts of one end\<close>

lemma task_held_exact:
  assumes "chan_task i tg ev ch = Some (ch', outs)" "sender_ok ch" "held ch \<le> 262144" "sending ch'"
  shows "held ch' + total_of cost_of (map out_frame outs) = held ch"
  using assms(1)
proof (cases rule: chan_task_cases)
  case (taken n c)
  then show ?thesis using take_creditD [OF taken(3)] by (simp add: held_def)
next
  case (read allow got)
  then show ?thesis
    using after_read_account(3) assms by (cases "got = []") (auto simp: sending_def after_read_def Let_def)
next
  case (written c ok)
  then show ?thesis
    by (auto simp: after_write_def Let_def held_def split: option.splits if_splits prod.splits)
qed (use assms(4) in \<open>auto simp: held_def sending_def\<close>)

definition balanced :: "chan \<Rightarrow> bool" where
  "balanced ch = (rem (window ch) + owed (window ch) + undrained ch = window_cap (phase ch) \<and> owed (window ch) < 131072)"

lemma task_rem_exact:
  assumes "chan_task i tg ev ch = Some (ch', outs)" "receiver_ok ch" "balanced ch" "rx_alive ch'"
  shows "rem (window ch) + total_of update_of (map out_frame outs) + total_of raise_of (map out_frame outs)
           = rem (window ch')"
    and "balanced ch'"
proof -
  have "rem (window ch) + total_of update_of (map out_frame outs) + total_of raise_of (map out_frame outs)
           = rem (window ch') \<and> balanced ch'"
    using assms(1)
  proof (cases rule: chan_task_cases)
    case (written c ok)
    note acc = after_write_account [OF assms(2) written(2,1,3)]
    have "down ch' \<noteq> DownEnd TunnelGone" "phase ch' = phase ch"
      using assms(4) after_write_phase [OF written(3)] written(1) by (auto simp: rx_alive_alt)
    then show ?thesis
      using written acc(1,4) assms(3) drained_cases [of "window ch" "length c"] assms(2)
      by (auto simp: balanced_def after_write_def Let_def receiver_ok_def undrained_def split: option.splits if_splits prod.splits)
  next
    case (connected ok)
    then show ?thesis using assms(2,3,4)
      by (auto simp: receiver_ok_def balanced_def undrained_def grant_vals grant_opened rx_alive_def split: if_splits)
  qed (use assms(3,4) in \<open>auto simp: balanced_def undrained_def rx_alive_def\<close>)
  then show "rem (window ch) + total_of update_of (map out_frame outs) + total_of raise_of (map out_frame outs)
           = rem (window ch')" "balanced ch'" by auto
qed

fun is_opened :: "frame \<Rightarrow> bool" where
  "is_opened (Opened _ success _ _) = success"
| "is_opened _ = False"

lemma raise_not_opened: "filter is_opened K = [] \<Longrightarrow> total_of raise_of K = 0"
proof (induction K)
  case (Cons f K)
  then show ?case by (cases f) (auto split: if_splits)
qed simp

lemma hear_held_exact:
  assumes "sending (hear b f ch)" "phase ch \<noteq> Absent"
    and "held ch + update_of f + (if opened ch then 0 else raise_of f) \<le> 262144"
    and "is_opened f \<Longrightarrow> \<not> opened ch \<Longrightarrow> b \<and> k = 0"
  shows "held (hear b f ch) + (if opened (hear b f ch) then 0 else k)
           = held ch + update_of f + (if opened ch then 0 else raise_of f + k)"
proof -
  have a: "tx_alive ch" "tx_alive (hear b f ch)" using assms(1,2) hear_alive by (auto simp: sending_def)
  show ?thesis
    using a assms(3-4) unat_raise_initial [of "credit ch"]
    by (cases f) (auto simp: hear_def held_def chan_opened_def chan_close_def chan_window_update_def unat_add_credit)
qed

lemma hear_rem_exact:
  assumes "receiving (hear b f ch)" "phase ch \<noteq> Absent" "cost_of f \<le> rem (window ch)" "balanced ch"
  shows "rem (window ch) = rem (window (hear b f ch)) + cost_of f" "balanced (hear b f ch)"
proof -
  have a: "tx_alive ch" "rx_alive ch" using assms(1,2) hear_alive by (auto simp: receiving_def)
  show "rem (window ch) = rem (window (hear b f ch)) + cost_of f"
    using a assms(3) chan_data_account(1) [of "data_of f" ch]
    by (cases f) (auto simp: hear_def chan_opened_def chan_close_def chan_window_update_def)
  have "window (chan_opened ok w ch) = window ch" "undrained (chan_opened ok w ch) = undrained ch"
    "phase (chan_opened ok w ch) = phase ch" for ok w
    by (simp_all add: chan_opened_def chan_close_def undrained_send_inbound) (simp add: undrained_def)
  then show "balanced (hear b f ch)"
    using a assms(4) chan_data_account(2,4) [where d = "data_of f" and ch = ch]
    by (cases f) (auto simp: hear_def chan_close_def chan_window_update_def balanced_def undrained_send_inbound,
        auto simp: undrained_def)
qed

section \<open>One acknowledgement of the opening\<close>

text \<open>The controlled side sends \<open>opened\<close> once, when it leaves the connecting phase.\<close>

definition opened_once :: "bool \<Rightarrow> dir \<Rightarrow> bool" where
  "opened_once b d =
     (b \<longrightarrow> length (filter is_opened (ret d)) \<le> 1 \<and>
           (waiting (phase (receiver d)) \<or> opened (sender d) \<longrightarrow> filter is_opened (ret d) = []) \<and>
           (waiting (phase (receiver d)) \<longrightarrow> \<not> opened (sender d)))"

lemma task_is_opened:
  assumes "chan_task i tg ev ch = Some (ch', outs)"
  shows "filter is_opened (filter ord (map out_frame outs)) = [] \<and> (waiting (phase ch') \<longrightarrow> waiting (phase ch)) \<or>
         length (filter is_opened (filter ord (map out_frame outs))) = 1 \<and> waiting (phase ch) \<and> \<not> waiting (phase ch')"
  using assms
proof (cases rule: chan_task_cases)
  case (written c ok)
  then show ?thesis using after_write_phase [OF written(3)]
    by (auto simp: after_write_def Let_def split: option.splits if_splits prod.splits)
qed (auto split: if_splits)

lemma task_raise:
  assumes "chan_task i tg ev ch = Some (ch', outs)" "\<not> waiting (phase ch)"
  shows "total_of raise_of (map out_frame outs) = 0"
  using task_is_opened [OF assms(1)] assms(2) raise_not_opened [of "filter ord (map out_frame outs)"] by simp

lemma hear_opened:
  "opened (hear b f ch) \<Longrightarrow> opened ch \<or> b \<and> is_opened f"
  by (cases f) (auto simp: hear_def chan_opened_def chan_close_def chan_window_update_def split: if_splits)

lemma opened_once_step:
  assumes "dstep i tg b d d'" "opened_once b d" "dir_roles b d"
  shows "opened_once b d'"
  using assms(1)
proof cases
  case (snd_task ev ch outs)
  then show ?thesis using assms(2) task_opened [OF snd_task(2)] by (simp add: opened_once_def)
next
  case (rcv_task ev ch outs)
  obtain os where "filter ord (map out_frame outs) = os" by simp
  then show ?thesis using assms(2) task_is_opened [OF rcv_task(2)] rcv_task(1) by (auto simp: opened_once_def)
next
  case (snd_hears f K)
  then show ?thesis using assms(2) hear_opened [of b f "sender d"] by (auto simp: opened_once_def split: if_splits)
next
  case (snd_updated f v)
  moreover have "\<not> is_opened f" using snd_updated by (cases f) auto
  ultimately show ?thesis using assms(2) hear_opened [of b f "sender d"] by (auto simp: opened_once_def)
qed (use assms(2) in \<open>auto simp: opened_once_def new_controlled_chan_def\<close>)

section \<open>The exact accounts of a direction\<close>

definition exact :: "dir \<Rightarrow> bool" where
  "exact d =
     (at_work d \<longrightarrow>
        held (sender d) + total_of cost_of (fwd d) + upd d +
          (if opened (sender d) then 0 else total_of raise_of (ret d)) = rem (window (receiver d)) \<and>
        balanced (receiver d))"

lemma flow_le_262144:
  assumes "dir_ok b d"
  shows "held (sender d) + total_of cost_of (fwd d) + upd d +
           (if opened (sender d) then 0 else total_of raise_of (ret d)) \<le> 262144"
  using assms window_cap_le [of "phase (receiver d)"] by (simp add: dir_ok_def flow_le_def chan_ok_def receiver_ok_def)

lemma new_controlled_vals [simp]:
  "phase (new_controlled_chan adv) = Connecting" "opened (new_controlled_chan adv)"
  by (simp_all add: new_controlled_chan_def)

lemma balanced_new: "balanced (new_controlled_chan adv)" "balanced absent_chan" "balanced (new_controller_chan pre)"
  by (simp_all add: balanced_def undrained_def) (simp_all add: absent_chan_def new_controlled_chan_def new_controller_chan_def)

lemma hear_idle: "phase ch = Absent \<Longrightarrow> ch = absent_chan \<Longrightarrow> hear b f ch = ch"
  by simp

lemma hear_sender_exact':
  assumes "dir_ok b d" "sending (hear b f (sender d))" "\<not> is_opened f"
    and "held (sender d) + update_of f + (if opened (sender d) then 0 else raise_of f) \<le> 262144"
  shows "held (hear b f (sender d)) + (if opened (hear b f (sender d)) then 0 else k)
           = held (sender d) + update_of f + (if opened (sender d) then 0 else raise_of f + k)"
proof (cases "phase (sender d) = Absent")
  case True
  then have "sender d = absent_chan" using assms(1) by (auto simp: dir_ok_def dir_roles_def roles_ok_def split: if_splits)
  then show ?thesis using assms(4) by (simp add: held_new)
next
  case False
  then show ?thesis using hear_held_exact [OF assms(2) False assms(4)] assms(3) by simp
qed

lemma hear_sender_exact:
  assumes "dir_ok b d" "opened_once b d" "ret d = f # K" "sending (hear b f (sender d))"
    and "held (sender d) + update_of f + (if opened (sender d) then 0 else raise_of f) \<le> 262144"
  shows "held (hear b f (sender d)) + (if opened (hear b f (sender d)) then 0 else total_of raise_of K)
           = held (sender d) + update_of f + (if opened (sender d) then 0 else raise_of f + total_of raise_of K)"
proof (cases "is_opened f")
  case True
  have "b \<or> opened (sender d)" using assms(1) by (auto simp: dir_ok_def dir_roles_def roles_ok_def split: if_splits)
  then have k: "\<not> opened (sender d) \<Longrightarrow> b \<and> total_of raise_of K = 0"
    using assms(2,3) True raise_not_opened [of K] by (auto simp: opened_once_def)
  show ?thesis
  proof (cases "phase (sender d) = Absent")
    case True
    then have "sender d = absent_chan" using assms(1) by (auto simp: dir_ok_def dir_roles_def roles_ok_def split: if_splits)
    then show ?thesis using assms(5) by (simp add: held_new)
  next
    case False
    then show ?thesis using hear_held_exact [OF assms(4) False assms(5)] k by simp
  qed
qed (rule hear_sender_exact' [OF assms(1,4) _ assms(5)])

definition open_first :: "bool \<Rightarrow> dir \<Rightarrow> bool" where
  "open_first b d =
     (b \<and> phase (receiver d) = Absent \<longrightarrow>
        (case fwd d of [] \<Rightarrow> phase (sender d) \<noteq> Relaying | f # _ \<Rightarrow> \<exists>j h pt adv. f = Open j h pt adv))"

lemma hear_receiver_exact:
  assumes "dir_ok b d" "receiving (hear (\<not> b) f (receiver d))" "cost_of f \<le> rem (window (receiver d))" "balanced (receiver d)"
    and "phase (receiver d) = Absent \<longrightarrow> cost_of f = 0"
  shows "rem (window (receiver d)) = rem (window (hear (\<not> b) f (receiver d))) + cost_of f \<and>
         balanced (hear (\<not> b) f (receiver d))"
proof (cases "phase (receiver d) = Absent")
  case True
  then have "receiver d = absent_chan" using assms(1) by (auto simp: dir_ok_def dir_roles_def roles_ok_def split: if_splits)
  then show ?thesis using assms(4,5) by simp
next
  case False
  then show ?thesis using hear_rem_exact [OF assms(2) False assms(3,4)] by simp
qed

lemma open_first_step:
  assumes "dstep i tg b d d'" "open_first b d" "dir_roles b d"
  shows "open_first b d'"
  using assms(1)
proof cases
  case (snd_task ev ch outs)
  from snd_task(2) show ?thesis
  proof (cases rule: chan_task_cases)
    case (written c ok)
    then show ?thesis using snd_task(1) assms(2) after_write_phase [OF written(3)]
      by (auto simp: open_first_def split: list.splits)
  qed (use snd_task(1) assms(2,3) in \<open>auto simp: open_first_def dir_roles_def roles_ok_def split: list.splits\<close>)
next
  case (rcv_task ev ch outs)
  then show ?thesis
    using assms(2) task_roles(1) [OF rcv_task(2) task_not_absent [OF rcv_task(2)]] by (auto simp: open_first_def)
next
  case (rcv_hears f F)
  then show ?thesis using assms(2) by (auto simp: open_first_def)
qed (use assms(2) in \<open>auto simp: open_first_def split: list.splits\<close>)

definition exact_ok :: "bool \<Rightarrow> dir \<Rightarrow> bool" where
  "exact_ok b d = (dir_ok b d \<and> opened_once b d \<and> open_first b d \<and> exact d)"

lemma exact_step:
  assumes "dstep i tg b d d'" "exact_ok b d"
  shows "exact d'"
  unfolding exact_def
proof
  assume w': "at_work d'"
  have w: "at_work d" by (rule at_work_step [OF assms(1) w'])
  have ok: "dir_ok b d" and so: "sender_ok (sender d)" and ro: "receiver_ok (receiver d)" and r: "dir_roles b d"
    and one: "opened_once b d" and first: "open_first b d"
    and eq: "held (sender d) + total_of cost_of (fwd d) + upd d +
          (if opened (sender d) then 0 else total_of raise_of (ret d)) = rem (window (receiver d))"
    and bal: "balanced (receiver d)"
    using assms(2) w by (simp_all add: exact_ok_def exact_def dir_ok_def chan_ok_def)
  note le = flow_le_262144 [OF ok]
  show "held (sender d') + total_of cost_of (fwd d') + upd d' +
          (if opened (sender d') then 0 else total_of raise_of (ret d')) = rem (window (receiver d')) \<and>
        balanced (receiver d')"
    using assms(1)
  proof cases
    case (snd_task ev ch outs)
    have "held ch + total_of cost_of (map out_frame outs) = held (sender d)"
      using task_held_exact [OF snd_task(2) so] le w' snd_task(1) by (simp add: at_work_def)
    then show ?thesis using eq bal snd_task(1) task_opened [OF snd_task(2)] by (simp split: if_splits)
  next
    case (rcv_task ev ch outs)
    have "rx_alive ch"
      using w' rcv_task(1) task_roles(1) [OF rcv_task(2) task_not_absent [OF rcv_task(2)]]
      by (simp add: at_work_def receiving_def)
    note acc = task_rem_exact [OF rcv_task(2) ro bal this]
    have "opened (sender d) \<Longrightarrow> \<not> waiting (phase (receiver d))"
      using one r by (auto simp: opened_once_def dir_roles_def roles_ok_def split: if_splits)
    then have "opened (sender d) \<Longrightarrow> rem (window (receiver d)) + total_of update_of (map out_frame outs) = rem (window ch)"
      using acc(1) task_raise [OF rcv_task(2)] by linarith
    then show ?thesis using eq acc rcv_task(1) by (simp split: if_splits)
  next
    case (snd_hears f K)
    have "held (hear b f (sender d)) + (if opened (hear b f (sender d)) then 0 else total_of raise_of K)
        = held (sender d) + update_of f + (if opened (sender d) then 0 else raise_of f + total_of raise_of K)"
      using hear_sender_exact [OF ok one, of f K] w' snd_hears le
      by (simp add: at_work_def split: if_splits)
    then show ?thesis using eq bal snd_hears by (simp split: if_splits)
  next
    case (snd_updated f v)
    have "\<not> is_opened f" using snd_updated by (cases f) auto
    then have "held (hear b f (sender d)) + (if opened (hear b f (sender d)) then 0 else total_of raise_of (ret d))
        = held (sender d) + update_of f + (if opened (sender d) then 0 else raise_of f + total_of raise_of (ret d))"
      using hear_sender_exact' [OF ok, of f "total_of raise_of (ret d)"] w' snd_updated le
      by (simp add: at_work_def split: if_splits)
    then show ?thesis using eq bal snd_updated by (simp split: if_splits)
  next
    case (rcv_hears f F)
    then have "cost_of f \<le> rem (window (receiver d))" using eq by simp
    moreover have "phase (receiver d) = Absent \<longrightarrow> cost_of f = 0"
      using first r rcv_hears by (auto simp: open_first_def dir_roles_def roles_ok_def split: if_splits)
    ultimately have "rem (window (receiver d)) = rem (window (hear (\<not> b) f (receiver d))) + cost_of f \<and>
        balanced (hear (\<not> b) f (receiver d))"
      using hear_receiver_exact [OF ok _ _ bal, of f] w' rcv_hears(1) by (simp add: at_work_def)
    then show ?thesis using eq rcv_hears by (simp split: if_splits)
  next
    case (rcv_updated f)
    then have "rem (window (receiver d)) = rem (window (hear (\<not> b) f (receiver d))) + cost_of f \<and>
        balanced (hear (\<not> b) f (receiver d))"
      using hear_receiver_exact [OF ok _ _ bal, of f] w' by (simp add: at_work_def)
    then show ?thesis using eq rcv_updated by (simp split: if_splits)
  next
    case (snd_opens j h pt adv K)
    then show ?thesis using r eq bal absent_open [of "receiver d" "sender d" j h pt adv K]
      by (simp add: dir_roles_def)
  next
    case (snd_refused j h pt adv K msg)
    then show ?thesis using w' by (simp add: at_work_def sending_def)
  next
    case (rcv_opens j h pt adv F)
    then show ?thesis using r eq absent_open [of "sender d" "receiver d" j h pt adv F]
      by (simp add: dir_roles_def balanced_new split: if_splits)
  next
    case (rcv_refused j h pt adv F msg)
    then show ?thesis using w' by (simp add: at_work_def receiving_def rx_alive_def)
  next
    case snd_drop
    then show ?thesis using eq bal by (simp add: held_def split: if_splits)
  next
    case rcv_drop
    then show ?thesis using eq bal by (simp add: balanced_def split: if_splits)
  next
    case idle
    then show ?thesis using eq bal by (simp split: if_splits)
  qed
qed

lemma exact_ok_step:
  assumes "dstep i tg b d d'" "exact_ok b d"
  shows "exact_ok b d'"
  using exact_step [OF assms] dir_ok_step [OF assms(1)] opened_once_step [OF assms(1)] open_first_step [OF assms(1)] assms(2)
  by (simp add: exact_ok_def dir_ok_def)

lemma start_exact_ok:
  "exact_ok True (to_controlled (start_pair pre))" "exact_ok False (to_controller (start_pair pre))"
  using start_dir_ok
  by (simp_all add: exact_ok_def opened_once_def open_first_def exact_def dir_views held_new balanced_new)

lemma pf_reach_exact:
  assumes "pf_reach i tg pre p"
  shows "exact_ok True (to_controlled p)" "exact_ok False (to_controller p)"
  using pf_reach_dirs [OF assms, of exact_ok, OF start_exact_ok exact_ok_step] by simp_all

lemma parked_waits:
  assumes "exact_ok b d" "at_work d" "up (sender d) = UpTake" "take_credit MAX_FRAME (credit (sender d)) = None"
  shows "total_of cost_of (fwd d) + upd d + total_of raise_of (ret d) + undrained (receiver d) > 0"
proof (rule ccontr)
  assume none: "\<not> ?thesis"
  have c: "unat (credit (sender d)) < 64"
    using assms(4) take_credit_ready [of MAX_FRAME "credit (sender d)"] by auto
  have "unat (credit (sender d)) + total_of cost_of (fwd d) + upd d +
      (if opened (sender d) then 0 else total_of raise_of (ret d)) = rem (window (receiver d))"
    using assms by (simp add: exact_ok_def exact_def held_def)
  moreover have "(if opened (sender d) then 0 else total_of raise_of (ret d)) \<le> total_of raise_of (ret d)" by simp
  ultimately have r: "rem (window (receiver d)) < 64"
    using none c by linarith
  have b: "rem (window (receiver d)) + owed (window (receiver d)) = window_cap (phase (receiver d))"
    "owed (window (receiver d)) < 131072"
    using assms none by (auto simp: exact_ok_def exact_def balanced_def)
  have "waiting (phase (receiver d)) \<Longrightarrow> owed (window (receiver d)) = 0"
    using assms(1) by (simp add: exact_ok_def dir_ok_def chan_ok_def receiver_ok_def)
  then show False using r b by (cases "waiting (phase (receiver d))") (auto simp: window_cap_def)
qed

text \<open>C7. Flow control never deadlocks: while both ends of a channel are at work, a sender that is
  parked for credit is waiting for something that exists, in either direction. There is data of
  its own on the tunnel, a window update or the acknowledgement of the opening on its way to it,
  or a chunk that the other end has yet to write to its socket. No credit is ever lost.\<close>

theorem parked_sender_is_owed:
  assumes "pf_reach i tg pre p"
  shows "(at_work (to_controlled p) \<and> up (ctl p) = UpTake \<and> take_credit MAX_FRAME (credit (ctl p)) = None \<longrightarrow>
            total_of cost_of (up_ord p) + down_upd p + total_of raise_of (down_ord p) + undrained (cld p) > 0) \<and>
         (at_work (to_controller p) \<and> up (cld p) = UpTake \<and> take_credit MAX_FRAME (credit (cld p)) = None \<longrightarrow>
            total_of cost_of (down_ord p) + up_upd p + total_of raise_of (up_ord p) + undrained (ctl p) > 0)"
  using parked_waits [OF pf_reach_exact(1) [OF assms]] parked_waits [OF pf_reach_exact(2) [OF assms]]
  by (simp add: dir_views)

text \<open>A witness: the controller has spent its whole initial window on one frame.\<close>

definition full_frame :: "turn list" where
  "full_frame =
     [CtlTurn (OpenSent True), CtlTurn (RunEv (UpEv Poll)),
      CtlTurn (RunEv (UpEv (ReadReturns (replicate 65536 0)))), CtlTurn (RunEv (UpEv (Sink True)))]"

theorem parked_sender_is_owed_witness:
  "\<exists>p. pf_turns 1 demo_target full_frame (start_pair []) = Some p \<and> at_work (to_controlled p) \<and>
       take_credit MAX_FRAME (credit (ctl p)) = None \<and>
       total_of cost_of (up_ord p) + down_upd p + total_of raise_of (down_ord p) + undrained (cld p) > 0"
proof -
  have "\<exists>p. pf_turns 1 demo_target full_frame (start_pair []) = Some p \<and> at_work (to_controlled p) \<and>
       up (ctl p) = UpTake \<and> take_credit MAX_FRAME (credit (ctl p)) = None"
    by (simp add: full_frame_def demo_target_def pf_eval at_work_def sending_def receiving_def dir_views)
  then obtain p where p: "pf_turns 1 demo_target full_frame (start_pair []) = Some p" "at_work (to_controlled p)"
       "up (ctl p) = UpTake" "take_credit MAX_FRAME (credit (ctl p)) = None" by blast
  show ?thesis using parked_sender_is_owed [OF pf_turns_reach [OF p(1) pf_reach.start]] p by blast
qed

end
