(* ===== verification/Pf_Bytes.thy ===== *)
theory Pf_Bytes
  imports Pf_Exact
begin

text \<open>
  The bytes of a direction: what one end has written to its socket, what it still holds, what is on
  the tunnel and what the other end is about to send are, in this order, what that other end has read
  from its socket. An orderly close arrives behind all of them.
\<close>

section \<open>The byte stream\<close>

definition arrived :: "chan \<Rightarrow> bytes" where
  "arrived ch = sock_out ch @ (if rx_alive ch then buffered ch else [])"

definition in_transit :: "chan \<Rightarrow> bytes" where
  "in_transit ch = (case up ch of UpSend bs \<Rightarrow> bs | _ \<Rightarrow> [])"

definition stream_ok :: "dir \<Rightarrow> bool" where
  "stream_ok d =
     (prefix (arrived (receiver d)) (sock_in (sender d)) \<and>
      (receiving (receiver d) \<longrightarrow>
         prefix (arrived (receiver d) @ fdata (fwd d) @ in_transit (sender d)) (sock_in (sender d)) \<and>
         (up (sender d) \<noteq> UpEnd TunnelGone \<longrightarrow>
            arrived (receiver d) @ fdata (fwd d) @ in_transit (sender d) = sock_in (sender d))))"

text \<open>A step of the sending task appends what it reads, and keeps the order.\<close>

lemma task_sent:
  assumes "chan_task i tg ev ch = Some (ch', outs)"
  shows "up ch' = UpEnd TunnelGone \<and> sock_in ch' = sock_in ch \<and> outs = [] \<and> in_transit ch' = [] \<or>
         (\<exists>xs. sock_in ch' = sock_in ch @ xs \<and> in_transit ch @ xs = fdata (map out_frame outs) @ in_transit ch' \<and>
               (up ch' = UpEnd TunnelGone \<longleftrightarrow> up ch = UpEnd TunnelGone) \<and> (phase ch \<noteq> Relaying \<or> up ch = UpEnd TunnelGone \<longrightarrow> xs = []))"
  using assms
proof (cases rule: chan_task_cases)
  case (read allow got)
  then show ?thesis by (auto simp: after_read_def Let_def in_transit_def)
next
  case (written c ok)
  then show ?thesis
    by (auto simp: after_write_def Let_def in_transit_def split: option.splits if_splits prod.splits)
qed (auto simp: in_transit_def split: if_splits)

lemma task_in_transit: "chan_task i tg ev ch = Some (ch', outs) \<Longrightarrow> phase ch' = Finished \<Longrightarrow> phase ch \<noteq> Opening \<Longrightarrow>
    \<not> waiting (phase ch) \<Longrightarrow> in_transit ch' = []"
  by (erule chan_task_cases) (auto simp: in_transit_def dest: after_write_phase)

text \<open>A step of the receiving task moves bytes towards the socket, and loses some only when it
  stops reading the queue.\<close>

lemma task_arrived:
  assumes "chan_task i tg ev ch = Some (ch', outs)"
  shows "prefix (arrived ch') (arrived ch)" "rx_alive ch' \<Longrightarrow> arrived ch' = arrived ch"
proof -
  have "prefix (arrived ch') (arrived ch) \<and> (rx_alive ch' \<longrightarrow> arrived ch' = arrived ch)"
    using assms
  proof (cases rule: chan_task_cases)
    case (read allow got)
    then show ?thesis by (simp add: arrived_def buffered_def rx_alive_alt)
  next
    case (written c ok)
    then show ?thesis
      by (auto simp: after_write_def Let_def arrived_def buffered_def rx_alive_alt
          split: option.splits if_splits prod.splits)
  next
    case (broken c k e)
    then show ?thesis
      by (auto simp: arrived_def buffered_def rx_alive_alt intro!: prefix_prefix take_is_prefix)
  qed (auto simp: arrived_def buffered_def rx_alive_alt split: if_splits)
  then show "prefix (arrived ch') (arrived ch)" "rx_alive ch' \<Longrightarrow> arrived ch' = arrived ch" by auto
qed

lemma hear_arrived:
  assumes "tx_alive ch" "rx_alive ch" "cost_of f \<le> rem (window ch)"
  shows "arrived (hear b f ch) = arrived ch @ data_of f"
proof -
  have "inbound (hear b f ch) = inbound ch @ (if cost_of f > 0 then [InData (data_of f)] else
      if (case f of Close _ \<Rightarrow> True | Opened _ success _ _ \<Rightarrow> b \<and> \<not> success | _ \<Rightarrow> False) then [InClose] else [])"
    using assms accept_iff [of "length (data_of f)" "window ch"] cost_pos [of "length (data_of f)"]
    by (cases f) (auto simp: hear_def chan_data_def chan_opened_def chan_close_def chan_window_update_def Let_def
        split: prod.splits)
  moreover have "cost_of f > 0 \<or> data_of f = []" using cost_pos [of "length (data_of f)"] by (cases f) auto
  ultimately show ?thesis using assms(2) by (auto simp: arrived_def buffered_def)
qed

lemma hear_arrived_le: "\<not> (tx_alive ch \<and> rx_alive ch) \<Longrightarrow> arrived (hear b f ch) = arrived ch"
  by (cases "rx_alive ch") (simp add: hear_def, simp add: arrived_def)

lemma hear_in_transit [simp]: "in_transit (hear b f ch) = in_transit ch" "in_transit (unlist ch) = in_transit ch"
  "arrived (unlist ch) = arrived ch"
  by (simp_all add: in_transit_def arrived_def buffered_def)

lemma arrived_new [simp]: "arrived (new_controlled_chan adv) = []" "arrived absent_chan = []"
    "arrived (new_controller_chan pre) = []" "in_transit (new_controlled_chan adv) = []"
    "in_transit absent_chan = []" "in_transit (new_controller_chan pre) = []"
  by (simp_all add: arrived_def buffered_def in_transit_def new_controlled_chan_def absent_chan_def
      new_controller_chan_def rx_alive_def)

lemma socket_new [simp]: "sock_in (new_controlled_chan adv) = []" "sock_in absent_chan = []"
    "sock_in (new_controller_chan pre) = []" "up (new_controlled_chan adv) = UpTake" "up absent_chan = UpTake"
    "up (new_controller_chan pre) = UpTake" "arrived (absent_chan\<lparr>phase := Finished\<rparr>) = []"
    "in_transit (absent_chan\<lparr>phase := Finished\<rparr>) = []" "receiving absent_chan"
    "\<not> receiving (absent_chan\<lparr>phase := Finished\<rparr>)" "down absent_chan = DownNext" "inbound absent_chan = []"
    "down (new_controlled_chan adv) = DownNext" "inbound (new_controlled_chan adv) = []"
    "down (new_controller_chan pre) = DownNext" "inbound (new_controller_chan pre) = []"
  by (simp_all add: absent_chan_def new_controlled_chan_def new_controller_chan_def arrived_def in_transit_def
      rx_alive_def receiving_def)

lemma prefix_grow: "prefix a b \<Longrightarrow> prefix a (b @ xs)"
  by (rule prefix_prefix)

lemma stream_snd_task:
  assumes "stream_ok d" "chan_task i tg ev (sender d) = Some (ch, outs)"
  shows "stream_ok (d\<lparr>sender := ch, fwd := fwd d @ filter ord (map out_frame outs)\<rparr>)"
  using task_sent [OF assms(2)]
proof (elim disjE exE conjE)
  assume "up ch = UpEnd TunnelGone" "sock_in ch = sock_in (sender d)" "outs = []" "in_transit ch = []"
  then show ?thesis using assms(1) append_prefixD [of "arrived (receiver d) @ fdata (fwd d)" "in_transit (sender d)"]
    by (auto simp: stream_ok_def)
next
  fix xs assume xs: "sock_in ch = sock_in (sender d) @ xs"
    "in_transit (sender d) @ xs = fdata (map out_frame outs) @ in_transit ch"
    "(up ch = UpEnd TunnelGone) = (up (sender d) = UpEnd TunnelGone)"
    "phase (sender d) \<noteq> Relaying \<or> up (sender d) = UpEnd TunnelGone \<longrightarrow> xs = []"
  show ?thesis
  proof (cases "up (sender d) = UpEnd TunnelGone")
    case True
    then show ?thesis using assms(1) xs by (simp add: stream_ok_def)
  next
    case False
    have "arrived (receiver d) @ fdata (fwd d) @ fdata (map out_frame outs) @ in_transit ch =
        (arrived (receiver d) @ fdata (fwd d) @ in_transit (sender d)) @ xs"
      by (simp only: append_assoc xs(2))
    with False have "receiving (receiver d) \<Longrightarrow>
        arrived (receiver d) @ fdata (fwd d) @ fdata (map out_frame outs) @ in_transit ch = sock_in ch"
      using assms(1) xs(1) by (simp add: stream_ok_def)
    then show ?thesis using assms(1) xs(1) by (auto simp: stream_ok_def intro: prefix_grow)
  qed
qed

lemma stream_rcv_hears:
  assumes "stream_ok d" "fwd d = f # F" "cost_of f \<le> rem (window (receiver d))"
    and "phase (receiver d) = Absent \<longrightarrow> data_of f = [] \<and> receiver d = absent_chan"
  shows "stream_ok (d\<lparr>fwd := F, receiver := hear b f (receiver d)\<rparr>)"
proof (cases "tx_alive (receiver d) \<and> rx_alive (receiver d)")
  case True
  then have "receiving (receiver d)" by (simp add: receiving_def)
  then show ?thesis
    using assms(1,2) hear_arrived [of "receiver d" f b] True assms(3)
      append_prefixD [of "arrived (receiver d) @ data_of f" "fdata F @ in_transit (sender d)"]
    by (auto simp: stream_ok_def)
next
  case False
  then have "\<not> receiving (hear b f (receiver d)) \<or> phase (receiver d) = Absent"
    by (auto simp: receiving_def dest: hear_alive)
  then show ?thesis
    using assms(1,2,4) hear_arrived_le [OF False] by (auto simp: stream_ok_def)
qed

lemma stream_ok_step:
  assumes "dstep i tg b d d'" "exact_ok b d" "stream_ok d"
  shows "stream_ok d'"
proof -
  have r: "dir_roles b d" and first: "open_first b d" and le: "flow_le d"
    using assms(2) by (simp_all add: exact_ok_def dir_ok_def)
  show ?thesis
    using assms(1)
  proof cases
    case (snd_task ev ch outs)
    then show ?thesis using stream_snd_task [OF assms(3) snd_task(2)] by simp
  next
    case (rcv_task ev ch outs)
    then show ?thesis
      using assms(3) task_arrived [OF rcv_task(2)] receiving_task [OF rcv_task(2)]
        task_roles(1) [OF rcv_task(2) task_not_absent [OF rcv_task(2)]] prefix_order.trans
      by (auto simp: stream_ok_def receiving_def)
  next
    case (rcv_hears f F)
    have "phase (receiver d) = Absent \<longrightarrow> data_of f = [] \<and> receiver d = absent_chan"
      using first r rcv_hears by (auto simp: open_first_def dir_roles_def roles_ok_def split: if_splits)
    then show ?thesis using stream_rcv_hears [OF assms(3), of f F] rcv_hears le by (simp add: flow_le_def)
  next
    case (rcv_updated f)
    then have "arrived (hear (\<not> b) f (receiver d)) = arrived (receiver d)"
      "receiving (hear (\<not> b) f (receiver d)) = receiving (receiver d)"
      by (cases f; simp add: hear_def chan_window_update_def arrived_def buffered_def receiving_def)+
    then show ?thesis using rcv_updated assms(3) by (simp add: stream_ok_def)
  next
    case (snd_opens j h pt adv K)
    then have "sender d = absent_chan" using r by (simp add: dir_roles_def roles_ok_def)
    then show ?thesis using snd_opens assms(3) by (simp add: stream_ok_def)
  next
    case (snd_refused j h pt adv K msg)
    then have "sender d = absent_chan" using r by (simp add: dir_roles_def roles_ok_def)
    then show ?thesis using snd_refused assms(3) by (simp add: stream_ok_def)
  next
    case (rcv_opens j h pt adv F)
    then have "receiver d = absent_chan" using r by (simp add: dir_roles_def roles_ok_def)
    then show ?thesis using rcv_opens assms(3) by (simp add: stream_ok_def)
  next
    case (rcv_refused j h pt adv F msg)
    then have "receiver d = absent_chan" using r by (simp add: dir_roles_def roles_ok_def)
    then show ?thesis using rcv_refused assms(3) by (simp add: stream_ok_def)
  next
    case (rcv_drop)
    then show ?thesis using assms(3) by (auto simp: stream_ok_def receiving_def)
  qed (use assms(3) in \<open>simp_all add: stream_ok_def\<close>)
qed

section \<open>Orderly close\<close>

fun final :: "frame \<Rightarrow> bool" where
  "final (Close _) = True"
| "final (Opened _ success _ _) = (\<not> success)"
| "final _ = False"

fun no_data_after :: "frame list \<Rightarrow> bool" where
  "no_data_after [] = True"
| "no_data_after (f # F) = ((final f \<longrightarrow> fdata F = []) \<and> no_data_after F)"

lemma no_data_after_snoc:
  "no_data_after (F @ [f]) \<longleftrightarrow> no_data_after F \<and> ((\<exists>g\<in>set F. final g) \<longrightarrow> data_of f = [])"
  by (induction F) auto

definition close_ok :: "dir \<Rightarrow> bool" where
  "close_ok d =
     (no_data_after (fwd d) \<and>
      ((\<exists>f\<in>set (fwd d). final f) \<longrightarrow>
         phase (sender d) = Finished \<and> up (sender d) \<noteq> UpEnd TunnelGone \<and> in_transit (sender d) = []) \<and>
      (InClose \<in> set (inbound (receiver d)) \<and> rx_alive (receiver d) \<longrightarrow>
         \<not> tx_alive (receiver d) \<and> arrived (receiver d) = sock_in (sender d) \<and> phase (sender d) = Finished \<and>
         (\<exists>q. inbound (receiver d) = q @ [InClose] \<and> InClose \<notin> set q)) \<and>
      (down (receiver d) = DownEnd PeerClosed \<longrightarrow>
         sock_out (receiver d) = sock_in (sender d) \<and> phase (sender d) = Finished))"

lemma task_final:
  assumes "chan_task i tg ev ch = Some (ch', outs)" "receiver_ok ch"
  shows "(\<exists>f\<in>set (map out_frame outs). final f) \<longrightarrow>
           phase ch' = Finished \<and> up ch' \<noteq> UpEnd TunnelGone \<and> in_transit ch' = []"
  using assms(1)
proof (cases rule: chan_task_cases)
  case (written c ok)
  then show ?thesis by (auto simp: after_write_def Let_def split: option.splits if_splits prod.splits)
qed (use assms(2) in \<open>auto simp: receiver_ok_def in_transit_def close_due_def Let_def split: if_splits\<close>)

lemma task_inbound:
  assumes "chan_task i tg ev ch = Some (ch', outs)" "receiver_ok ch"
  shows "inbound ch' = inbound ch \<and> (down ch' = DownEnd PeerClosed \<longrightarrow> down ch = DownEnd PeerClosed) \<or>
         (\<exists>x. inbound ch = x # inbound ch' \<and> x \<noteq> InClose \<and> down ch' \<noteq> DownEnd PeerClosed) \<or>
         inbound ch = InClose # inbound ch' \<and> \<not> rx_alive ch' \<and>
           (down ch' = DownEnd PeerClosed \<longrightarrow> down ch = DownEnd PeerClosed \<or>
              pending ch = [] \<and> down ch = DownNext \<and> phase ch = Relaying \<and> sock_out ch' = sock_out ch)"
  using assms(1)
proof (cases rule: chan_task_cases)
  case (written c ok)
  then show ?thesis by (auto simp: after_write_def Let_def split: option.splits if_splits prod.splits)
qed (use assms(2) in \<open>auto simp: rx_alive_alt receiver_ok_def\<close>)

lemma task_busy: "chan_task i tg ev ch = Some r \<Longrightarrow> phase ch \<noteq> Finished"
  by (auto simp: chan_task_def)

lemma task_peer_closed:
  assumes "chan_task i tg ev ch = Some (ch', outs)" "down ch = DownEnd e"
  shows "down ch' = down ch \<and> sock_out ch' = sock_out ch"
  using assms(1)
  by (cases rule: chan_task_cases) (use assms(2) in auto)

lemma close_snd_task:
  assumes "close_ok d" "chan_ok (sender d)" "chan_task i tg ev (sender d) = Some (ch, outs)"
  shows "close_ok (d\<lparr>sender := ch, fwd := fwd d @ filter ord (map out_frame outs)\<rparr>)"
proof -
  have busy: "phase (sender d) \<noteq> Finished" by (rule task_busy [OF assms(3)])
  then have none: "\<not> (\<exists>f\<in>set (fwd d). final f)" using assms(1) by (auto simp: close_ok_def)
  have fin: "(\<exists>f\<in>set (map out_frame outs). final f) \<longrightarrow>
      phase ch = Finished \<and> up ch \<noteq> UpEnd TunnelGone \<and> in_transit ch = []"
    by (rule task_final [OF assms(3)]) (use assms(2) in \<open>simp add: chan_ok_def\<close>)
  have "no_data_after (fwd d @ filter ord (map out_frame outs))"
    using chan_task_outs [OF assms(3)] none assms(1) by (auto simp: no_data_after_snoc close_ok_def)
  then show ?thesis using assms(1) busy none fin by (auto simp: close_ok_def)
qed

lemma buffered_close_only: "pending ch = [] \<Longrightarrow> down ch = DownNext \<Longrightarrow> inbound ch = [InClose] \<Longrightarrow> buffered ch = []"
  by (simp add: buffered_def)

lemma close_rcv_task:
  assumes "close_ok d" "chan_ok (receiver d)" "chan_task i tg ev (receiver d) = Some (ch, outs)"
  shows "close_ok (d\<lparr>receiver := ch, ret := K, upd := v\<rparr>)"
proof -
  have ro: "receiver_ok (receiver d)" using assms(2) by (simp add: chan_ok_def)
  have tx: "tx_alive ch = tx_alive (receiver d)" by (rule task_tx_alive [OF assms(3)])
  have rx: "rx_alive ch \<Longrightarrow> rx_alive (receiver d)" "rx_alive ch \<Longrightarrow> arrived ch = arrived (receiver d)"
    using rx_alive_task [OF assms(3)] task_arrived(2) [OF assms(3)] by auto
  note pc = task_peer_closed [OF assms(3), of PeerClosed]
  from task_inbound [OF assms(3) ro] show ?thesis
  proof (elim disjE exE conjE)
    assume "inbound ch = inbound (receiver d)"
      "down ch = DownEnd PeerClosed \<longrightarrow> down (receiver d) = DownEnd PeerClosed"
    then show ?thesis using assms(1) tx rx pc by (auto simp: close_ok_def)
  next
    fix x assume x: "inbound (receiver d) = x # inbound ch" "x \<noteq> InClose" "down ch \<noteq> DownEnd PeerClosed"
    have "InClose \<in> set (inbound ch) \<and> rx_alive ch \<longrightarrow> (\<exists>q. inbound ch = q @ [InClose] \<and> InClose \<notin> set q)"
    proof
      assume "InClose \<in> set (inbound ch) \<and> rx_alive ch"
      then obtain q where "x # inbound ch = q @ [InClose]" "InClose \<notin> set q"
        using assms(1) x rx by (auto simp: close_ok_def)
      then show "\<exists>q. inbound ch = q @ [InClose] \<and> InClose \<notin> set q" using x(2) by (cases q) auto
    qed
    then show ?thesis using assms(1) x tx rx by (auto simp: close_ok_def)
  next
    assume x: "inbound (receiver d) = InClose # inbound ch" "\<not> rx_alive ch"
      "down ch = DownEnd PeerClosed \<longrightarrow> down (receiver d) = DownEnd PeerClosed \<or>
         pending (receiver d) = [] \<and> down (receiver d) = DownNext \<and> phase (receiver d) = Relaying \<and>
         sock_out ch = sock_out (receiver d)"
    have "down (receiver d) = DownNext \<and> phase (receiver d) = Relaying \<and> pending (receiver d) = [] \<longrightarrow>
        sock_out (receiver d) = sock_in (sender d) \<and> phase (sender d) = Finished"
    proof
      assume r: "down (receiver d) = DownNext \<and> phase (receiver d) = Relaying \<and> pending (receiver d) = []"
      then have "rx_alive (receiver d)" by (simp add: rx_alive_alt)
      then obtain q where q: "inbound (receiver d) = q @ [InClose]" "InClose \<notin> set q"
          "arrived (receiver d) = sock_in (sender d)" "phase (sender d) = Finished"
        using assms(1) x(1) by (auto simp: close_ok_def)
      then have "inbound (receiver d) = [InClose]" using x(1) by (cases q) auto
      then show "sock_out (receiver d) = sock_in (sender d) \<and> phase (sender d) = Finished"
        using buffered_close_only [of "receiver d"] r q(3,4) by (simp add: arrived_def split: if_splits)
    qed
    then show ?thesis using assms(1) x pc by (auto simp: close_ok_def)
  qed
qed

lemma hear_inbound:
  "inbound (hear b f ch) = inbound ch \<and> (tx_alive (hear b f ch) \<longrightarrow> tx_alive ch) \<or>
   tx_alive ch \<and> rx_alive ch \<and> (\<exists>x. x \<noteq> InClose \<and> inbound (hear b f ch) = inbound ch @ [x]) \<or>
   tx_alive ch \<and> rx_alive ch \<and> final f \<and> inbound (hear b f ch) = inbound ch @ [InClose] \<and> \<not> tx_alive (hear b f ch)"
  by (cases f) (auto simp: hear_def chan_data_def chan_opened_def chan_close_def chan_window_update_def Let_def
      split: prod.splits)

lemma close_rcv_hears:
  assumes "close_ok d" "stream_ok d" "fwd d = f # F" "cost_of f \<le> rem (window (receiver d))"
  shows "close_ok (d\<lparr>fwd := F, receiver := hear b f (receiver d)\<rparr>)"
proof -
  let ?R = "hear b f (receiver d)"
  have pc: "down ?R = down (receiver d)" "sock_out ?R = sock_out (receiver d)" by simp_all
  have F: "no_data_after F" "(\<exists>g\<in>set F. final g) \<longrightarrow>
      phase (sender d) = Finished \<and> up (sender d) \<noteq> UpEnd TunnelGone \<and> in_transit (sender d) = []"
    using assms(1,3) by (auto simp: close_ok_def)
  have "InClose \<in> set (inbound ?R) \<and> rx_alive ?R \<longrightarrow>
         \<not> tx_alive ?R \<and> arrived ?R = sock_in (sender d) \<and> phase (sender d) = Finished \<and>
         (\<exists>q. inbound ?R = q @ [InClose] \<and> InClose \<notin> set q)"
    using hear_inbound [of b f "receiver d"]
  proof (elim disjE exE conjE)
    assume i: "inbound ?R = inbound (receiver d)" "tx_alive ?R \<longrightarrow> tx_alive (receiver d)"
    then have "rx_alive ?R \<Longrightarrow> arrived ?R = arrived (receiver d)"
      by (simp add: arrived_def buffered_def)
    then show ?thesis using assms(1) i by (auto simp: close_ok_def)
  next
    fix x assume "tx_alive (receiver d)" "rx_alive (receiver d)" "x \<noteq> InClose" "inbound ?R = inbound (receiver d) @ [x]"
    then show ?thesis using assms(1) by (auto simp: close_ok_def)
  next
    assume i: "tx_alive (receiver d)" "rx_alive (receiver d)" "final f" "inbound ?R = inbound (receiver d) @ [InClose]"
      "\<not> tx_alive ?R"
    have "receiving (receiver d)" using i by (simp add: receiving_def)
    moreover have "fdata F = []" "phase (sender d) = Finished" "up (sender d) \<noteq> UpEnd TunnelGone" "in_transit (sender d) = []"
      using assms(1,3) i(3) by (auto simp: close_ok_def)
    ultimately have "arrived (receiver d) @ fdata (f # F) @ [] = sock_in (sender d)" "fdata F = []"
      using assms(2,3) unfolding stream_ok_def by simp_all
    then have "arrived (receiver d) @ data_of f = sock_in (sender d)"
      by (simp only: list.map concat.simps append_Nil2)
    then have "arrived ?R = sock_in (sender d)" using hear_arrived [OF i(1,2) assms(4)] by simp
    then show ?thesis using i assms(1) \<open>phase (sender d) = Finished\<close> by (auto simp: close_ok_def)
  qed
  then show ?thesis using F assms(1) by (simp add: close_ok_def)
qed

lemma close_ok_step:
  assumes "dstep i tg b d d'" "exact_ok b d" "stream_ok d" "close_ok d"
  shows "close_ok d'"
proof -
  have r: "dir_roles b d" and le: "flow_le d" and ok: "chan_ok (sender d)" "chan_ok (receiver d)"
    using assms(2) by (simp_all add: exact_ok_def dir_ok_def)
  show ?thesis
    using assms(1)
  proof cases
    case (snd_task ev ch outs)
    then show ?thesis using close_snd_task [OF assms(4) ok(1) snd_task(2)] by simp
  next
    case (rcv_task ev ch outs)
    then show ?thesis using close_rcv_task [OF assms(4) ok(2) rcv_task(2)] by simp
  next
    case (rcv_hears f F)
    then show ?thesis using close_rcv_hears [OF assms(4,3), of f F] le by (simp add: flow_le_def)
  next
    case (rcv_updated f)
    then have "inbound (hear (\<not> b) f (receiver d)) = inbound (receiver d)"
      "tx_alive (hear (\<not> b) f (receiver d)) = tx_alive (receiver d)"
      by (cases f; simp add: hear_def chan_window_update_def)+
    then show ?thesis using rcv_updated assms(4) by (simp add: close_ok_def arrived_def buffered_def)
  next
    case (snd_opens j h pt adv K)
    then have "sender d = absent_chan" using r by (simp add: dir_roles_def roles_ok_def)
    then show ?thesis using snd_opens assms(4) by (auto simp: close_ok_def)
  next
    case (snd_refused j h pt adv K msg)
    then have "sender d = absent_chan" using r by (simp add: dir_roles_def roles_ok_def)
    then show ?thesis using snd_refused assms(4) by (auto simp: close_ok_def no_data_after_snoc)
  next
    case (rcv_opens j h pt adv F)
    then show ?thesis using assms(4) by (auto simp: close_ok_def)
  next
    case (rcv_refused j h pt adv F msg)
    then have "receiver d = absent_chan" using r by (simp add: dir_roles_def roles_ok_def)
    then show ?thesis using rcv_refused assms(4) by (auto simp: close_ok_def)
  qed (use assms(4) in \<open>simp_all add: close_ok_def\<close>)
qed

definition stream_inv :: "bool \<Rightarrow> dir \<Rightarrow> bool" where
  "stream_inv b d = (exact_ok b d \<and> stream_ok d \<and> close_ok d)"

lemma stream_inv_step:
  assumes "dstep i tg b d d'" "stream_inv b d"
  shows "stream_inv b d'"
  using exact_ok_step [OF assms(1)] stream_ok_step [OF assms(1)] close_ok_step [OF assms(1)] assms(2)
  by (simp add: stream_inv_def)

lemma start_stream_inv:
  "stream_inv True (to_controlled (start_pair pre))" "stream_inv False (to_controller (start_pair pre))"
  using start_exact_ok by (simp_all add: stream_inv_def stream_ok_def close_ok_def) (simp_all add: dir_views)

lemma pf_reach_stream:
  assumes "pf_reach i tg pre p"
  shows "stream_inv True (to_controlled p)" "stream_inv False (to_controller p)"
  using pf_reach_dirs [OF assms, of stream_inv, OF start_stream_inv stream_inv_step] by simp_all

lemma stream_inv_prefix:
  assumes "stream_inv b d"
  shows "prefix (sock_out (receiver d)) (sock_in (sender d))"
    and "down (receiver d) = DownEnd PeerClosed \<Longrightarrow> sock_out (receiver d) = sock_in (sender d)"
proof -
  have "prefix (arrived (receiver d)) (sock_in (sender d))" using assms by (simp add: stream_inv_def stream_ok_def)
  then show "prefix (sock_out (receiver d)) (sock_in (sender d))" unfolding arrived_def by (rule append_prefixD)
qed (use assms in \<open>simp add: stream_inv_def close_ok_def\<close>)

text \<open>C5. A channel is two reliable byte streams: at every moment, what an end has written to its
  socket is a prefix of what the other end has read from its own; and an end that has seen the
  peer's orderly close has written everything the peer ever read.\<close>

theorem channel_bytes_end_to_end:
  assumes "pf_reach i tg pre p"
  shows "prefix (sock_out (cld p)) (sock_in (ctl p)) \<and> prefix (sock_out (ctl p)) (sock_in (cld p)) \<and>
         (down (cld p) = DownEnd PeerClosed \<longrightarrow> sock_out (cld p) = sock_in (ctl p)) \<and>
         (down (ctl p) = DownEnd PeerClosed \<longrightarrow> sock_out (ctl p) = sock_in (cld p))"
  using stream_inv_prefix [OF pf_reach_stream(1) [OF assms]] stream_inv_prefix [OF pf_reach_stream(2) [OF assms]]
  by (simp add: dir_views)

text \<open>A witness: the schedule that sends three bytes and closes.\<close>

theorem channel_bytes_end_to_end_witness:
  "\<exists>p. pf_turns 1 demo_target (demo_send @ demo_close) (start_pair [7, 8, 9]) = Some p \<and>
       down (cld p) = DownEnd PeerClosed \<and> sock_in (ctl p) = [7, 8, 9] \<and> sock_out (cld p) = sock_in (ctl p)"
proof -
  have "\<exists>p. pf_turns 1 demo_target (demo_send @ demo_close) (start_pair [7, 8, 9]) = Some p \<and>
       down (cld p) = DownEnd PeerClosed \<and> sock_in (ctl p) = [7, 8, 9]"
    by (simp add: demo_send_def demo_close_def demo_target_def pf_eval)
  then obtain p where p: "pf_turns 1 demo_target (demo_send @ demo_close) (start_pair [7, 8, 9]) = Some p"
    "down (cld p) = DownEnd PeerClosed" "sock_in (ctl p) = [7, 8, 9]" by blast
  show ?thesis using channel_bytes_end_to_end [OF pf_turns_reach [OF p(1) pf_reach.start]] p by blast
qed

end
