(* ===== verification/Pf_Mux.thy ===== *)
theory Pf_Mux
  imports Pf_Bytes
begin

text \<open>
  The multiplexer of the controlled side, \<open>PortForwardMux\<close>
  (\<^verbatim>\<open>src/client/src/server/port_forward_mux.rs\<close>), and what it shares with the controller's \<open>TunnelHandle\<close>
  (\<open>Pf_Tunnel\<close>), the locale \<open>demultiplexer\<close>. Each side keeps a map from channel ids to entries; an entry shares its credit, window and queue with the channel's task, so the map holds
  references into a list of channels, and a channel dropped from the map lives on in the list until
  its task ends. Hash maps are association lists with distinct keys.
\<close>

section \<open>Maps of channels\<close>

record task =
  tk_id :: i32
  tk_target :: target
  tk_chan :: chan

type_synonym chan_map = "(i32 \<times> nat) list"

definition remove_key :: "'k \<Rightarrow> ('k \<times> 'v) list \<Rightarrow> ('k \<times> 'v) list" where
  "remove_key k m = filter (\<lambda>(j, _). j \<noteq> k) m"

definition update_chan :: "nat \<Rightarrow> (chan \<Rightarrow> chan) \<Rightarrow> task list \<Rightarrow> task list" where
  "update_chan r f ts = (if r < length ts then ts[r := (ts ! r)\<lparr>tk_chan := f (tk_chan (ts ! r))\<rparr>] else ts)"

definition drop_entry :: "i32 \<times> nat \<Rightarrow> task list \<Rightarrow> task list" where
  "drop_entry e ts = update_chan (snd e) unlist ts"

text \<open>A frame for a listed channel acts on it; a frame for any other id is ignored. Where the reaction
  removes the entry, the queue's sender is gone (\<open>tx_alive\<close> is false).\<close>

definition deliver :: "(frame \<Rightarrow> chan \<Rightarrow> chan) \<Rightarrow> frame \<Rightarrow> chan_map \<times> task list \<Rightarrow> chan_map \<times> task list" where
  "deliver react f tab =
     (let (m, ts) = tab in
      case map_of m (channel_id f) of
        None \<Rightarrow> (m, ts)
      | Some r \<Rightarrow>
          let ts' = update_chan r (react f) ts in
          (if r < length ts' \<and> tx_alive (tk_chan (ts' ! r)) then m else remove_key (channel_id f) m, ts'))"

lemma length_update_chan [simp]: "length (update_chan r f ts) = length ts"
  by (simp add: update_chan_def)

lemma update_chan_other: "r \<noteq> s \<Longrightarrow> update_chan r f ts ! s = ts ! s"
  by (simp add: update_chan_def)

lemma update_chan_same: "r < length ts \<Longrightarrow> update_chan r f ts ! r = (ts ! r)\<lparr>tk_chan := f (tk_chan (ts ! r))\<rparr>"
  by (simp add: update_chan_def)

lemma map_of_remove_key: "map_of (remove_key k m) j = (if j = k then None else map_of m j)"
  by (induction m) (auto simp: remove_key_def)

lemma fst_remove_key: "fst ` set (remove_key k m) = fst ` set m - {k}"
  by (force simp: remove_key_def)

lemma distinct_remove_key: "distinct (map fst m) \<Longrightarrow> distinct (map fst (remove_key k m))"
  by (simp add: remove_key_def distinct_map_filter)

lemma length_remove_key: "length (remove_key k m) \<le> length m"
  by (simp add: remove_key_def)

section \<open>The controlled side\<close>

text \<open>\<open>sent\<close> lists the replies that \<open>handle\<close> itself put on the connection's queue.\<close>

record pf_mux =
  mux_channels :: chan_map
  mux_tasks :: "task list"
  login_target :: string
  mux_teardown :: bool
  sent :: "frame list"

definition mux_new :: "string \<Rightarrow> pf_mux" where
  "mux_new target = \<lparr>mux_channels = [], mux_tasks = [], login_target = target, mux_teardown = False, sent = []\<rparr>"

definition show_int :: "int \<Rightarrow> string" where
  "show_int p = (if p < 0 then ''-'' @ show_nat (nat (- p)) else show_nat (nat p))"

text \<open>\<open>Connection::normalize_port_forward_target\<close> gives the address and the RDP flag.\<close>

definition normalize_port_forward_target :: "string \<Rightarrow> int \<Rightarrow> string \<times> bool" where
  "normalize_port_forward_target host port =
     (let is_rdp = (host = ''RDP'' \<and> port = 0);
          host = (if is_rdp then ''localhost'' else host);
          port = (if is_rdp then 3389 else port);
          host = (if host = [] then ''localhost'' else host)
      in (host @ '':'' @ show_int port, is_rdp))"

definition reply :: "frame \<Rightarrow> pf_mux \<Rightarrow> pf_mux" where
  "reply f m = m\<lparr>sent := sent m @ [f]\<rparr>"

text \<open>\<open>retain(|_, e| !e.inbound.is_closed())\<close>: the entries of channels whose task has dropped its
  end of the queue go, and with them the queue's sender.\<close>

definition entry_live :: "task list \<Rightarrow> i32 \<times> nat \<Rightarrow> bool" where
  "entry_live ts e = (snd e < length ts \<and> rx_alive (tk_chan (ts ! snd e)))"

definition retain_live :: "pf_mux \<Rightarrow> pf_mux" where
  "retain_live m =
     m\<lparr>mux_channels := filter (entry_live (mux_tasks m)) (mux_channels m),
       mux_tasks := fold drop_entry (filter (\<lambda>e. \<not> entry_live (mux_tasks m) e) (mux_channels m)) (mux_tasks m)\<rparr>"

definition on_open :: "i32 \<Rightarrow> string \<Rightarrow> int \<Rightarrow> u32 \<Rightarrow> bool \<Rightarrow> pf_mux \<Rightarrow> pf_mux" where
  "on_open i host port adv permitted m0 =
     (let m = retain_live m0 in
      if \<not> permitted then reply (Opened i False ''No permission of IP tunneling'' 0) m
      else if MAX_CHANNELS \<le> length (mux_channels m) then reply (Opened i False ''Too many port forward channels'' 0) m
      else if map_of (mux_channels m) i \<noteq> None then m
      else let (addr, is_rdp) = normalize_port_forward_target host port in
        if addr \<noteq> login_target m then reply (Opened i False ''Port forward target not authorized'' 0) m
        else m\<lparr>mux_channels := (i, length (mux_tasks m)) # mux_channels m,
               mux_tasks := mux_tasks m @
                 [\<lparr>tk_id = i, tk_target = \<lparr>t_host = host, t_port = port, t_addr = addr, t_rdp = is_rdp\<rparr>,
                   tk_chan = new_controlled_chan adv\<rparr>]\<rparr>)"

definition mux_frame :: "frame \<Rightarrow> pf_mux \<Rightarrow> pf_mux" where
  "mux_frame f m =
     (let (cs, ts) = deliver controlled_frame f (mux_channels m, mux_tasks m) in
      m\<lparr>mux_channels := cs, mux_tasks := ts\<rparr>)"

fun handle :: "frame \<Rightarrow> bool \<Rightarrow> pf_mux \<Rightarrow> pf_mux" where
  "handle (Open i host port adv) permitted m = on_open i host port adv permitted m"
| "handle (Opened i ok msg w) permitted m = m"
| "handle (Data i d) permitted m = mux_frame (Data i d) m"
| "handle (Close i) permitted m = mux_frame (Close i) m"
| "handle (WindowUpdate i add) permitted m = mux_frame (WindowUpdate i add) m"

definition mux_close_all :: "pf_mux \<Rightarrow> pf_mux" where
  "mux_close_all m =
     m\<lparr>mux_channels := [], mux_tasks := fold drop_entry (mux_channels m) (mux_tasks m), mux_teardown := True\<rparr>"

text \<open>The controlled side under any peer: frames with the answer of the permission check, turns of
  the channel tasks, and the end of the connection.\<close>

inductive mux_reach :: "string \<Rightarrow> pf_mux \<Rightarrow> bool" for target where
  start: "mux_reach target (mux_new target)"
| frame: "mux_reach target m \<Longrightarrow> mux_reach target (handle f permitted m)"
| task: "mux_reach target m \<Longrightarrow> r < length (mux_tasks m) \<Longrightarrow>
    chan_task (tk_id (mux_tasks m ! r)) (tk_target (mux_tasks m ! r)) ev (tk_chan (mux_tasks m ! r)) = Some (ch, outs) \<Longrightarrow>
    mux_reach target (m\<lparr>mux_tasks := update_chan r (\<lambda>_. ch) (mux_tasks m)\<rparr>)"
| close: "mux_reach target m \<Longrightarrow> mux_reach target (mux_close_all m)"

subsection \<open>What the controlled side keeps\<close>

definition listed :: "chan_map \<Rightarrow> nat \<Rightarrow> bool" where
  "listed m r = (r \<in> snd ` set m)"

text \<open>The map and the tasks of either side agree: ids and references are unique, an entry refers to a
  task of its own id, and a channel's queue has a sender exactly while the channel is listed.\<close>

definition map_ok :: "chan_map \<Rightarrow> task list \<Rightarrow> bool" where
  "map_ok m ts =
     (distinct (map fst m) \<and> distinct (map snd m) \<and>
      (\<forall>(i, r)\<in>set m. r < length ts \<and> tk_id (ts ! r) = i) \<and>
      (\<forall>r<length ts. tx_alive (tk_chan (ts ! r)) = listed m r))"

lemma map_ok_entry:
  assumes "map_ok m ts" "map_of m i = Some r"
  shows "r < length ts" "tk_id (ts ! r) = i" "tx_alive (tk_chan (ts ! r))" "(i, r) \<in> set m"
proof -
  show e: "(i, r) \<in> set m" using assms(2) by (rule map_of_SomeD)
  then show r: "r < length ts" "tk_id (ts ! r) = i" using assms(1) by (auto simp: map_ok_def)
  then show "tx_alive (tk_chan (ts ! r))" using assms(1) e by (force simp: map_ok_def listed_def)
qed

lemma map_ok_update:
  assumes "map_ok m ts" "\<And>ch. tx_alive (f ch) = tx_alive ch"
  shows "map_ok m (update_chan r f ts)"
proof -
  have "tk_id (update_chan r f ts ! s) = tk_id (ts ! s)"
    "s < length ts \<Longrightarrow> tx_alive (tk_chan (update_chan r f ts ! s)) = tx_alive (tk_chan (ts ! s))" for s
    using assms(2) by (cases "r = s"; cases "s < length ts"; simp add: update_chan_def)+
  then show ?thesis using assms(1) by (auto simp: map_ok_def)
qed

lemma snd_remove_key: "snd ` set (remove_key i m) = {s. \<exists>j. (j, s) \<in> set m \<and> j \<noteq> i}"
  by (force simp: remove_key_def)

lemma listed_remove:
  assumes "distinct (map fst m)" "distinct (map snd m)" "map_of m i = Some r"
  shows "listed (remove_key i m) s \<longleftrightarrow> listed m s \<and> s \<noteq> r"
proof -
  have e: "(i, r) \<in> set m" using assms(3) by (rule map_of_SomeD)
  have inj: "j = i" if "(j, r) \<in> set m" for j
    using assms(2) that e by (auto simp: distinct_map dest: inj_onD [where x = "(j, r)" and y = "(i, r)"])
  have uniq: "t = r" if "(i, t) \<in> set m" for t
    using assms(1) that e by (auto simp: distinct_map dest: inj_onD [where x = "(i, t)" and y = "(i, r)"])
  have l: "listed m s \<longleftrightarrow> (\<exists>j. (j, s) \<in> set m)" by (force simp: listed_def)
  have "listed (remove_key i m) s \<longleftrightarrow> (\<exists>j. (j, s) \<in> set m \<and> j \<noteq> i)"
    by (simp add: listed_def snd_remove_key)
  also have "\<dots> \<longleftrightarrow> listed m s \<and> s \<noteq> r" unfolding l using inj uniq by blast
  finally show ?thesis .
qed

lemma map_ok_remove:
  assumes "map_ok m ts" "map_of m i = Some r" "\<not> tx_alive (f (tk_chan (ts ! r)))"
  shows "map_ok (remove_key i m) (update_chan r f ts)"
proof -
  have d: "distinct (map fst m)" "distinct (map snd m)" using assms(1) by (simp_all add: map_ok_def)
  note r = map_ok_entry [OF assms(1,2)]
  have id: "tk_id (update_chan r f ts ! s) = tk_id (ts ! s)" for s
    using r(1) by (cases "r = s") (simp_all add: update_chan_def)
  have tx: "s < length ts \<Longrightarrow> tx_alive (tk_chan (update_chan r f ts ! s)) = listed (remove_key i m) s" for s
    using r(1) assms(1,3) listed_remove [OF d assms(2), of s]
    by (cases "r = s") (simp_all add: update_chan_same update_chan_other map_ok_def)
  have "distinct (map snd (remove_key i m))" using d(2) by (simp add: remove_key_def distinct_map_filter)
  then show ?thesis
    using assms(1) id tx distinct_remove_key [OF d(1)] by (auto simp: map_ok_def remove_key_def)
qed

lemma fold_drop_entry:
  "length (fold drop_entry es ts) = length ts"
  "r < length ts \<Longrightarrow> fold drop_entry es ts ! r =
     (ts ! r)\<lparr>tk_chan := if r \<in> snd ` set es then unlist (tk_chan (ts ! r)) else tk_chan (ts ! r)\<rparr>"
proof (induction es arbitrary: ts)
  case (Cons e es)
  {
    case 1
    show ?case using Cons.IH(1) by (simp add: drop_entry_def)
  next
    case 2
    then show ?case
      using Cons.IH(2) [of "drop_entry e ts"]
      by (cases "r = snd e") (auto simp: drop_entry_def update_chan_same update_chan_other unlist_def)
  }
qed simp_all

text \<open>Dropping the entries that fail a test drops their senders.\<close>

lemma map_ok_filter:
  assumes "map_ok m ts"
  shows "map_ok (filter P m) (fold drop_entry (filter (\<lambda>e. \<not> P e) m) ts)"
proof -
  have d: "distinct (map fst m)" "distinct (map snd m)" using assms by (simp_all add: map_ok_def)
  have inj: "inj_on snd (set m)" using d(2) by (simp add: distinct_map)
  have l: "listed (filter P m) r \<longleftrightarrow> listed m r \<and> r \<notin> snd ` set (filter (\<lambda>e. \<not> P e) m)" for r
  proof -
    have "{e \<in> set m. P e} = set m - {e \<in> set m. \<not> P e}" by blast
    then have "snd ` {e \<in> set m. P e} = snd ` set m - snd ` {e \<in> set m. \<not> P e}"
      using inj_on_image_set_diff [OF inj, of "set m" "{e \<in> set m. \<not> P e}"] by simp
    then show ?thesis by (simp add: listed_def)
  qed
  have "tx_alive (tk_chan (fold drop_entry (filter (\<lambda>e. \<not> P e) m) ts ! r)) = listed (filter P m) r"
    if "r < length ts" for r
    using assms that fold_drop_entry(2) [OF that, of "filter (\<lambda>e. \<not> P e) m"] unfolding l
    by (auto simp: map_ok_def)
  moreover have "tk_id (fold drop_entry (filter (\<lambda>e. \<not> P e) m) ts ! r) = tk_id (ts ! r)" if "r < length ts" for r
    using fold_drop_entry(2) [OF that, of "filter (\<lambda>e. \<not> P e) m"] by simp
  ultimately show ?thesis
    using assms by (auto simp: map_ok_def fold_drop_entry(1) distinct_map_filter)
qed

lemma map_ok_insert:
  assumes "map_ok m ts" "map_of m i = None" "tk_id t = i" "tx_alive (tk_chan t)"
  shows "map_ok ((i, length ts) # m) (ts @ [t])"
proof -
  have "length ts \<notin> snd ` set m" using assms(1) by (auto simp: map_ok_def)
  moreover have "i \<notin> fst ` set m" using assms(2) by (simp add: map_of_eq_None_iff)
  ultimately show ?thesis
    using assms(1,3,4) by (auto simp: map_ok_def listed_def nth_append less_Suc_eq)
qed

lemma deliver_unknown: "map_of m (channel_id f) = None \<Longrightarrow> deliver react f (m, ts) = (m, ts)"
  by (simp add: deliver_def)

lemma map_ok_deliver:
  assumes "map_ok m ts" "deliver react f (m, ts) = (m', ts')"
  shows "map_ok m' ts'"
proof (cases "map_of m (channel_id f)")
  case None
  then show ?thesis using assms by (simp add: deliver_def)
next
  case (Some r)
  note e = map_ok_entry [OF assms(1) Some]
  let ?ts = "update_chan r (react f) ts"
  show ?thesis
  proof (cases "tx_alive (tk_chan (?ts ! r))")
    case True
    then have "tx_alive (react f (tk_chan (ts ! r)))" using e(1) by (simp add: update_chan_same)
    then have "tx_alive (tk_chan (?ts ! s)) = tx_alive (tk_chan (ts ! s))" "tk_id (?ts ! s) = tk_id (ts ! s)" for s
      using e by (cases "r = s"; simp add: update_chan_same update_chan_other)+
    then have "map_ok m ?ts" using assms(1) by (simp add: map_ok_def)
    then show ?thesis using assms(2) Some True e(1) by (auto simp: deliver_def Let_def)
  next
    case False
    then have "map_ok (remove_key (channel_id f) m) ?ts"
      using map_ok_remove [OF assms(1) Some] e(1) by (simp add: update_chan_same)
    then show ?thesis using assms(2) Some False by (auto simp: deliver_def Let_def)
  qed
qed

subsection \<open>The contract of a demultiplexer\<close>

text \<open>Both sides hand the traffic of a listed channel to that channel alone. What follows from that is
  proved once: the map stays consistent, the other channels are not touched, and every channel
  keeps the bounds of its counters.\<close>

fun is_traffic :: "frame \<Rightarrow> bool" where
  "is_traffic (Data _ _) = True"
| "is_traffic (Close _) = True"
| "is_traffic (WindowUpdate _ _) = True"
| "is_traffic _ = False"

definition chans_ok :: "task list \<Rightarrow> bool" where
  "chans_ok ts = (\<forall>t\<in>set ts. chan_ok (tk_chan t))"

lemma chans_ok_update: "chans_ok ts \<Longrightarrow> (\<And>ch. chan_ok ch \<Longrightarrow> chan_ok (f ch)) \<Longrightarrow> chans_ok (update_chan r f ts)"
  by (auto simp: chans_ok_def update_chan_def dest!: set_update_subset_insert [THEN subsetD])

lemma chans_ok_drop: "chans_ok ts \<Longrightarrow> chans_ok (fold drop_entry es ts)"
  by (induction es arbitrary: ts) (simp_all add: drop_entry_def chans_ok_update chan_ok_unlist)

locale demultiplexer =
  fixes table :: "'s \<Rightarrow> chan_map \<times> task list"
    and recv :: "frame \<Rightarrow> 's \<Rightarrow> 's"
    and react :: "frame \<Rightarrow> chan \<Rightarrow> chan"
  assumes delivers: "is_traffic f \<Longrightarrow> table (recv f s) = deliver react f (table s)"
    and react_ok: "chan_ok ch \<Longrightarrow> chan_ok (react f ch)"
begin

lemma keeps_map:
  "is_traffic f \<Longrightarrow> map_ok (fst (table s)) (snd (table s)) \<Longrightarrow> map_ok (fst (table (recv f s))) (snd (table (recv f s)))"
  using map_ok_deliver [of "fst (table s)" "snd (table s)" react f] by (simp add: delivers)

lemma isolates:
  assumes "is_traffic f" "map_of (fst (table s)) (channel_id f) \<noteq> Some r"
  shows "snd (table (recv f s)) ! r = snd (table s) ! r"
  using assms
  by (auto simp: delivers deliver_def Let_def update_chan_other split: prod.splits option.splits)

lemma other_ids:
  "is_traffic f \<Longrightarrow> channel_id f \<noteq> j \<Longrightarrow> map_of (fst (table (recv f s))) j = map_of (fst (table s)) j"
  by (auto simp: delivers deliver_def Let_def map_of_remove_key split: prod.splits option.splits)

lemma keeps_bounds: "is_traffic f \<Longrightarrow> chans_ok (snd (table s)) \<Longrightarrow> chans_ok (snd (table (recv f s)))"
  by (auto simp: delivers deliver_def Let_def react_ok intro: chans_ok_update split: prod.splits option.splits)

lemma keeps_size: "is_traffic f \<Longrightarrow> length (fst (table (recv f s))) \<le> length (fst (table s))"
  by (auto simp: delivers deliver_def Let_def length_remove_key split: prod.splits option.splits)

end

interpretation controlled_mux:
  demultiplexer "\<lambda>m. (mux_channels m, mux_tasks m)" "\<lambda>f. handle f permitted" controlled_frame for permitted
proof
  fix f s assume "is_traffic f"
  then show "(mux_channels (handle f permitted s), mux_tasks (handle f permitted s)) =
      deliver controlled_frame f (mux_channels s, mux_tasks s)"
    by (cases f) (simp_all add: mux_frame_def split: prod.splits)
qed (rule chan_ok_frame)

lemma target_update [simp]: "map tk_target (update_chan r f ts) = map tk_target ts"
  by (simp add: update_chan_def map_update) (metis list_update_id nth_map)

lemma target_drop [simp]: "map tk_target (fold drop_entry es ts) = map tk_target ts"
  by (induction es arbitrary: ts) (simp_all add: drop_entry_def)

lemma target_deliver: "deliver react f (m, ts) = (m', ts') \<Longrightarrow> map tk_target ts' = map tk_target ts"
  by (auto simp: deliver_def Let_def split: option.splits)

definition to_target :: "string \<Rightarrow> target \<Rightarrow> bool" where
  "to_target addr tg = (normalize_port_forward_target (t_host tg) (t_port tg) = (addr, t_rdp tg) \<and> t_addr tg = addr)"

text \<open>The invariant of the controlled side of a tunnel that was logged in for \<open>target\<close>.\<close>

definition mux_ok :: "string \<Rightarrow> pf_mux \<Rightarrow> bool" where
  "mux_ok target m =
     (map_ok (mux_channels m) (mux_tasks m) \<and> chans_ok (mux_tasks m) \<and> login_target m = target \<and>
      length (mux_channels m) \<le> MAX_CHANNELS \<and> (\<forall>tg\<in>set (map tk_target (mux_tasks m)). to_target target tg))"

lemma mux_ok_retain: "mux_ok target m \<Longrightarrow> mux_ok target (retain_live m)"
  using map_ok_filter [of "mux_channels m" "mux_tasks m" "entry_live (mux_tasks m)"]
  by (simp add: mux_ok_def retain_live_def chans_ok_drop le_trans [OF length_filter_le] del: set_map)

lemma retain_tasks [simp]: "login_target (retain_live m) = login_target m"
  by (simp add: retain_live_def)

lemma mux_ok_reply: "mux_ok target (reply f m) = mux_ok target m"
  by (simp add: mux_ok_def reply_def)

lemma mux_ok_open:
  assumes "mux_ok target m0"
  shows "mux_ok target (on_open i host port adv permitted m0)"
proof -
  define m where "m = retain_live m0"
  have m: "mux_ok target m" unfolding m_def by (rule mux_ok_retain [OF assms])
  obtain addr is_rdp where n: "normalize_port_forward_target host port = (addr, is_rdp)" by fastforce
  show ?thesis
  proof (cases "permitted \<and> length (mux_channels m) < MAX_CHANNELS \<and> map_of (mux_channels m) i = None \<and> addr = login_target m")
    case True
    let ?t = "\<lparr>tk_id = i, tk_target = \<lparr>t_host = host, t_port = port, t_addr = addr, t_rdp = is_rdp\<rparr>,
               tk_chan = new_controlled_chan adv\<rparr>"
    have "map_ok ((i, length (mux_tasks m)) # mux_channels m) (mux_tasks m @ [?t])"
      using map_ok_insert [of "mux_channels m" "mux_tasks m" i ?t] m True
      by (simp add: mux_ok_def new_controlled_chan_def)
    then show ?thesis
      using m True n by (auto simp: on_open_def m_def [symmetric] Let_def mux_ok_def chans_ok_def chan_ok_new to_target_def)
  next
    case False
    then show ?thesis
      using m n by (auto simp: on_open_def m_def [symmetric] Let_def mux_ok_reply split: if_splits)
  qed
qed

lemma mux_ok_traffic:
  assumes "mux_ok target m" "is_traffic f"
  shows "mux_ok target (handle f permitted m)"
proof -
  have l: "login_target (handle f permitted m) = login_target m"
    "map tk_target (mux_tasks (handle f permitted m)) = map tk_target (mux_tasks m)"
    using assms(2) target_deliver [of controlled_frame f "mux_channels m" "mux_tasks m"]
    by (cases f; simp add: mux_frame_def split: prod.splits)+
  show ?thesis
    using assms controlled_mux.keeps_map [OF assms(2), where s = m and permitted = permitted] controlled_mux.keeps_bounds [OF assms(2), where s = m and permitted = permitted]
      controlled_mux.keeps_size [OF assms(2), where s = m and permitted = permitted] l
    by (simp add: mux_ok_def del: set_map)
qed

lemma mux_ok_handle: "mux_ok target m \<Longrightarrow> mux_ok target (handle f permitted m)"
  using mux_ok_traffic [of target m f permitted] by (cases f) (simp_all add: mux_ok_open)

lemma mux_ok_task:
  assumes "mux_ok target m" "r < length (mux_tasks m)"
    and "chan_task i tg ev (tk_chan (mux_tasks m ! r)) = Some (ch, outs)"
  shows "mux_ok target (m\<lparr>mux_tasks := update_chan r (\<lambda>_. ch) (mux_tasks m)\<rparr>)"
proof -
  let ?ts = "mux_tasks m"
  have "tx_alive ch = tx_alive (tk_chan (?ts ! r))" by (rule task_tx_alive [OF assms(3)])
  then have "tx_alive (tk_chan (update_chan r (\<lambda>_. ch) ?ts ! s)) = tx_alive (tk_chan (?ts ! s))"
    "tk_id (update_chan r (\<lambda>_. ch) ?ts ! s) = tk_id (?ts ! s)" for s
    using assms(2) by (cases "r = s"; simp add: update_chan_same update_chan_other)+
  then have "map_ok (mux_channels m) (update_chan r (\<lambda>_. ch) ?ts)" using assms(1) by (simp add: mux_ok_def map_ok_def)
  moreover have "chan_ok ch"
    using chan_ok_task [OF assms(3)] assms(1,2) by (simp add: mux_ok_def chans_ok_def)
  ultimately show ?thesis
    using assms(1) chans_ok_update [of ?ts "\<lambda>_. ch" r] by (simp add: mux_ok_def del: set_map)
qed

lemma mux_ok_close: "mux_ok target m \<Longrightarrow> mux_ok target (mux_close_all m)"
  using map_ok_filter [of "mux_channels m" "mux_tasks m" "\<lambda>_. False"]
  by (simp add: mux_ok_def mux_close_all_def chans_ok_drop del: set_map)

lemma mux_reach_ok: "mux_reach target m \<Longrightarrow> mux_ok target m"
proof (induction rule: mux_reach.induct)
  case start
  then show ?case by (simp add: mux_ok_def mux_new_def map_ok_def chans_ok_def)
qed (simp_all add: mux_ok_handle mux_ok_task mux_ok_close)

text \<open>C14. A tunnel stays within what it was logged in for: whatever frames the controller sends, every
  channel task of the controlled side connects to the target of the login, at most
  \<open>MAX_CHANNELS\<close> channels are listed, each id once, and together they hold at most 64 MiB for their
  target sockets.\<close>

theorem port_forward_confined:
  assumes "mux_reach target m"
  shows "(\<forall>t\<in>set (mux_tasks m). t_addr (tk_target t) = target \<and>
            fst (normalize_port_forward_target (t_host (tk_target t)) (t_port (tk_target t))) = target) \<and>
         length (mux_channels m) \<le> MAX_CHANNELS \<and> distinct (map fst (mux_channels m)) \<and>
         sum_list (map (\<lambda>e. length (buffered (tk_chan (mux_tasks m ! snd e)))) (mux_channels m)) \<le> 64 * 1024 * 1024"
proof -
  have ok: "mux_ok target m" by (rule mux_reach_ok [OF assms])
  have "length (buffered (tk_chan (mux_tasks m ! snd e))) \<le> 262144" if "e \<in> set (mux_channels m)" for e
    using ok that chan_bounds(4) by (force simp: mux_ok_def map_ok_def chans_ok_def)
  then have "sum_list (map (\<lambda>e. length (buffered (tk_chan (mux_tasks m ! snd e)))) (mux_channels m))
      \<le> sum_list (map (\<lambda>e. 262144) (mux_channels m))"
    by (intro sum_list_mono) auto
  also have "\<dots> \<le> 64 * 1024 * 1024"
    using ok by (simp add: mux_ok_def sum_list_triv MAX_CHANNELS_def)
  finally show ?thesis using ok by (auto simp: mux_ok_def to_target_def map_ok_def)
qed

text \<open>A witness: a tunnel for \<open>db:5432\<close> on which one channel is opened and another target refused.\<close>

theorem port_forward_confined_witness:
  "let m = handle (Open 2 ''evil'' 22 0) True (handle (Open 1 ''db'' 5432 0) True (mux_new ''db:5432'')) in
     map (\<lambda>t. t_addr (tk_target t)) (mux_tasks m) = [''db:5432''] \<and> length (mux_channels m) = 1 \<and>
     sent m = [Opened 2 False ''Port forward target not authorized'' 0] \<and>
     sum_list (map (\<lambda>e. length (buffered (tk_chan (mux_tasks m ! snd e)))) (mux_channels m)) \<le> 64 * 1024 * 1024"
proof -
  let ?m = "handle (Open 2 ''evil'' 22 0) True (handle (Open 1 ''db'' 5432 0) True (mux_new ''db:5432''))"
  have n: "show_nat 5432 = ''5432''" "show_nat 22 = ''22''"
    by (simp_all add: show_nat_unfold char_of_def bit_0)
  have "mux_reach ''db:5432'' ?m" by (intro mux_reach.intros)
  note c = port_forward_confined [OF this]
  have "map (\<lambda>t. t_addr (tk_target t)) (mux_tasks ?m) = [''db:5432''] \<and> length (mux_channels ?m) = 1 \<and>
     sent ?m = [Opened 2 False ''Port forward target not authorized'' 0]"
    by (simp add: on_open_def mux_new_def retain_live_def normalize_port_forward_target_def show_int_def n
        MAX_CHANNELS_def reply_def entry_live_def rx_alive_def)
  then show ?thesis unfolding Let_def using c by blast
qed

end
