(* ===== verification/Pf_Tunnel.thy ===== *)
theory Pf_Tunnel
  imports Pf_Mux
begin

text \<open>
  The controller's side of a tunnel: \<open>TunnelHandle\<close> with its channel map, the allocation of channel
  ids, the frames of \<open>on_frame\<close>, the report of refusals, \<open>tunnel_loop\<close>, and the \<open>Tunnel\<close> of a
  listener (\<^verbatim>\<open>src/client/src/port_forward_mux.rs\<close>, module \<open>tunnel\<close>;
  \<^verbatim>\<open>src/client/src/port_forward.rs\<close>, \<open>listen\<close> and \<open>establish_tunnel\<close>).
\<close>

section \<open>Channel ids\<close>

text \<open>The loop of \<open>open\<close> over \<open>next_id.fetch_add(1)\<close>, an \<open>AtomicI32\<close> that wraps around. It returns
  the id and the counter; \<open>None\<close> would mean that it never returns.\<close>

partial_function (option) alloc_id :: "i32 list \<Rightarrow> i32 \<Rightarrow> (i32 \<times> i32) option" where
  "alloc_id keys counter =
     (if counter \<in> set keys then alloc_id keys (counter + 1) else Some (counter, counter + 1))"

lemma alloc_id_first:
  assumes "counter + of_nat n \<notin> set keys"
  shows "\<exists>m\<le>n. alloc_id keys counter = Some (counter + of_nat m, counter + of_nat m + 1) \<and>
               counter + of_nat m \<notin> set keys \<and> (\<forall>j<m. counter + of_nat j \<in> set keys)"
  using assms
proof (induction n arbitrary: counter)
  case 0
  then show ?case by (subst alloc_id.simps) simp
next
  case (Suc n)
  show ?case
  proof (cases "counter \<in> set keys")
    case True
    have "counter + 1 + of_nat n \<notin> set keys" using Suc.prems by (simp add: algebra_simps)
    from Suc.IH [OF this] obtain m where m: "m \<le> n"
      "alloc_id keys (counter + 1) = Some (counter + 1 + of_nat m, counter + 1 + of_nat m + 1)"
      "counter + 1 + of_nat m \<notin> set keys" "\<forall>j<m. counter + 1 + of_nat j \<in> set keys" by blast
    have "counter + of_nat j \<in> set keys" if "j < Suc m" for j
      using that True m(4) by (cases j) (auto simp: algebra_simps)
    then show ?thesis
      using m True by (intro exI [of _ "Suc m"]) (subst alloc_id.simps, auto simp: algebra_simps)
  next
    case False
    then show ?thesis by (intro exI [of _ 0]) (subst alloc_id.simps, simp)
  qed
qed

lemma inj_wrapping: "k \<le> 4294967296 \<Longrightarrow> inj_on (\<lambda>n. counter + of_nat n :: i32) {..<k}"
  by (auto simp: inj_on_def word_of_nat_eq_iff take_bit_nat_def)

lemma free_id:
  fixes keys :: "i32 list"
  assumes "length keys < 4294967296"
  shows "\<exists>n\<le>length keys. counter + of_nat n \<notin> set keys"
proof (rule ccontr)
  assume "\<not> ?thesis"
  then have "(\<lambda>n. counter + of_nat n) ` {..<Suc (length keys)} \<subseteq> set keys" by (auto simp: less_Suc_eq_le)
  then have "card ((\<lambda>n. counter + of_nat n) ` {..<Suc (length keys)}) \<le> length keys"
    by (meson card_length card_mono finite_set le_trans)
  then show False using card_image [OF inj_wrapping, of "Suc (length keys)" counter] assms by simp
qed

section \<open>The handle\<close>

record tunnel_handle =
  th_channels :: chan_map
  th_tasks :: "task list"
  next_id :: i32
  reported :: "(string \<times> instant) list"
  th_teardown :: bool
  th_gone :: bool
  th_data :: "frame list"
  th_control :: "frame list"

definition new_handle :: tunnel_handle where
  "new_handle = \<lparr>th_channels = [], th_tasks = [], next_id = 1, reported = [], th_teardown = False,
     th_gone = False, th_data = [], th_control = []\<rparr>"

text \<open>\<open>Inl\<close> is the error of \<open>open\<close>; \<open>None\<close> would be an \<open>open\<close> that never returns. The target is
  resolved by the peer, so the controller's \<open>t_addr\<close> and \<open>t_rdp\<close> play no part.\<close>

definition th_open :: "string \<Rightarrow> int \<Rightarrow> bytes \<Rightarrow> tunnel_handle \<Rightarrow> (string + tunnel_handle) option" where
  "th_open host port pre h =
     (if th_gone h then Some (Inl ''port forward tunnel is gone'')
      else if MAX_CHANNELS \<le> length (th_channels h) then Some (Inl ''too many port forward channels'')
      else case alloc_id (map fst (th_channels h)) (next_id h) of
             None \<Rightarrow> None
           | Some (i, counter) \<Rightarrow>
               Some (Inr (h\<lparr>next_id := counter, th_channels := (i, length (th_tasks h)) # th_channels h,
                 th_tasks := th_tasks h @
                   [\<lparr>tk_id = i, tk_target = \<lparr>t_host = host, t_port = port, t_addr = [], t_rdp = False\<rparr>,
                     tk_chan = new_controller_chan pre\<rparr>]\<rparr>)))"

definition REPORT_AGAIN_AFTER :: nat where "REPORT_AGAIN_AFTER = 10 * 1000000000"
definition MAX_REPORTED_OPEN_ERRORS :: nat where "MAX_REPORTED_OPEN_ERRORS = 8"

definition first_report_at ::
    "string \<Rightarrow> instant \<Rightarrow> (string \<times> instant) list \<Rightarrow> string option \<times> (string \<times> instant) list" where
  "first_report_at message now rep =
     (if message = [] then (None, rep)
      else let live = filter (\<lambda>(_, last). elapsed now last < REPORT_AGAIN_AFTER) rep in
        if map_of live message \<noteq> None then (None, (message, now) # remove_key message live)
        else if MAX_REPORTED_OPEN_ERRORS \<le> length live then (None, live)
        else (Some message, (message, now) # live))"

definition th_deliver :: "frame \<Rightarrow> tunnel_handle \<Rightarrow> tunnel_handle" where
  "th_deliver f h =
     (let (cs, ts) = deliver controller_frame f (th_channels h, th_tasks h) in
      h\<lparr>th_channels := cs, th_tasks := ts\<rparr>)"

fun on_frame :: "instant \<Rightarrow> frame \<Rightarrow> tunnel_handle \<Rightarrow> string option \<times> tunnel_handle" where
  "on_frame now (Opened i success message w) h =
     (let h' = th_deliver (Opened i success message w) h in
      if \<not> success \<and> map_of (th_channels h) i \<noteq> None
      then let (report, rep) = first_report_at message now (reported h') in (report, h'\<lparr>reported := rep\<rparr>)
      else (None, h'))"
| "on_frame now (Open i host port adv) h = (None, h)"
| "on_frame now (Data i d) h = (None, th_deliver (Data i d) h)"
| "on_frame now (Close i) h = (None, th_deliver (Close i) h)"
| "on_frame now (WindowUpdate i add) h = (None, th_deliver (WindowUpdate i add) h)"

definition th_close_all :: "tunnel_handle \<Rightarrow> tunnel_handle" where
  "th_close_all h =
     h\<lparr>th_channels := [], th_tasks := fold drop_entry (th_channels h) (th_tasks h), th_teardown := True\<rparr>"

text \<open>A channel's task removes its id from the map when it ends.\<close>

definition forget :: "i32 \<Rightarrow> tunnel_handle \<Rightarrow> tunnel_handle" where
  "forget i h =
     (case map_of (th_channels h) i of
        None \<Rightarrow> h
      | Some r \<Rightarrow> h\<lparr>th_channels := remove_key i (th_channels h), th_tasks := update_chan r unlist (th_tasks h)\<rparr>)"

definition th_task :: "nat \<Rightarrow> task_event \<Rightarrow> tunnel_handle \<Rightarrow> tunnel_handle option" where
  "th_task r ev h =
     (if r < length (th_tasks h) then
        let t = th_tasks h ! r in
        case chan_task (tk_id t) (tk_target t) ev (tk_chan t) of
          None \<Rightarrow> None
        | Some (ch, outs) \<Rightarrow>
            let h' = h\<lparr>th_tasks := update_chan r (\<lambda>_. ch) (th_tasks h),
                       th_data := th_data h @ ordered_outs outs, th_control := th_control h @ control_outs outs\<rparr>
            in Some (if phase ch = Finished then forget (tk_id t) h' else h')
      else None)"

section \<open>The tunnel loop\<close>

text \<open>What an arm of the \<open>select!\<close> yields: a queued message with the result of sending it (an error or
  none), what the stream delivers, or the listener's end. \<open>Inl\<close> ends the loop with its reason; a
  dialog for the user comes with \<open>Inr\<close>. \<open>ReadOther\<close> stands for every message that leaves the
  handle alone (unparsable, \<open>TestDelay\<close>, other unions).\<close>

datatype loop_event =
    ControlArm "string option"
  | DataArm "string option"
  | ReadFrame frame
  | ReadOther
  | ReadCloseReason string
  | ReadFailed string
  | ReadTimeout
  | WindowGone

definition after_send :: "string option \<Rightarrow> tunnel_handle \<Rightarrow> string + string option \<times> tunnel_handle" where
  "after_send err h = (case err of None \<Rightarrow> Inr (None, h) | Some e \<Rightarrow> Inl (''send failed: '' @ e))"

definition tunnel_turn ::
    "instant \<Rightarrow> loop_event \<Rightarrow> tunnel_handle \<Rightarrow> (string + string option \<times> tunnel_handle) option" where
  "tunnel_turn now ev h =
     (case ev of
        ControlArm err \<Rightarrow> (case th_control h of [] \<Rightarrow> None | _ # q \<Rightarrow> Some (after_send err (h\<lparr>th_control := q\<rparr>)))
      | DataArm err \<Rightarrow> (case th_data h of [] \<Rightarrow> None | _ # q \<Rightarrow> Some (after_send err (h\<lparr>th_data := q\<rparr>)))
      | ReadFrame f \<Rightarrow> Some (Inr (on_frame now f h))
      | ReadOther \<Rightarrow> Some (Inr (None, h))
      | ReadCloseReason r \<Rightarrow> Some (Inl (''closed by peer: '' @ r))
      | ReadFailed e \<Rightarrow> Some (Inl (''read failed: '' @ e))
      | ReadTimeout \<Rightarrow> Some (Inl ''timeout or reset by the peer'')
      | WindowGone \<Rightarrow> Some (Inl ''window closed''))"

section \<open>What the handle keeps\<close>

definition handle_ok :: "tunnel_handle \<Rightarrow> bool" where
  "handle_ok h =
     (map_ok (th_channels h) (th_tasks h) \<and> chans_ok (th_tasks h) \<and> length (th_channels h) \<le> MAX_CHANNELS \<and>
      length (reported h) \<le> MAX_REPORTED_OPEN_ERRORS)"

interpretation controller_mux:
  demultiplexer "\<lambda>h. (th_channels h, th_tasks h)" "\<lambda>f h. snd (on_frame now f h)" controller_frame for now
proof
  fix f s assume "is_traffic f"
  then show "(th_channels (snd (on_frame now f s)), th_tasks (snd (on_frame now f s))) =
      deliver controller_frame f (th_channels s, th_tasks s)"
    by (cases f) (simp_all add: th_deliver_def split: prod.splits)
qed (rule chan_ok_frame)

lemma open_id:
  assumes "length (th_channels h) < MAX_CHANNELS" "\<not> th_gone h"
  shows "\<exists>i n. alloc_id (map fst (th_channels h)) (next_id h) = Some (i, i + 1) \<and> map_of (th_channels h) i = None \<and>
               n \<le> length (th_channels h) \<and> i = next_id h + of_nat n"
proof -
  let ?k = "map fst (th_channels h)"
  obtain n where n: "n \<le> length ?k" "next_id h + of_nat n \<notin> set ?k"
    using free_id [of ?k "next_id h"] assms(1) by (auto simp: MAX_CHANNELS_def)
  from alloc_id_first [OF n(2)] n(1) show ?thesis
    by (metis (no_types, lifting) le_trans length_map map_of_eq_None_iff set_map)
qed

lemma handle_ok_open:
  assumes "handle_ok h" "th_open host port pre h = Some (Inr h')"
  shows "handle_ok h'"
proof -
  have l: "length (th_channels h) < MAX_CHANNELS" "\<not> th_gone h"
    using assms(2) by (auto simp: th_open_def split: if_splits)
  obtain i where i: "alloc_id (map fst (th_channels h)) (next_id h) = Some (i, i + 1)" "map_of (th_channels h) i = None"
    using open_id [OF l] by blast
  let ?t = "\<lparr>tk_id = i, tk_target = \<lparr>t_host = host, t_port = port, t_addr = [], t_rdp = False\<rparr>,
             tk_chan = new_controller_chan pre\<rparr>"
  have "map_ok ((i, length (th_tasks h)) # th_channels h) (th_tasks h @ [?t])"
    using map_ok_insert [of "th_channels h" "th_tasks h" i ?t] assms(1) i(2)
    by (simp add: handle_ok_def new_controller_chan_def)
  then show ?thesis using assms i l by (auto simp: th_open_def handle_ok_def chans_ok_def chan_ok_new)
qed

lemma handle_ok_deliver: "handle_ok h \<Longrightarrow> handle_ok (th_deliver f h)"
  using map_ok_deliver [of "th_channels h" "th_tasks h" controller_frame f] length_remove_key [of "channel_id f" "th_channels h"]
    chans_ok_update [of "th_tasks h" "controller_frame f"] chan_ok_frame(1)
  by (auto simp: handle_ok_def th_deliver_def deliver_def Let_def split: option.splits prod.splits)

lemma first_report_bound:
  "length rep \<le> MAX_REPORTED_OPEN_ERRORS \<Longrightarrow> length (snd (first_report_at m now rep)) \<le> MAX_REPORTED_OPEN_ERRORS"
proof -
  assume l: "length rep \<le> MAX_REPORTED_OPEN_ERRORS"
  define live where "live = filter (\<lambda>(_, last). elapsed now last < REPORT_AGAIN_AFTER) rep"
  have len: "length live \<le> length rep" by (simp add: live_def)
  have "length (remove_key m live) < length live" if "map_of live m \<noteq> None"
    using that by (auto simp: remove_key_def map_of_eq_None_iff intro!: length_filter_less)
  then show ?thesis
    using l len by (auto simp: first_report_at_def live_def [symmetric] Let_def)
qed

lemma handle_ok_frame: "handle_ok h \<Longrightarrow> handle_ok (snd (on_frame now f h))"
  using first_report_bound handle_ok_deliver [of h f]
  by (cases f) (auto simp: Let_def handle_ok_def split: prod.splits, metis snd_conv)

lemma handle_ok_forget: "handle_ok h \<Longrightarrow> handle_ok (forget i h)"
  using map_ok_remove [of "th_channels h" "th_tasks h" i _ unlist] length_remove_key [of i "th_channels h"]
  by (auto simp: handle_ok_def forget_def chans_ok_update chan_ok_unlist split: option.splits)

lemma handle_ok_task:
  assumes "handle_ok h" "th_task r ev h = Some h'"
  shows "handle_ok h'"
proof -
  let ?ts = "th_tasks h"
  obtain ch outs where r: "r < length ?ts"
    and t: "chan_task (tk_id (?ts ! r)) (tk_target (?ts ! r)) ev (tk_chan (?ts ! r)) = Some (ch, outs)"
    using assms(2) by (auto simp: th_task_def Let_def split: if_splits option.splits)
  define g where "g = h\<lparr>th_tasks := update_chan r (\<lambda>_. ch) ?ts,
    th_data := th_data h @ ordered_outs outs, th_control := th_control h @ control_outs outs\<rparr>"
  have "tx_alive (tk_chan (update_chan r (\<lambda>_. ch) ?ts ! s)) = tx_alive (tk_chan (?ts ! s))"
    "tk_id (update_chan r (\<lambda>_. ch) ?ts ! s) = tk_id (?ts ! s)" for s
    using r task_tx_alive [OF t] by (cases "r = s"; simp add: update_chan_same update_chan_other)+
  then have "map_ok (th_channels h) (update_chan r (\<lambda>_. ch) ?ts)"
    using assms(1) by (simp add: handle_ok_def map_ok_def)
  moreover have "chan_ok ch" using chan_ok_task [OF t] assms(1) r by (simp add: handle_ok_def chans_ok_def)
  ultimately have "handle_ok g"
    using assms(1) chans_ok_update [of ?ts "\<lambda>_. ch" r] by (simp add: handle_ok_def g_def)
  then show ?thesis
    using assms(2) r t handle_ok_forget [of g] by (auto simp: th_task_def g_def [symmetric] Let_def)
qed

lemma handle_ok_close_all: "handle_ok h \<Longrightarrow> handle_ok (th_close_all h)"
  using map_ok_filter [of "th_channels h" "th_tasks h" "\<lambda>_. False"]
  by (simp add: handle_ok_def th_close_all_def chans_ok_drop)

lemma handle_ok_turn:
  assumes "handle_ok h" "tunnel_turn now ev h = Some (Inr (rep, h'))"
  shows "handle_ok h'"
proof (cases ev)
  case (ReadFrame f)
  then show ?thesis using assms handle_ok_frame [OF assms(1), of now f] by (simp add: tunnel_turn_def)
qed (use assms in \<open>auto simp: tunnel_turn_def after_send_def handle_ok_def split: list.splits option.splits\<close>)

lemma new_handle_ok: "handle_ok new_handle"
  by (simp add: new_handle_def handle_ok_def map_ok_def chans_ok_def)

text \<open>A reason is shown only after it has been quiet for \<open>REPORT_AGAIN_AFTER\<close>.\<close>

lemma report_after_quiet:
  assumes "first_report_at m now rep = (Some r, rep')" "distinct (map fst rep)" "map_of rep m = Some seen"
  shows "r = m \<and> REPORT_AGAIN_AFTER \<le> elapsed now seen"
proof (rule ccontr)
  assume "\<not> ?thesis"
  moreover have "r = m" using assms(1) by (auto simp: first_report_at_def Let_def split: if_splits)
  ultimately have "(m, seen) \<in> set (filter (\<lambda>(_, last). elapsed now last < REPORT_AGAIN_AFTER) rep)"
    using map_of_SomeD [OF assms(3)] by simp
  then have "map_of (filter (\<lambda>(_, last). elapsed now last < REPORT_AGAIN_AFTER) rep) m \<noteq> None"
    by (auto simp: map_of_eq_None_iff image_iff)
  then show False using assms(1) by (simp add: first_report_at_def Let_def split: if_splits)
qed

text \<open>When a task ends, it removes its id, not its own entry. Should the entry be gone already and the id
  have been given to a younger channel (the counter wraps around), the younger channel is dropped.\<close>

lemma late_removal_drops_younger:
  assumes "map_of (th_channels h) i = Some r"
  shows "map_of (th_channels (forget i h)) i = None"
    and "r < length (th_tasks h) \<Longrightarrow> \<not> tx_alive (tk_chan (th_tasks (forget i h) ! r))"
  using assms by (simp_all add: forget_def map_of_remove_key update_chan_same)

section \<open>The tunnel of a listener\<close>

datatype tunnel_state = Unset | Muxed nat | Legacy | Failed

datatype claim = Claimed | ClaimMuxed nat | ClaimLegacy

text \<open>\<open>Published\<close>: \<open>set_muxed\<close> has stored the handle and not yet spawned its loop. \<open>Ended\<close>: the
  loop has closed all channels and reset the state; \<open>Dropped\<close>: its queues are gone.\<close>

datatype loop_phase = Published | Running | Ended | Dropped

record tunnel =
  t_state :: tunnel_state
  t_loops :: "(tunnel_handle \<times> loop_phase) list"
  establishing :: bool

definition tunnel_new :: tunnel where
  "tunnel_new = \<lparr>t_state = Unset, t_loops = [], establishing = False\<rparr>"

definition claim_tunnel :: "tunnel \<Rightarrow> claim" where
  "claim_tunnel t =
     (case t_state t of Unset \<Rightarrow> Claimed | Failed \<Rightarrow> Claimed | Muxed n \<Rightarrow> ClaimMuxed n | Legacy \<Rightarrow> ClaimLegacy)"

definition publish :: "tunnel \<Rightarrow> tunnel" where
  "publish t = t\<lparr>t_loops := t_loops t @ [(new_handle, Published)], t_state := Muxed (length (t_loops t))\<rparr>"

definition spawn_loop :: "nat \<Rightarrow> tunnel \<Rightarrow> tunnel" where
  "spawn_loop n t = t\<lparr>t_loops := (t_loops t)[n := (fst (t_loops t ! n), Running)]\<rparr>"

definition set_state :: "tunnel_state \<Rightarrow> tunnel \<Rightarrow> tunnel" where
  "set_state s t = t\<lparr>t_state := s, establishing := False\<rparr>"

definition end_loop :: "nat \<Rightarrow> tunnel \<Rightarrow> tunnel" where
  "end_loop n t = t\<lparr>t_loops := (t_loops t)[n := (th_close_all (fst (t_loops t ! n)), Ended)], t_state := Unset\<rparr>"

definition drop_loop :: "nat \<Rightarrow> tunnel \<Rightarrow> tunnel" where
  "drop_loop n t = t\<lparr>t_loops := (t_loops t)[n := ((fst (t_loops t ! n))\<lparr>th_gone := True\<rparr>, Dropped)]\<rparr>"

definition set_handle :: "nat \<Rightarrow> tunnel_handle \<Rightarrow> tunnel \<Rightarrow> tunnel" where
  "set_handle n h t = t\<lparr>t_loops := (t_loops t)[n := (h, snd (t_loops t ! n))]\<rparr>"

text \<open>A step of a listener with multiplexing on: an accepted connection claims the tunnel and joins it,
  or logs in for a new one (\<open>establish_tunnel\<close>, whose outcomes are \<open>muxed\<close>, \<open>legacy\<close>, \<open>failed\<close>);
  the loops and the channel tasks run beside it. A handle once claimed may be opened on even after
  its loop has ended, so \<open>join\<close> asks for no state.\<close>

inductive ln_step :: "string \<Rightarrow> int \<Rightarrow> tunnel \<Rightarrow> tunnel \<Rightarrow> bool" for host port where
  claim_it: "\<not> establishing t \<Longrightarrow> claim_tunnel t = Claimed \<Longrightarrow> ln_step host port t (t\<lparr>establishing := True\<rparr>)"
| join: "n < length (t_loops t) \<Longrightarrow> th_open host port pre (fst (t_loops t ! n)) = Some (Inr h) \<Longrightarrow>
    ln_step host port t (set_handle n h t)"
| muxed: "establishing t \<Longrightarrow> \<not> (\<exists>n<length (t_loops t). snd (t_loops t ! n) = Published) \<Longrightarrow> ln_step host port t (publish t)"
| spawned: "establishing t \<Longrightarrow> n < length (t_loops t) \<Longrightarrow> snd (t_loops t ! n) = Published \<Longrightarrow>
    ln_step host port t ((spawn_loop n t)\<lparr>establishing := False\<rparr>)"
| legacy: "establishing t \<Longrightarrow> \<not> (\<exists>n<length (t_loops t). snd (t_loops t ! n) = Published) \<Longrightarrow>
    ln_step host port t (set_state Legacy t)"
| failed: "establishing t \<Longrightarrow> \<not> (\<exists>n<length (t_loops t). snd (t_loops t ! n) = Published) \<Longrightarrow>
    ln_step host port t (set_state Failed t)"
| turn: "n < length (t_loops t) \<Longrightarrow> snd (t_loops t ! n) = Running \<Longrightarrow>
    tunnel_turn now ev (fst (t_loops t ! n)) = Some (Inr (rep, h)) \<Longrightarrow> ln_step host port t (set_handle n h t)"
| ended: "n < length (t_loops t) \<Longrightarrow> snd (t_loops t ! n) = Running \<Longrightarrow>
    tunnel_turn now ev (fst (t_loops t ! n)) = Some (Inl reason) \<Longrightarrow> ln_step host port t (end_loop n t)"
| dropped: "n < length (t_loops t) \<Longrightarrow> snd (t_loops t ! n) = Ended \<Longrightarrow> ln_step host port t (drop_loop n t)"
| chan_turn: "n < length (t_loops t) \<Longrightarrow> th_task r ev (fst (t_loops t ! n)) = Some h \<Longrightarrow>
    ln_step host port t (set_handle n h t)"

inductive ln_reach :: "string \<Rightarrow> int \<Rightarrow> tunnel \<Rightarrow> bool" for host port where
  start: "ln_reach host port tunnel_new"
| step: "ln_reach host port t \<Longrightarrow> ln_step host port t t' \<Longrightarrow> ln_reach host port t'"

lemma flags_deliver [simp]: "th_gone (th_deliver f h) = th_gone h" "th_teardown (th_deliver f h) = th_teardown h"
  by (simp_all add: th_deliver_def split: prod.splits)

lemma flags_frame [simp]:
  "th_gone (snd (on_frame now f h)) = th_gone h" "th_teardown (snd (on_frame now f h)) = th_teardown h"
  by (cases f; simp add: Let_def split: prod.splits)+

lemma flags_open:
  "th_open host port pre h = Some (Inr h') \<Longrightarrow> th_gone h' = th_gone h \<and> th_teardown h' = th_teardown h"
  by (auto simp: th_open_def split: if_splits option.splits)

lemma flags_task: "th_task r ev h = Some h' \<Longrightarrow> th_gone h' = th_gone h \<and> th_teardown h' = th_teardown h"
  by (auto simp: th_task_def forget_def Let_def split: if_splits option.splits)

lemma flags_turn:
  assumes "tunnel_turn now ev h = Some (Inr (rep, h'))"
  shows "th_gone h' = th_gone h \<and> th_teardown h' = th_teardown h"
proof (cases ev)
  case (ReadFrame f)
  then show ?thesis using assms flags_frame [of now f h] by (simp add: tunnel_turn_def)
qed (use assms in \<open>auto simp: tunnel_turn_def after_send_def split: list.splits option.splits\<close>)

definition loop_live :: "tunnel \<Rightarrow> nat \<Rightarrow> bool" where
  "loop_live t n = (n < length (t_loops t) \<and> (snd (t_loops t ! n) = Published \<or> snd (t_loops t ! n) = Running))"

definition loop_ok :: "tunnel_handle \<times> loop_phase \<Rightarrow> bool" where
  "loop_ok l = (handle_ok (fst l) \<and> (th_gone (fst l) \<longleftrightarrow> snd l = Dropped) \<and>
               (snd l = Ended \<or> snd l = Dropped \<longrightarrow> th_teardown (fst l)))"

definition tunnel_ok :: "tunnel \<Rightarrow> bool" where
  "tunnel_ok t =
     ((\<forall>n. loop_live t n \<longleftrightarrow> t_state t = Muxed n) \<and>
      (\<forall>n<length (t_loops t). snd (t_loops t ! n) = Published \<longrightarrow> establishing t) \<and>
      (establishing t \<longrightarrow> (\<forall>n<length (t_loops t). snd (t_loops t ! n) \<noteq> Running)) \<and>
      (\<forall>l\<in>set (t_loops t). loop_ok l))"

lemma tunnel_ok_update:
  assumes "tunnel_ok t" "n < length (t_loops t)" "loop_ok l"
    and "snd l = snd (t_loops t ! n) \<or> snd (t_loops t ! n) = Ended \<and> snd l = Dropped"
  shows "tunnel_ok (t\<lparr>t_loops := (t_loops t)[n := l]\<rparr>)"
proof -
  let ?t = "t\<lparr>t_loops := (t_loops t)[n := l]\<rparr>"
  have s: "snd (t_loops ?t ! k) = p \<longleftrightarrow> snd (t_loops t ! k) = p" if "p = Published \<or> p = Running" for k p
    using assms(2,4) that by (cases "k = n") auto
  have "\<forall>x\<in>set (t_loops ?t). loop_ok x"
    using assms(1,3) set_update_subset_insert [of "t_loops t" n l] by (auto simp: tunnel_ok_def)
  then show ?thesis using assms(1) s unfolding tunnel_ok_def loop_live_def by simp
qed

lemma tunnel_ok_set_handle:
  assumes "tunnel_ok t" "n < length (t_loops t)" "handle_ok h"
    and "th_gone h = th_gone (fst (t_loops t ! n)) \<and> th_teardown h = th_teardown (fst (t_loops t ! n))"
  shows "tunnel_ok (set_handle n h t)"
  unfolding set_handle_def
proof (rule tunnel_ok_update [OF assms(1,2)])
  have "loop_ok (t_loops t ! n)" using assms(1,2) by (simp add: tunnel_ok_def)
  then show "loop_ok (h, snd (t_loops t ! n))" using assms(3,4) by (simp add: loop_ok_def)
qed simp

lemma loop_okD: "tunnel_ok t \<Longrightarrow> n < length (t_loops t) \<Longrightarrow> loop_ok (t_loops t ! n)"
  by (simp add: tunnel_ok_def)

lemma tunnel_ok_phase:
  assumes "tunnel_ok t" "n < length (t_loops t)" "loop_ok l"
    and "t' = t\<lparr>t_loops := (t_loops t)[n := l], t_state := s, establishing := e\<rparr>"
    and "\<And>k. k < length (t_loops t) \<Longrightarrow> k \<noteq> n \<Longrightarrow> \<not> loop_live t k"
    and "s = (if snd l = Published \<or> snd l = Running then Muxed n else Unset)"
    and "snd l \<noteq> Published" "e \<Longrightarrow> snd l \<noteq> Running"
  shows "tunnel_ok t'"
proof -
  have s: "snd (t_loops t' ! k) = (if k = n then snd l else snd (t_loops t ! k))" for k
    using assms(2,4) by simp
  have live: "loop_live t' k \<longleftrightarrow> k = n \<and> (snd l = Published \<or> snd l = Running)" for k
    using assms(2,4) assms(5) [of k] s [of k] by (auto simp: loop_live_def)
  have "\<forall>x\<in>set (t_loops t'). loop_ok x"
    using assms(1,3,4) set_update_subset_insert [of "t_loops t" n l] by (auto simp: tunnel_ok_def)
  moreover have "k < length (t_loops t) \<Longrightarrow> k \<noteq> n \<Longrightarrow> snd (t_loops t ! k) \<noteq> Published \<and> snd (t_loops t ! k) \<noteq> Running" for k
    using assms(5) [of k] by (simp add: loop_live_def)
  ultimately show ?thesis
    unfolding tunnel_ok_def live using s assms(4,6-8) by auto
qed

lemma not_established:
  assumes "tunnel_ok t" "establishing t" "\<not> (\<exists>n<length (t_loops t). snd (t_loops t ! n) = Published)"
  shows "\<not> loop_live t n" "t_state t \<noteq> Muxed n"
  using assms by (auto simp: tunnel_ok_def loop_live_def)

lemma one_live: "tunnel_ok t \<Longrightarrow> loop_live t n \<Longrightarrow> loop_live t k \<Longrightarrow> k = n"
  by (simp add: tunnel_ok_def)

lemma tunnel_ok_publish:
  assumes "tunnel_ok t" "establishing t" "\<not> (\<exists>n<length (t_loops t). snd (t_loops t ! n) = Published)"
  shows "tunnel_ok (publish t)"
proof -
  have "loop_live (publish t) k \<longleftrightarrow> k = length (t_loops t)" for k
    using not_established(1) [OF assms, of k] by (auto simp: loop_live_def publish_def nth_append less_Suc_eq)
  moreover have "loop_ok (new_handle, Published)"
    using new_handle_ok by (simp add: loop_ok_def new_handle_def)
  ultimately show ?thesis
    using assms(1,2) unfolding tunnel_ok_def by (auto simp: publish_def nth_append less_Suc_eq)
qed

lemma tunnel_ok_step:
  assumes "ln_step host port t t'" "tunnel_ok t"
  shows "tunnel_ok t'"
  using assms(1)
proof cases
  case claim_it
  then have "\<And>n. t_state t \<noteq> Muxed n" by (auto simp: claim_tunnel_def split: tunnel_state.splits)
  then show ?thesis using claim_it assms(2) by (auto simp: tunnel_ok_def loop_live_def)
next
  case (join n pre h)
  then show ?thesis
    using tunnel_ok_set_handle [OF assms(2) join(2)] handle_ok_open [OF _ join(3)] flags_open [OF join(3)] loop_okD [OF assms(2) join(2)]
    by (simp add: loop_ok_def)
next
  case muxed
  then show ?thesis using tunnel_ok_publish [OF assms(2)] by simp
next
  case (spawned n)
  then have "loop_live t n" by (simp add: loop_live_def)
  then have others: "k \<noteq> n \<Longrightarrow> \<not> loop_live t k" for k using one_live [OF assms(2)] by blast
  show ?thesis
    by (rule tunnel_ok_phase [OF assms(2) spawned(3), of "(fst (t_loops t ! n), Running)"])
       (use spawned others loop_okD [OF assms(2) spawned(3)] \<open>loop_live t n\<close> assms(2) in
         \<open>auto simp: loop_ok_def spawn_loop_def tunnel_ok_def\<close>)
next
  case legacy
  then show ?thesis using assms(2) not_established [OF assms(2) legacy(2,3)]
    by (auto simp: tunnel_ok_def set_state_def loop_live_def)
next
  case failed
  then show ?thesis using assms(2) not_established [OF assms(2) failed(2,3)]
    by (auto simp: tunnel_ok_def set_state_def loop_live_def)
next
  case (turn n now ev rep h)
  then show ?thesis
    using tunnel_ok_set_handle [OF assms(2) turn(2)] handle_ok_turn [OF _ turn(4)] flags_turn [OF turn(4)] loop_okD [OF assms(2) turn(2)]
    by (simp add: loop_ok_def)
next
  case (ended n now ev reason)
  then have "loop_live t n" by (simp add: loop_live_def)
  then have others: "k \<noteq> n \<Longrightarrow> \<not> loop_live t k" for k using one_live [OF assms(2)] by blast
  show ?thesis
    by (rule tunnel_ok_phase [OF assms(2) ended(2), of "(th_close_all (fst (t_loops t ! n)), Ended)", where t' = t' and s = Unset and e = "establishing t"])
       (use ended others loop_okD [OF assms(2) ended(2)] handle_ok_close_all in
         \<open>auto simp: loop_ok_def end_loop_def th_close_all_def\<close>)
next
  case (dropped n)
  then show ?thesis
    using tunnel_ok_update [OF assms(2) dropped(2), of "((fst (t_loops t ! n))\<lparr>th_gone := True\<rparr>, Dropped)"]
      loop_okD [OF assms(2) dropped(2)] by (simp add: drop_loop_def loop_ok_def handle_ok_def)
next
  case (chan_turn n r ev h)
  then show ?thesis
    using tunnel_ok_set_handle [OF assms(2) chan_turn(2)] handle_ok_task [OF _ chan_turn(3)] flags_task [OF chan_turn(3)]
      loop_okD [OF assms(2) chan_turn(2)]
    by (simp add: loop_ok_def)
qed

lemma ln_reach_ok: "ln_reach host port t \<Longrightarrow> tunnel_ok t"
proof (induction rule: ln_reach.induct)
  case start
  then show ?case by (simp add: tunnel_ok_def tunnel_new_def loop_live_def)
next
  case (step t t')
  then show ?case using tunnel_ok_step by blast
qed

text \<open>C16. Opening a channel always returns. The loop that draws ids from the wrapping counter ends, after
  at most one draw more than there are channels up, with an id that no channel has; so \<open>open\<close>
  either fails with one of its two errors or lists one new channel under a fresh id, whatever the
  counter and the map.\<close>

theorem open_always_returns:
  "\<exists>r. th_open host port pre h = Some r \<and>
     (\<forall>h'. r = Inr h' \<longrightarrow>
        (\<exists>i k. th_channels h' = (i, length (th_tasks h)) # th_channels h \<and> map_of (th_channels h) i = None \<and>
               k \<le> length (th_channels h) \<and> i = next_id h + of_nat k \<and> next_id h' = i + 1 \<and>
               length (th_channels h') \<le> MAX_CHANNELS))"
proof (cases "th_gone h \<or> MAX_CHANNELS \<le> length (th_channels h)")
  case True
  then show ?thesis by (auto simp: th_open_def)
next
  case False
  then show ?thesis using open_id [of h] by (auto simp: th_open_def)
qed

text \<open>A witness: the counter stands at the largest id, which is taken, as is the one it wraps to.\<close>

theorem open_always_returns_witness:
  "let h = new_handle\<lparr>next_id := 2147483647, th_channels := [(2147483647, 0), (2147483648, 1)]\<rparr> in
   \<exists>h'. th_open ''db'' 5432 [] h = Some (Inr h') \<and> map fst (th_channels h') = [2147483649, 2147483647, 2147483648] \<and>
        length (th_channels h') \<le> MAX_CHANNELS"
proof -
  let ?h = "new_handle\<lparr>next_id := 2147483647, th_channels := [(2147483647, 0), (2147483648, 1)]\<rparr>"
  have "\<exists>h'. th_open ''db'' 5432 [] ?h = Some (Inr h') \<and> map fst (th_channels h') = [2147483649, 2147483647, 2147483648]"
    by (simp add: th_open_def new_handle_def MAX_CHANNELS_def alloc_id.simps)
  then show ?thesis
    using open_always_returns [of "''db''" 5432 "[]" ?h] unfolding Let_def by auto
qed

text \<open>C15. A listener never joins a dead tunnel and never runs two: whatever the interleaving of its
  accepts with the tunnel loops, a claim that finds a tunnel finds one whose loop has not ended
  and whose queues still exist; at most one loop is live; and when the loop has ended, the next
  claim establishes again (unless the peer turned out to have no multiplexing). The channels
  of an ended loop have all been told to stop.\<close>

theorem listener_joins_live_tunnel:
  assumes "ln_reach host port t"
  shows "(\<forall>n. claim_tunnel t = ClaimMuxed n \<longleftrightarrow> loop_live t n) \<and>
         (\<forall>n. loop_live t n \<longrightarrow> \<not> th_gone (fst (t_loops t ! n))) \<and>
         (\<forall>n<length (t_loops t). \<not> loop_live t n \<longrightarrow> th_teardown (fst (t_loops t ! n))) \<and>
         ((\<forall>n. \<not> loop_live t n) \<longrightarrow> claim_tunnel t = Claimed \<or> t_state t = Legacy)"
proof -
  have ok: "tunnel_ok t" by (rule ln_reach_ok [OF assms])
  have c: "claim_tunnel t = ClaimMuxed n \<longleftrightarrow> t_state t = Muxed n" for n
    by (simp add: claim_tunnel_def split: tunnel_state.splits)
  have l: "loop_live t n \<longleftrightarrow> t_state t = Muxed n" for n using ok by (simp add: tunnel_ok_def)
  have flags: "(th_gone (fst (t_loops t ! n)) \<longleftrightarrow> snd (t_loops t ! n) = Dropped) \<and>
      (snd (t_loops t ! n) = Ended \<or> snd (t_loops t ! n) = Dropped \<longrightarrow> th_teardown (fst (t_loops t ! n)))"
    if "n < length (t_loops t)" for n
    using loop_okD [OF ok that] by (simp add: loop_ok_def)
  have "loop_live t n \<longrightarrow> \<not> th_gone (fst (t_loops t ! n))" for n
    using flags [of n] by (auto simp: loop_live_def)
  moreover have "n < length (t_loops t) \<Longrightarrow> \<not> loop_live t n \<Longrightarrow> th_teardown (fst (t_loops t ! n))" for n
    using flags [of n] by (cases "snd (t_loops t ! n)") (auto simp: loop_live_def)
  moreover have "(\<forall>n. t_state t \<noteq> Muxed n) \<longrightarrow> claim_tunnel t = Claimed \<or> t_state t = Legacy"
    by (cases "t_state t") (simp_all add: claim_tunnel_def)
  ultimately show ?thesis using c l by blast
qed

text \<open>A witness: a tunnel is established, runs, and its loop ends on a timeout.\<close>

theorem listener_joins_live_tunnel_witness:
  "let t = (spawn_loop 0 (publish (tunnel_new\<lparr>establishing := True\<rparr>)))\<lparr>establishing := False\<rparr> in
   claim_tunnel t = ClaimMuxed 0 \<and> loop_live t 0 \<and> claim_tunnel (end_loop 0 t) = Claimed \<and>
   th_teardown (fst (t_loops (end_loop 0 t) ! 0))"
proof -
  let ?t1 = "publish (tunnel_new\<lparr>establishing := True\<rparr>)"
  let ?t2 = "(spawn_loop 0 ?t1)\<lparr>establishing := False\<rparr>"
  have "ln_reach ''db'' 5432 (tunnel_new\<lparr>establishing := True\<rparr>)"
    by (rule ln_reach.step [OF ln_reach.start], rule ln_step.claim_it) (simp_all add: tunnel_new_def claim_tunnel_def)
  then have "ln_reach ''db'' 5432 ?t1"
    by (rule ln_reach.step, intro ln_step.muxed) (simp_all add: tunnel_new_def)
  then have r2: "ln_reach ''db'' 5432 ?t2"
    by (rule ln_reach.step, intro ln_step.spawned) (simp_all add: tunnel_new_def publish_def)
  then have r3: "ln_reach ''db'' 5432 (end_loop 0 ?t2)"
    by (rule ln_reach.step, intro ln_step.ended [where ev = ReadTimeout])
       (simp_all add: tunnel_new_def publish_def spawn_loop_def tunnel_turn_def)
  have c: "claim_tunnel ?t2 = ClaimMuxed 0" "claim_tunnel (end_loop 0 ?t2) = Claimed" "0 < length (t_loops (end_loop 0 ?t2))"
    by (simp_all add: claim_tunnel_def tunnel_new_def publish_def spawn_loop_def end_loop_def)
  then have "\<not> loop_live (end_loop 0 ?t2) 0" using listener_joins_live_tunnel [OF r3] by auto
  then show ?thesis
    using listener_joins_live_tunnel [OF r2] listener_joins_live_tunnel [OF r3] c unfolding Let_def by blast
qed

end
