(* ===== verification/Id_Whitelist.thy ===== *)
theory Id_Whitelist
  imports Rust_Str
begin

text \<open>
  The whitelist of controller ids (\<^verbatim>\<open>src/client/src/server/connection.rs\<close>, \<open>wildcard_match\<close> and
  \<open>id_whitelist_allows\<close>). The matcher is the source's loop with one restart point; it is shown to end
  and to decide the pattern's meaning. A Rust \<open>char\<close> is a code point, a natural number;
  \<open>norm\<close> stands for \<open>trim().to_lowercase().chars()\<close>, whose Unicode tables are a parameter.
\<close>

section \<open>The matcher\<close>

type_synonym uchar = nat

definition star_char :: uchar where "star_char = 42"
definition any_char :: uchar where "any_char = 63"

text \<open>The first loop of \<open>wildcard_match\<close>: \<open>None\<close> would mean that it does not end, \<open>Some None\<close> is the
  early \<open>return false\<close>, and otherwise the loop leaves with \<open>pi\<close>.\<close>

partial_function (option) wildcard_loop ::
    "uchar list \<Rightarrow> uchar list \<Rightarrow> nat \<Rightarrow> nat \<Rightarrow> (nat \<times> nat) option \<Rightarrow> nat option option" where
  "wildcard_loop p t pidx tidx star =
     (if tidx < length t then
        if pidx < length p \<and> p ! pidx = star_char
        then wildcard_loop p t (pidx + 1) tidx (Some (pidx + 1, tidx))
        else if pidx < length p \<and> (p ! pidx = any_char \<or> p ! pidx = t ! tidx)
        then wildcard_loop p t (pidx + 1) (tidx + 1) star
        else (case star of
                Some (sp, st) \<Rightarrow> wildcard_loop p t sp (st + 1) (Some (sp, st + 1))
              | None \<Rightarrow> Some None)
      else Some (Some pidx))"

text \<open>The second loop skips the stars that are left.\<close>

fun skip_stars :: "uchar list \<Rightarrow> uchar list" where
  "skip_stars [] = []"
| "skip_stars (c # p) = (if c = star_char then skip_stars p else c # p)"

definition wildcard_match :: "(string \<Rightarrow> uchar list) \<Rightarrow> string \<Rightarrow> string \<Rightarrow> bool option" where
  "wildcard_match norm pattern txt =
     (let p = norm pattern; t = norm txt in
      map_option (\<lambda>r. case r of None \<Rightarrow> False | Some pidx \<Rightarrow> skip_stars (drop pidx p) = [])
        (wildcard_loop p t 0 0 None))"

section \<open>What a pattern means\<close>

fun glob :: "uchar list \<Rightarrow> uchar list \<Rightarrow> bool" where
  "glob [] t = (t = [])"
| "glob (c # p) [] = (c = star_char \<and> glob p [])"
| "glob (c # p) (x # t) =
     (if c = star_char then glob p (x # t) \<or> glob (c # p) t
      else (c = any_char \<or> c = x) \<and> glob p t)"

lemma glob_star: "glob (star_char # p) t \<longleftrightarrow> (\<exists>k\<le>length t. glob p (drop k t))"
proof (induction t)
  case (Cons x t)
  have "(\<exists>k\<le>length (x # t). glob p (drop k (x # t))) \<longleftrightarrow> glob p (x # t) \<or> (\<exists>k\<le>length t. glob p (drop k t))"
    by (metis Suc_le_mono drop0 drop_Suc_Cons length_Cons not0_implies_Suc zero_le)
  then show ?case using Cons by simp
qed simp

lemma glob_star_drop:
  assumes "j \<le> length t"
  shows "glob (star_char # q) (drop j t) \<longleftrightarrow> (\<exists>k. j \<le> k \<and> k \<le> length t \<and> glob q (drop k t))"
proof
  assume "glob (star_char # q) (drop j t)"
  then obtain i where "i \<le> length t - j" "glob q (drop (i + j) t)" by (auto simp: glob_star)
  then show "\<exists>k. j \<le> k \<and> k \<le> length t \<and> glob q (drop k t)" using assms by (intro exI [of _ "i + j"]) simp
next
  assume "\<exists>k. j \<le> k \<and> k \<le> length t \<and> glob q (drop k t)"
  then obtain k where "j \<le> k" "k \<le> length t" "glob q (drop k t)" by blast
  then show "glob (star_char # q) (drop j t)" by (auto simp: glob_star intro!: exI [of _ "k - j"])
qed

lemma glob_Nil: "glob p [] \<longleftrightarrow> skip_stars p = []"
  by (induction p) auto

lemma drop_nth_Cons: "i < length xs \<Longrightarrow> drop i xs = xs ! i # drop (Suc i) xs"
  by (simp add: Cons_nth_drop_Suc)

text \<open>A part of the pattern without a star consumes exactly its own length.\<close>

lemma glob_literal:
  assumes "glob (drop sp p) (drop k t)" "sp \<le> pidx" "pidx \<le> length p" "k \<le> length t"
    and "\<forall>i. sp \<le> i \<and> i < pidx \<longrightarrow> p ! i \<noteq> star_char"
  shows "k + (pidx - sp) \<le> length t \<and> glob (drop pidx p) (drop (k + (pidx - sp)) t)"
  using assms
proof (induction "pidx - sp" arbitrary: sp k)
  case 0
  then show ?case by simp
next
  case (Suc n)
  have sp: "sp < length p" "p ! sp \<noteq> star_char" using Suc by auto
  then have k: "k < length t" using Suc.prems(1) drop_nth_Cons [of sp p] by (cases "k < length t") auto
  then have "glob (drop (Suc sp) p) (drop (Suc k) t)"
    using Suc.prems(1) sp drop_nth_Cons [of sp p] drop_nth_Cons [of k t] by simp
  from Suc.hyps(1) [OF _ this] Suc.prems Suc.hyps(2) k
  have "Suc k + (pidx - Suc sp) \<le> length t \<and> glob (drop pidx p) (drop (Suc k + (pidx - Suc sp)) t)" by auto
  moreover have "Suc k + (pidx - Suc sp) = k + (pidx - sp)" using Suc.hyps(2) by simp
  ultimately show ?case by metis
qed

section \<open>The loop decides the pattern\<close>

text \<open>The invariant: the pattern matches if the rest matches here, or if the last star takes more.
  Since the last star, the same number of characters of both strings were passed, without a star.\<close>

definition restart_ok :: "uchar list \<Rightarrow> uchar list \<Rightarrow> nat \<Rightarrow> nat \<Rightarrow> (nat \<times> nat) option \<Rightarrow> bool" where
  "restart_ok p t pidx tidx star =
     (pidx \<le> length p \<and> tidx \<le> length t \<and>
      (case star of
         None \<Rightarrow> True
       | Some (sp, st) \<Rightarrow> sp \<le> pidx \<and> st \<le> tidx \<and> tidx - st = pidx - sp \<and>
                          (\<forall>i. sp \<le> i \<and> i < pidx \<longrightarrow> p ! i \<noteq> star_char)))"

definition rest_matches :: "uchar list \<Rightarrow> uchar list \<Rightarrow> nat \<Rightarrow> nat \<Rightarrow> (nat \<times> nat) option \<Rightarrow> bool" where
  "rest_matches p t pidx tidx star =
     (glob (drop pidx p) (drop tidx t) \<or>
      (case star of None \<Rightarrow> False | Some (sp, st) \<Rightarrow> \<exists>k. st < k \<and> k \<le> length t \<and> glob (drop sp p) (drop k t)))"

definition outcome :: "uchar list \<Rightarrow> nat option \<Rightarrow> bool" where
  "outcome p r = (case r of None \<Rightarrow> False | Some pidx \<Rightarrow> skip_stars (drop pidx p) = [])"

text \<open>A new star makes the old one superfluous.\<close>

lemma new_star:
  assumes "restart_ok p t pidx tidx star" "pidx < length p" "p ! pidx = star_char" "tidx < length t"
  shows "rest_matches p t pidx tidx star = rest_matches p t (pidx + 1) tidx (Some (pidx + 1, tidx))"
    and "restart_ok p t (pidx + 1) tidx (Some (pidx + 1, tidx))"
proof -
  have p: "drop pidx p = star_char # drop (pidx + 1) p" using assms(2,3) drop_nth_Cons [of pidx p] by simp
  have here: "glob (drop pidx p) (drop j t) \<longleftrightarrow> (\<exists>k. j \<le> k \<and> k \<le> length t \<and> glob (drop (pidx + 1) p) (drop k t))"
    if "j \<le> length t" for j
    unfolding p by (rule glob_star_drop [OF that])
  have old: "glob (drop pidx p) (drop tidx t)"
    if "star = Some (sp, st)" "st < k" "k \<le> length t" "glob (drop sp p) (drop k t)" for sp st k
  proof -
    let ?j = "k + (pidx - sp)"
    have "?j \<le> length t \<and> glob (drop pidx p) (drop ?j t)"
      by (rule glob_literal) (use assms that in \<open>auto simp: restart_ok_def\<close>)
    then obtain i where "?j \<le> i" "i \<le> length t" "glob (drop (pidx + 1) p) (drop i t)" using here by blast
    moreover have "tidx \<le> ?j" using assms(1) that by (auto simp: restart_ok_def)
    ultimately show ?thesis using here [of tidx] assms(4) by (meson le_trans less_imp_le)
  qed
  have "rest_matches p t pidx tidx star \<longleftrightarrow> glob (drop pidx p) (drop tidx t)"
    using old by (auto simp: rest_matches_def split: option.splits)
  also have "\<dots> \<longleftrightarrow> rest_matches p t (pidx + 1) tidx (Some (pidx + 1, tidx))"
    using here [of tidx] assms(4) by (auto simp: rest_matches_def le_less)
  finally show "rest_matches p t pidx tidx star = rest_matches p t (pidx + 1) tidx (Some (pidx + 1, tidx))" .
  show "restart_ok p t (pidx + 1) tidx (Some (pidx + 1, tidx))"
    using assms by (simp add: restart_ok_def)
qed

lemma same_char:
  assumes "restart_ok p t pidx tidx star" "pidx < length p" "p ! pidx \<noteq> star_char" "tidx < length t"
    and "p ! pidx = any_char \<or> p ! pidx = t ! tidx"
  shows "rest_matches p t pidx tidx star = rest_matches p t (pidx + 1) (tidx + 1) star"
    and "restart_ok p t (pidx + 1) (tidx + 1) star"
proof -
  have "glob (drop pidx p) (drop tidx t) = glob (drop (pidx + 1) p) (drop (tidx + 1) t)"
    using assms(2-5) drop_nth_Cons [of pidx p] drop_nth_Cons [of tidx t] by auto
  then show "rest_matches p t pidx tidx star = rest_matches p t (pidx + 1) (tidx + 1) star"
    by (simp add: rest_matches_def)
  show "restart_ok p t (pidx + 1) (tidx + 1) star"
    using assms(1-4) by (auto simp: restart_ok_def less_Suc_eq split: option.splits)
qed

lemma other_char:
  assumes "restart_ok p t pidx tidx star" "tidx < length t"
    and "\<not> (pidx < length p \<and> p ! pidx = star_char)"
    and "\<not> (pidx < length p \<and> (p ! pidx = any_char \<or> p ! pidx = t ! tidx))"
  shows "\<not> glob (drop pidx p) (drop tidx t)"
proof (cases "pidx < length p")
  case True
  then show ?thesis using assms(2-4) drop_nth_Cons [of pidx p] drop_nth_Cons [of tidx t] by auto
next
  case False
  then show ?thesis using assms(2) by simp
qed

lemma restart:
  assumes "restart_ok p t pidx tidx (Some (sp, st))" "tidx < length t" "\<not> glob (drop pidx p) (drop tidx t)"
  shows "rest_matches p t pidx tidx (Some (sp, st)) = rest_matches p t sp (st + 1) (Some (sp, st + 1))"
    and "restart_ok p t sp (st + 1) (Some (sp, st + 1))"
proof -
  have "st + 1 \<le> length t" using assms(1,2) by (simp add: restart_ok_def)
  then have "(\<exists>k. st < k \<and> k \<le> length t \<and> glob (drop sp p) (drop k t)) \<longleftrightarrow>
      glob (drop sp p) (drop (st + 1) t) \<or> (\<exists>k. st + 1 < k \<and> k \<le> length t \<and> glob (drop sp p) (drop k t))"
    by (metis Suc_eq_plus1 Suc_leI Suc_lessD le_eq_less_or_eq lessI)
  then show "rest_matches p t pidx tidx (Some (sp, st)) = rest_matches p t sp (st + 1) (Some (sp, st + 1))"
    using assms(3) by (simp add: rest_matches_def)
  show "restart_ok p t sp (st + 1) (Some (sp, st + 1))" using assms(1,2) by (auto simp: restart_ok_def)
qed

lemma text_consumed:
  assumes "restart_ok p t pidx tidx star" "\<not> tidx < length t"
  shows "rest_matches p t pidx tidx star \<longleftrightarrow> skip_stars (drop pidx p) = []"
proof -
  have "\<not> glob (drop sp p) (drop k t)" if "star = Some (sp, st)" "st < k" "k \<le> length t" for sp st k
  proof
    assume "glob (drop sp p) (drop k t)"
    from glob_literal [OF this, of pidx] have "k + (pidx - sp) \<le> length t"
      using assms that by (auto simp: restart_ok_def)
    then show False using assms that by (auto simp: restart_ok_def)
  qed
  then show ?thesis using assms(2) by (auto simp: rest_matches_def glob_Nil split: option.splits)
qed

definition tries :: "(nat \<times> nat) option \<Rightarrow> nat" where
  "tries star = (case star of None \<Rightarrow> 0 | Some (_, st) \<Rightarrow> Suc st)"

definition star_pos :: "(nat \<times> nat) option \<Rightarrow> nat" where
  "star_pos star = (case star of None \<Rightarrow> 0 | Some (sp, _) \<Rightarrow> sp)"

abbreviation wildcard_order where
  "wildcard_order p t \<equiv> measures
     [\<lambda>(pidx, tidx, star). Suc (length t) - tries star, \<lambda>(pidx, tidx, star). Suc (length p) - star_pos star,
      \<lambda>(pidx, tidx, star). length t - tidx]"

lemma wildcard_loop_decides:
  assumes "restart_ok p t pidx tidx star"
  shows "\<exists>r. wildcard_loop p t pidx tidx star = Some r \<and> outcome p r = rest_matches p t pidx tidx star"
  using assms
proof (induction "(pidx, tidx, star)" arbitrary: pidx tidx star rule: wf_induct_rule [OF wf_measures, of "[\<lambda>(pidx, tidx, star).
      Suc (length t) - tries star, \<lambda>(pidx, tidx, star). Suc (length p) - star_pos star, \<lambda>(pidx, tidx, star). length t - tidx]"])
  case 1
  note inv = 1(2)
  note IH = 1(1)
  show ?case
  proof (cases "tidx < length t")
    case False
    then show ?thesis using text_consumed [OF inv] by (subst wildcard_loop.simps) (simp add: outcome_def)
  next
    case t: True
    consider (star) "pidx < length p" "p ! pidx = star_char"
      | (same) "pidx < length p" "p ! pidx \<noteq> star_char" "p ! pidx = any_char \<or> p ! pidx = t ! tidx"
      | (other) "\<not> (pidx < length p \<and> p ! pidx = star_char)"
          "\<not> (pidx < length p \<and> (p ! pidx = any_char \<or> p ! pidx = t ! tidx))"
      by blast
    then show ?thesis
    proof cases
      case star
      note n = new_star [OF inv star t]
      have "((pidx + 1, tidx, Some (pidx + 1, tidx)), (pidx, tidx, star)) \<in> wildcard_order p t"
        using inv t star(1) by (auto simp: tries_def star_pos_def restart_ok_def split: option.splits)
      from IH [OF this n(2)] show ?thesis
        using n(1) star t by (subst wildcard_loop.simps) simp
    next
      case same
      note n = same_char [OF inv same(1,2) t same(3)]
      have "((pidx + 1, tidx + 1, star), (pidx, tidx, star)) \<in> wildcard_order p t" using t by simp
      from IH [OF this n(2)] show ?thesis
        using n(1) same t by (subst wildcard_loop.simps) simp
    next
      case other
      note no = other_char [OF inv t other]
      show ?thesis
      proof (cases star)
        case None
        then show ?thesis using no other t by (subst wildcard_loop.simps) (auto simp: outcome_def rest_matches_def)
      next
        case (Some s)
        obtain sp st where s: "star = Some (sp, st)" using Some by (cases s) simp
        note n = restart [OF inv [unfolded s] t no]
        have "((sp, st + 1, Some (sp, st + 1)), (pidx, tidx, star)) \<in> wildcard_order p t"
          using inv t s by (auto simp: tries_def restart_ok_def)
        from IH [OF this n(2)] show ?thesis
          using n(1) other t s by (subst wildcard_loop.simps) auto
      qed
    qed
  qed
qed

lemma wildcard_match_decides:
  "wildcard_match norm pattern txt = Some (glob (norm pattern) (norm txt))"
proof -
  have "restart_ok (norm pattern) (norm txt) 0 0 None" by (simp add: restart_ok_def)
  from wildcard_loop_decides [OF this] obtain r where
    "wildcard_loop (norm pattern) (norm txt) 0 0 None = Some r" "outcome (norm pattern) r = glob (norm pattern) (norm txt)"
    by (auto simp: rest_matches_def)
  then show ?thesis by (simp add: wildcard_match_def outcome_def)
qed

section \<open>The whitelist\<close>

text \<open>\<open>iter().any(..)\<close> of \<open>id_whitelist_allows\<close>, left to right and with the short-circuits of the source.\<close>

fun any_id_matches :: "(string \<Rightarrow> uchar list) \<Rightarrow> string list \<Rightarrow> string \<Rightarrow> string \<Rightarrow> bool option" where
  "any_id_matches norm [] my_id bare_id = Some False"
| "any_id_matches norm (x # xs) my_id bare_id =
     (case wildcard_match norm x my_id of
        None \<Rightarrow> None
      | Some True \<Rightarrow> Some True
      | Some False \<Rightarrow>
          (case wildcard_match norm x bare_id of
             None \<Rightarrow> None
           | Some True \<Rightarrow> Some True
           | Some False \<Rightarrow> any_id_matches norm xs my_id bare_id))"

definition bare_id :: "string \<Rightarrow> string" where
  "bare_id my_id = hd (split_on CHR ''@'' my_id)"

definition id_whitelist_allows :: "(string \<Rightarrow> uchar list) \<Rightarrow> string list \<Rightarrow> string \<Rightarrow> bool option" where
  "id_whitelist_allows norm id_whitelist my_id =
     (if id_whitelist = [] then Some True
      else any_id_matches norm id_whitelist my_id (bare_id my_id))"

definition covers :: "(string \<Rightarrow> uchar list) \<Rightarrow> string \<Rightarrow> string \<Rightarrow> bool" where
  "covers norm my_id x \<longleftrightarrow> glob (norm x) (norm my_id) \<or> glob (norm x) (norm (bare_id my_id))"

lemma any_id_matches_decides:
  "any_id_matches norm xs my_id (bare_id my_id) = Some (list_ex (covers norm my_id) xs)"
  by (induction xs) (auto simp: wildcard_match_decides covers_def split: bool.splits)

text \<open>C22. The check of a controller's id against the whitelist ends whatever the patterns are, and it
  lets the id in exactly when the whitelist is empty or one of its patterns covers the id or the part of
  it before the at sign. A pattern covers the texts it means: a star stands for any sequence of
  characters, a question mark for one character, any other character for itself. The source's loop
  keeps only the last star as its restart point, and that loses no match.\<close>

theorem id_whitelist_decides:
  "id_whitelist_allows norm id_whitelist my_id =
     Some (id_whitelist = [] \<or> list_ex (covers norm my_id) id_whitelist)"
  by (simp add: id_whitelist_allows_def any_id_matches_decides)

text \<open>With a whitelist entry without wildcards only that very id, alone or before an at sign, is let in.\<close>

lemma glob_plain:
  "star_char \<notin> set p \<Longrightarrow> any_char \<notin> set p \<Longrightarrow> glob p t \<longleftrightarrow> t = p"
proof (induction p arbitrary: t)
  case (Cons c p)
  then show ?case by (cases t) auto
qed simp

lemma plain_entry_exact:
  assumes "star_char \<notin> set (norm x)" "any_char \<notin> set (norm x)"
  shows "id_whitelist_allows norm [x] my_id = Some (norm my_id = norm x \<or> norm (bare_id my_id) = norm x)"
  using assms by (simp add: id_whitelist_allows_def any_id_matches_decides covers_def glob_plain)

end
