(* ===== verification/Login_Guard.thy ===== *)
theory Login_Guard
  imports Id_Whitelist Server_Common
begin

text \<open>
  The counters of failed logins that the controlled side keeps
  (\<^verbatim>\<open>src/client/src/server/connection.rs\<close>, \<open>check_failure*\<close> and \<open>update_failure*\<close>, and
  \<^verbatim>\<open>src/client/src/server/login_failure_check.rs\<close>), the check of the id whitelist that rests on them, and
  the rotation of the temporary password. The three maps of \<open>LOGIN_FAILURES\<close> are the function
  \<open>login_failures\<close> of the bucket's index. A clock reading \<open>now\<close> is \<open>get_time()\<close>, in milliseconds; what
  \<open>send_login_error\<close> and \<open>post_alarm_audit\<close> emit is the list of outputs. The counters are \<open>i32\<close> in the
  source and integers here; \<open>Login_Gate\<close> bounds them far below the width. The saturating subtractions of
  times are plain ones: each is only compared with a window, where saturation changes nothing.
\<close>

section \<open>Data\<close>

type_synonym failure_entry = "int \<times> int \<times> int"

type_synonym failures = "string \<rightharpoonup> failure_entry"

datatype failure_scope = Scope_Default | TerminalOsLogin

datatype alarm_audit_type =
    IpWhitelist | ExceedThirtyAttempts | SixAttemptsWithinOneMinute | ExceedIPv6PrefixAttempts
  | TerminalOsLoginBackoff | TerminalOsLoginConcurrency | SessionScopeViolation | IdWhitelist

datatype login_out = LoginError string | Alarm alarm_audit_type

record os_credential_failure_state =
  total_failures :: int
  backoff_until_ms :: "int option"
  last_failure_ms :: "int option"

record guard_state =
  login_failures :: "nat \<Rightarrow> failures"
  os_credential_login :: os_credential_failure_state

definition os_credential_default :: os_credential_failure_state where
  "os_credential_default = \<lparr>total_failures = 0, backoff_until_ms = None, last_failure_ms = None\<rparr>"

definition guard_init :: guard_state where
  "guard_init = \<lparr>login_failures = (\<lambda>_. Map.empty), os_credential_login = os_credential_default\<rparr>"

definition failure_idx_id_whitelist :: nat where "failure_idx_id_whitelist = 2"

definition id_whitelist_failure_decay_minutes :: int where "id_whitelist_failure_decay_minutes = 10"

text \<open>\<open>(get_time() / 60_000) as i32\<close>.\<close>

definition minute_of :: "int \<Rightarrow> int" where
  "minute_of now = sint (word_of_int (now div 60000) :: 32 word)"

section \<open>Back-off of operating system logins\<close>

definition os_credential_login_backoff_seconds :: "int \<Rightarrow> int" where
  "os_credential_login_backoff_seconds fails =
     (if fails \<le> 2 then 0
      else (let e = min (fails - 3) 7; seconds = 15 * 2 ^ nat e in min seconds (30 * 60)))"

definition normalize_backoff :: "int \<Rightarrow> os_credential_failure_state \<Rightarrow> os_credential_failure_state" where
  "normalize_backoff now st =
     (case backoff_until_ms st of
        Some until \<Rightarrow> if until \<le> now then st\<lparr>backoff_until_ms := None\<rparr> else st
      | None \<Rightarrow> st)"

definition reset_totals_on_idle :: "int \<Rightarrow> os_credential_failure_state \<Rightarrow> os_credential_failure_state" where
  "reset_totals_on_idle now st =
     (case last_failure_ms st of
        Some lst \<Rightarrow> if now - lst \<ge> 120 * 60 * 1000 then os_credential_default else st
      | None \<Rightarrow> st)"

definition backoff_message :: "int \<Rightarrow> string" where
  "backoff_message remaining_ms =
     (let secs = max ((remaining_ms + 999) div 1000) 1 in
      ''Please try again in '' @ show_nat (nat secs) @ '' '' @ (if secs = 1 then ''second'' else ''seconds'') @ ''.'')"

definition evaluate_os_credential_policy ::
    "failure_scope \<Rightarrow> int \<Rightarrow> os_credential_failure_state \<Rightarrow> bool \<times> login_out list \<times> os_credential_failure_state" where
  "evaluate_os_credential_policy scope now st =
     (if scope \<noteq> TerminalOsLogin then (True, [], st)
      else (let st' = normalize_backoff now (reset_totals_on_idle now st) in
        case backoff_until_ms st' of
          Some until \<Rightarrow> (False, [LoginError (backoff_message (max (until - now) 0)), Alarm TerminalOsLoginBackoff], st')
        | None \<Rightarrow> (True, [], st')))"

definition record_os_credential_failure ::
    "failure_scope \<Rightarrow> int \<Rightarrow> os_credential_failure_state \<Rightarrow> os_credential_failure_state" where
  "record_os_credential_failure scope now st =
     (if scope \<noteq> TerminalOsLogin then st
      else (let st1 = normalize_backoff now (reset_totals_on_idle now st);
                fails = min (total_failures st1 + 1) (2 ^ 31 - 1);
                st2 = st1\<lparr>total_failures := fails, last_failure_ms := Some now\<rparr>;
                secs = os_credential_login_backoff_seconds fails in
        if secs > 0 then st2\<lparr>backoff_until_ms := Some (now + secs * 1000)\<rparr> else st2))"

section \<open>Counters per address\<close>

unbundle bit_operations_syntax

definition mask_u128 :: "u128 \<Rightarrow> nat \<Rightarrow> u128" where
  "mask_u128 a prefix = a AND (if prefix = 0 \<or> prefix > 128 then 0 else push_bit (128 - prefix) (- 1))"

definition get_ipv6_prefixes :: "string \<Rightarrow> (string \<times> string \<times> string) option" where
  "get_ipv6_prefixes ip =
     (let ip_only = str_trim (hd (split_on CHR ''%'' ip)) in
      case parse_with read_ipv6_addr ip_only of
        None \<Rightarrow> None
      | Some a \<Rightarrow> Some (show_ipv6 (mask_u128 a 64) @ ''/64'',
                        show_ipv6 (mask_u128 a 56) @ ''/56'',
                        show_ipv6 (mask_u128 a 48) @ ''/48''))"

definition bump_failure_entry :: "failure_entry \<Rightarrow> int \<Rightarrow> failure_entry" where
  "bump_failure_entry cur time =
     (case cur of (minute, recent, all) \<Rightarrow>
        if minute = time then (minute, recent + 1, all + 1) else (time, 1, all + 1))"

definition failure_of :: "failures \<Rightarrow> string \<Rightarrow> failure_entry" where
  "failure_of m key = (case m key of Some f \<Rightarrow> f | None \<Rightarrow> (0, 0, 0))"

definition bump_key :: "int \<Rightarrow> string \<Rightarrow> failures \<Rightarrow> failures" where
  "bump_key time key m = m(key \<mapsto> bump_failure_entry (failure_of m key) time)"

definition remove_failure :: "failure_entry \<Rightarrow> string \<Rightarrow> failures \<Rightarrow> failures" where
  "remove_failure failure ip m =
     (if fst failure \<noteq> 0 then
        (case get_ipv6_prefixes ip of
           Some (p64, p56, p48) \<Rightarrow> m(p64 := None, p56 := None, p48 := None, ip := None)
         | None \<Rightarrow> m(ip := None))
      else m)"

definition add_failure :: "int \<Rightarrow> string \<Rightarrow> failures \<Rightarrow> failures" where
  "add_failure time ip m =
     (case get_ipv6_prefixes ip of
        Some (p64, p56, p48) \<Rightarrow> bump_key time ip (bump_key time p48 (bump_key time p56 (bump_key time p64 m)))
      | None \<Rightarrow> bump_key time ip m)"

definition update_failure_with_scope ::
    "int \<Rightarrow> string \<Rightarrow> failure_entry \<times> int \<Rightarrow> bool \<Rightarrow> nat \<Rightarrow> failure_scope \<Rightarrow> guard_state \<Rightarrow> guard_state" where
  "update_failure_with_scope now ip ft remove i scope st =
     (case ft of (failure, time) \<Rightarrow>
        if scope = TerminalOsLogin then
          if \<not> remove then st\<lparr>os_credential_login := record_os_credential_failure scope now (os_credential_login st)\<rparr>
          else st
        else if remove then
          st\<lparr>login_failures := (login_failures st)(i := remove_failure failure ip (login_failures st i))\<rparr>
        else st\<lparr>login_failures := (login_failures st)(i := add_failure time ip (login_failures st i))\<rparr>)"

definition check_failure_ipv6_prefix ::
    "failures \<Rightarrow> int \<Rightarrow> string \<Rightarrow> nat \<Rightarrow> int \<Rightarrow> ((failure_entry \<times> int) \<times> bool \<times> login_out list) option" where
  "check_failure_ipv6_prefix m time prefix prefix_num thresh =
     (let failure_prefix = failure_of m prefix in
      if snd (snd failure_prefix) > thresh then
        Some ((failure_prefix, time), False,
              [LoginError (''Too many wrong attempts for IPv6 prefix /'' @ show_nat prefix_num),
               Alarm ExceedIPv6PrefixAttempts])
      else None)"

definition check_direct_address ::
    "failures \<Rightarrow> int \<Rightarrow> string \<Rightarrow> (failure_entry \<times> int) \<times> bool \<times> login_out list" where
  "check_direct_address m time ip =
     (case failure_of m ip of (minute, recent, all) \<Rightarrow>
        if all > 30 then
          (((minute, recent, all), time), False, [LoginError ''Too many wrong attempts'', Alarm ExceedThirtyAttempts])
        else if time = minute \<and> recent > 6 then
          (((minute, recent, all), time), False,
           [LoginError ''Please try 1 minute later'', Alarm SixAttemptsWithinOneMinute])
        else (((minute, recent, all), time), True, []))"

definition check_failures ::
    "failures \<Rightarrow> int \<Rightarrow> string \<Rightarrow> (failure_entry \<times> int) \<times> bool \<times> login_out list" where
  "check_failures m time ip =
     (case get_ipv6_prefixes ip of
        None \<Rightarrow> check_direct_address m time ip
      | Some (p64, p56, p48) \<Rightarrow>
          (case check_failure_ipv6_prefix m time p64 64 60 of
             Some r \<Rightarrow> r
           | None \<Rightarrow> (case check_failure_ipv6_prefix m time p56 56 80 of
               Some r \<Rightarrow> r
             | None \<Rightarrow> (case check_failure_ipv6_prefix m time p48 48 100 of
                 Some r \<Rightarrow> r
               | None \<Rightarrow> check_direct_address m time ip))))"

definition check_failure_with_scope ::
    "int \<Rightarrow> string \<Rightarrow> nat \<Rightarrow> failure_scope \<Rightarrow> guard_state \<Rightarrow>
       (failure_entry \<times> int) \<times> bool \<times> login_out list \<times> guard_state" where
  "check_failure_with_scope now ip i scope st =
     (let time = minute_of now in
      if scope = TerminalOsLogin then
        (case evaluate_os_credential_policy scope now (os_credential_login st) of
           (res, outs, os) \<Rightarrow> (((0, 0, 0), time), res, outs, st\<lparr>os_credential_login := os\<rparr>))
      else (case check_failures (login_failures st i) time ip of
              (failure, res, outs) \<Rightarrow> (failure, res, outs, st)))"

section \<open>The id whitelist\<close>

definition failure_keys :: "string \<Rightarrow> string list" where
  "failure_keys ip =
     ip # (case get_ipv6_prefixes ip of Some (p64, p56, p48) \<Rightarrow> [p64, p56, p48] | None \<Rightarrow> [])"

definition decay_stale_failures :: "string list \<Rightarrow> int \<Rightarrow> int \<Rightarrow> failures \<Rightarrow> failures" where
  "decay_stale_failures keys now window =
     fold (\<lambda>key m. case m key of Some v \<Rightarrow> if now - fst v \<ge> window then m(key := None) else m | None \<Rightarrow> m) keys"

definition clear_failures :: "string list \<Rightarrow> failures \<Rightarrow> failures" where
  "clear_failures keys = fold (\<lambda>key m. m(key := None)) keys"

definition decay_id_whitelist_failures :: "int \<Rightarrow> string \<Rightarrow> guard_state \<Rightarrow> guard_state" where
  "decay_id_whitelist_failures now ip st =
     st\<lparr>login_failures := (login_failures st)(failure_idx_id_whitelist :=
         decay_stale_failures (failure_keys ip) (minute_of now) id_whitelist_failure_decay_minutes
           (login_failures st failure_idx_id_whitelist))\<rparr>"

definition clear_id_whitelist_failures :: "string \<Rightarrow> guard_state \<Rightarrow> guard_state" where
  "clear_id_whitelist_failures ip st =
     st\<lparr>login_failures := (login_failures st)(failure_idx_id_whitelist :=
         clear_failures (failure_keys ip) (login_failures st failure_idx_id_whitelist))\<rparr>"

definition whitelist_entries :: "string \<Rightarrow> string list" where
  "whitelist_entries opt = filter (\<lambda>x. x \<noteq> []) (map str_trim (split_on CHR '','' opt))"

text \<open>\<open>None\<close> would mean that the check does not end.\<close>

definition check_id_whitelist ::
    "(string \<Rightarrow> uchar list) \<Rightarrow> string \<Rightarrow> int \<Rightarrow> string \<Rightarrow> string \<Rightarrow> guard_state \<Rightarrow>
       (bool \<times> login_out list \<times> guard_state) option" where
  "check_id_whitelist norm opt now ip my_id st =
     (let id_whitelist = whitelist_entries opt in
      if id_whitelist = [] then Some (True, [], st)
      else (case check_failure_with_scope now ip failure_idx_id_whitelist Scope_Default
                   (decay_id_whitelist_failures now ip st) of
        (failure, res, outs, st1) \<Rightarrow>
          if \<not> res then Some (False, outs, st1)
          else map_option (\<lambda>allowed.
            if allowed then (True, outs, st1)
            else (False, outs @ [LoginError ''Your ID is blocked by the peer'', Alarm IdWhitelist],
                  update_failure_with_scope now ip failure False failure_idx_id_whitelist Scope_Default st1))
            (id_whitelist_allows norm id_whitelist my_id)))"

section \<open>Rotation of the temporary password\<close>

record temporary_state =
  tp_password :: string
  tp_failures :: int

text \<open>The result is the state and the temporary password afterwards; \<open>fresh\<close> is what
  \<open>update_temporary_password\<close> would draw.\<close>

definition check_update_temporary_password ::
    "bool \<Rightarrow> string \<Rightarrow> bool \<Rightarrow> string \<Rightarrow> temporary_state \<Rightarrow> temporary_state \<times> string" where
  "check_update_temporary_password enabled fresh success current st =
     (if \<not> enabled \<or> current = [] then (st, current)
      else (let st1 = (if tp_password st \<noteq> current then \<lparr>tp_password = current, tp_failures = 0\<rparr> else st) in
        if success then (st1\<lparr>tp_failures := 0\<rparr>, current)
        else (let st2 = st1\<lparr>tp_failures := tp_failures st1 + 1\<rparr> in
          if tp_failures st2 < 10 then (st2, current)
          else (\<lparr>tp_password = fresh, tp_failures = 0\<rparr>, fresh))))"

section \<open>What the back-off does\<close>

lemma backoff_seconds_bounds:
  "0 \<le> os_credential_login_backoff_seconds n \<and> os_credential_login_backoff_seconds n \<le> 1800 \<and>
   (os_credential_login_backoff_seconds n = 0 \<longleftrightarrow> n \<le> 2) \<and> (n \<ge> 10 \<longrightarrow> os_credential_login_backoff_seconds n = 1800)"
proof -
  have "(1::int) \<le> 2 ^ nat (min (n - 3) 7)" by simp
  moreover have "os_credential_login_backoff_seconds n = 1800" if "n \<ge> 10"
    using that by (simp add: os_credential_login_backoff_seconds_def min_def)
  ultimately show ?thesis by (auto simp: os_credential_login_backoff_seconds_def Let_def min_def split: if_splits)
qed

lemma backoff_seconds_mono:
  assumes "m \<le> n"
  shows "os_credential_login_backoff_seconds m \<le> os_credential_login_backoff_seconds n"
proof (cases "m \<le> 2")
  case True
  then show ?thesis using backoff_seconds_bounds [of n] by (simp add: os_credential_login_backoff_seconds_def)
next
  case False
  have "nat (min (m - 3) 7) \<le> nat (min (n - 3) 7)" using assms by simp
  then have "(15::int) * 2 ^ nat (min (m - 3) 7) \<le> 15 * 2 ^ nat (min (n - 3) 7)"
    by (intro mult_left_mono power_increasing) simp_all
  then have "min ((15::int) * 2 ^ nat (min (m - 3) 7)) 1800 \<le> min (15 * 2 ^ nat (min (n - 3) 7)) 1800"
    by (rule min.mono) simp
  then show ?thesis using False assms by (simp add: os_credential_login_backoff_seconds_def)
qed

text \<open>From the third failure on, every attempt before the back-off has run out is refused, and the back-off
  never grows beyond half an hour.\<close>

lemma os_backoff_blocks:
  assumes "2 \<le> total_failures (normalize_backoff now (reset_totals_on_idle now st))" "now \<le> later"
    and "later < now + os_credential_login_backoff_seconds (min (total_failures (normalize_backoff now
      (reset_totals_on_idle now st)) + 1) (2 ^ 31 - 1)) * 1000"
  shows "\<not> fst (evaluate_os_credential_policy TerminalOsLogin later (record_os_credential_failure TerminalOsLogin now st))"
proof -
  let ?n = "min (total_failures (normalize_backoff now (reset_totals_on_idle now st)) + 1) (2 ^ 31 - 1)"
  have "later - now < 120 * 60 * 1000" using assms(3) backoff_seconds_bounds [of ?n] by linarith
  moreover have "0 < os_credential_login_backoff_seconds ?n" using assms(1) backoff_seconds_bounds [of ?n] by fastforce
  ultimately show ?thesis using assms(3)
    by (simp add: evaluate_os_credential_policy_def record_os_credential_failure_def Let_def reset_totals_on_idle_def
      [of later] normalize_backoff_def [of later] split: if_splits)
qed

section \<open>What the counters do\<close>

definition count_of :: "failures \<Rightarrow> string \<Rightarrow> int" where
  "count_of m key = snd (snd (failure_of m key))"

lemma count_bump_key [simp]:
  "count_of (bump_key time key m) k = count_of m k + (if k = key then 1 else 0)"
  by (auto simp: count_of_def bump_key_def failure_of_def bump_failure_entry_def split: prod.splits)

lemma count_empty [simp]: "count_of Map.empty k = 0"
  by (simp add: count_of_def failure_of_def)

lemma count_removed [simp]: "count_of (m(key := None)) k = (if k = key then 0 else count_of m k)"
  by (simp add: count_of_def failure_of_def)

lemma prefixes_slash:
  assumes "get_ipv6_prefixes ip = Some (p64, p56, p48)" "k \<in> {p64, p56, p48}"
  shows "CHR ''/'' \<in> set k"
  using assms by (auto simp: get_ipv6_prefixes_def Let_def split: option.splits)

lemma count_add_failure:
  assumes "CHR ''/'' \<notin> set k"
  shows "count_of (add_failure time ip m) k = count_of m k + (if k = ip then 1 else 0)"
proof -
  have "k \<noteq> p64 \<and> k \<noteq> p56 \<and> k \<noteq> p48" if "get_ipv6_prefixes ip = Some (p64, p56, p48)" for p64 p56 p48
    using prefixes_slash [OF that, of k] assms by blast
  then show ?thesis by (auto simp: add_failure_def split: option.splits)
qed

lemma count_remove_failure:
  assumes "CHR ''/'' \<notin> set k" "k \<noteq> ip"
  shows "count_of (remove_failure failure ip m) k = count_of m k"
proof -
  have "k \<noteq> p64 \<and> k \<noteq> p56 \<and> k \<noteq> p48" if "get_ipv6_prefixes ip = Some (p64, p56, p48)" for p64 p56 p48
    using prefixes_slash [OF that, of k] assms by blast
  then show ?thesis using assms(2) by (auto simp: remove_failure_def split: option.splits)
qed

lemma count_remove_le:
  assumes "\<And>k. 0 \<le> count_of m k"
  shows "count_of (remove_failure failure ip m) k \<le> count_of m k \<and> 0 \<le> count_of (remove_failure failure ip m) k"
  using assms by (auto simp: remove_failure_def split: option.splits)

lemma direct_allows: "check_direct_address m time ip = (ft, True, outs) \<Longrightarrow> count_of m ip \<le> 30 \<and> outs = []"
  by (auto simp: check_direct_address_def count_of_def split: prod.splits if_splits)

lemma prefix_refuses: "check_failure_ipv6_prefix m time p n t = Some (ft, res, outs) \<Longrightarrow> \<not> res"
  by (auto simp: check_failure_ipv6_prefix_def Let_def split: if_splits)

text \<open>An attempt that passes the check comes from an address with at most thirty failures.\<close>

lemma check_allows:
  assumes "check_failures m time ip = (ft, True, outs)"
  shows "count_of m ip \<le> 30 \<and> outs = []"
proof (cases "get_ipv6_prefixes ip")
  case None
  then show ?thesis using assms direct_allows by (simp add: check_failures_def)
next
  case (Some p)
  then have "check_direct_address m time ip = (ft, True, outs)"
    using assms by (auto simp: check_failures_def dest: prefix_refuses split: option.splits prod.splits)
  then show ?thesis by (rule direct_allows)
qed

lemma count_add_ge: "count_of m k \<le> count_of (add_failure time ip m) k"
  by (auto simp: add_failure_def split: option.splits)

text \<open>What the login attempts rely on: an attempt is let through only below the limit, a failure is counted,
  and only a success of the same key lowers its count. A \<open>single\<close> key stands for one address, not for
  a shared prefix.\<close>

locale attempt_counter =
  fixes counted :: "'b \<Rightarrow> 'k \<Rightarrow> int" and allows :: "'b \<Rightarrow> 't \<Rightarrow> 'k \<Rightarrow> bool"
    and failing :: "'t \<Rightarrow> 'k \<Rightarrow> 'b \<Rightarrow> 'b" and forgiving :: "'f \<Rightarrow> 'k \<Rightarrow> 'b \<Rightarrow> 'b"
    and single :: "'k \<Rightarrow> bool" and limit :: int
  assumes allows_below: "allows b t k \<Longrightarrow> counted b k \<le> limit"
    and failing_counts: "single k \<Longrightarrow> counted (failing t j b) k = counted b k + (if k = j then 1 else 0)"
    and failing_keeps: "counted b k \<le> counted (failing t j b) k"
    and forgiving_other: "single k \<Longrightarrow> k \<noteq> j \<Longrightarrow> counted (forgiving f j b) k = counted b k"
    and forgiving_lowers: "(\<And>k. 0 \<le> counted b k) \<Longrightarrow>
      counted (forgiving f j b) k \<le> counted b k \<and> 0 \<le> counted (forgiving f j b) k"
begin

lemma failing_nonneg: "0 \<le> counted b k \<Longrightarrow> 0 \<le> counted (failing t j b) k"
  using failing_keeps [of b k t j] by linarith

text \<open>With at most \<open>c\<close> attempts in flight for a key, the failures and the attempts in flight together stay
  within the limit and \<open>c\<close>.\<close>

lemma admitted_within: "allows b t k \<Longrightarrow> n \<le> c \<Longrightarrow> counted b k + n \<le> limit + c"
  using allows_below [of b t k] by linarith

lemma failed_within:
  assumes "single k" "counted b k + n \<le> limit + c" "n' + (if k = j then 1 else 0) \<le> n"
  shows "counted (failing t j b) k + n' \<le> limit + c"
  using assms(2,3) failing_counts [OF assms(1), of t j b] by (simp split: if_splits)

lemma forgiven_within:
  assumes "\<And>k. 0 \<le> counted b k" "counted b k + n \<le> limit + c" "n' \<le> n"
  shows "counted (forgiving f j b) k + n' \<le> limit + c"
  using assms(2,3) forgiving_lowers [OF assms(1), of f j k] by linarith

end

interpretation address_book: attempt_counter
  count_of "\<lambda>m time ip. fst (snd (check_failures m time ip))" add_failure remove_failure "\<lambda>k. CHR ''/'' \<notin> set k" 30
proof
  fix m time ip
  assume "fst (snd (check_failures m time ip))"
  then show "count_of m ip \<le> 30"
    using check_allows [of m time ip] by (cases "check_failures m time ip") auto
qed (use count_add_failure count_add_ge count_remove_failure count_remove_le in auto)

lemma default_check_pure:
  "check_failure_with_scope now ip i Scope_Default st =
     (let (ft, res, outs) = check_failures (login_failures st i) (minute_of now) ip in (ft, res, outs, st))"
  by (simp add: check_failure_with_scope_def split: prod.splits)

text \<open>The check of the id whitelist ends. Whoever passes it is covered by the list, and it leaves the
  counters of passwords and second factors alone.\<close>

lemma check_id_whitelist_ends: "check_id_whitelist norm opt now ip my_id st \<noteq> None"
proof (cases "check_failure_with_scope now ip failure_idx_id_whitelist Scope_Default (decay_id_whitelist_failures now ip st)")
  case (fields failure res outs st1)
  then show ?thesis
    by (auto simp: check_id_whitelist_def Let_def id_whitelist_allows_def any_id_matches_decides)
qed

lemma check_id_whitelist_sound:
  assumes "check_id_whitelist norm opt now ip my_id st = Some (res, outs, st')"
  shows "res \<Longrightarrow> whitelist_entries opt \<noteq> [] \<Longrightarrow> list_ex (covers norm my_id) (whitelist_entries opt)"
    and "i \<noteq> failure_idx_id_whitelist \<Longrightarrow> login_failures st' i = login_failures st i"
  using assms
  by (auto simp: check_id_whitelist_def Let_def default_check_pure id_whitelist_allows_def any_id_matches_decides
    decay_id_whitelist_failures_def update_failure_with_scope_def split: prod.splits if_splits)

lemma clear_failures_keys: "clear_failures keys m k = (if k \<in> set keys then None else m k)"
  unfolding clear_failures_def by (induction keys arbitrary: m) auto

section \<open>What the rotation does\<close>

definition wrong_temporary :: "string \<Rightarrow> temporary_state \<times> string \<Rightarrow> temporary_state \<times> string" where
  "wrong_temporary fresh s = check_update_temporary_password True fresh False (snd s) (fst s)"

definition tp_ok :: "temporary_state \<times> string \<Rightarrow> bool" where
  "tp_ok s \<longleftrightarrow> 0 \<le> tp_failures (fst s) \<and> tp_failures (fst s) < 10"

lemma wrong_temporary_ok: "tp_ok s \<Longrightarrow> tp_ok (wrong_temporary fresh s)"
  by (auto simp: tp_ok_def wrong_temporary_def check_update_temporary_password_def Let_def)

lemma wrong_temporary_counts:
  assumes "snd s \<noteq> []" "tp_ok s" "wrong_temporary fresh s = s'" "snd s' = snd s" "fresh \<noteq> snd s"
  shows "tp_password (fst s') = snd s \<and> tp_failures (fst s') \<le> 9 \<and>
    tp_failures (fst s') = (if tp_password (fst s) = snd s then tp_failures (fst s) else 0) + 1"
  using assms by (auto simp: wrong_temporary_def check_update_temporary_password_def tp_ok_def Let_def split: if_splits)

text \<open>Ten wrong passwords in a row replace the temporary password, whoever sends them.\<close>

lemma temporary_password_rotates:
  assumes "snd s \<noteq> []" "tp_ok s" "fresh \<noteq> snd s"
  shows "\<exists>j\<le>10. snd ((wrong_temporary fresh ^^ j) s) \<noteq> snd s"
proof (rule ccontr)
  assume "\<not> ?thesis"
  then have same: "snd ((wrong_temporary fresh ^^ j) s) = snd s" if "j \<le> 10" for j using that by blast
  have "tp_ok ((wrong_temporary fresh ^^ j) s)" for j
    by (induction j) (simp_all add: assms(2) wrong_temporary_ok)
  then have step: "tp_password (fst ((wrong_temporary fresh ^^ Suc j) s)) = snd s \<and>
      tp_failures (fst ((wrong_temporary fresh ^^ Suc j) s)) \<le> 9 \<and>
      tp_failures (fst ((wrong_temporary fresh ^^ Suc j) s)) =
        (if tp_password (fst ((wrong_temporary fresh ^^ j) s)) = snd s then tp_failures (fst ((wrong_temporary fresh ^^ j) s)) else 0) + 1"
    if "Suc j \<le> 10" for j
    using wrong_temporary_counts [of "(wrong_temporary fresh ^^ j) s" fresh "(wrong_temporary fresh ^^ Suc j) s"]
      same [of j] same [of "Suc j"] that assms by simp
  have "int j \<le> tp_failures (fst ((wrong_temporary fresh ^^ j) s)) \<and> tp_password (fst ((wrong_temporary fresh ^^ j) s)) = snd s"
    if "0 < j" "j \<le> 10" for j
    using that
  proof (induction j)
    case (Suc j)
    then show ?case using step [of j] assms(2) by (cases "j = 0") (auto simp: tp_ok_def)
  qed simp
  from this [of 10] step [of 9] show False by simp
qed

end
