(* ===== verification/Login_Gate.thy ===== *)
theory Login_Gate
  imports Login_Guard
begin

text \<open>
  The connections that have not logged in yet: their admission
  (\<open>admit_unauthorized\<close> and the \<open>Drop\<close> of \<open>UnauthorizedID\<close> in
  \<^verbatim>\<open>src/client/src/server/connection.rs\<close>, \<open>create_tcp_connection\<close> and \<open>get_new_id\<close> in
  \<^verbatim>\<open>src/client/src/server.rs\<close>) composed with the password branch of \<open>on_message\<close>. The tasks of the
  connections run in parallel. The check of the counters and their update each hold the lock of the map,
  with the comparison of the password between them, so a login attempt is two steps, \<open>Login\<close> and
  \<open>Verdict\<close>, and any sequence of events is an interleaving of the connections' steps. Whether the password is
  right is part of the event \<open>Verdict\<close>. A connection may leave in any state but between those two
  steps, where the source has no point of suspension.
\<close>

section \<open>Admission\<close>

type_synonym place = "int \<times> ip_addr \<times> bool"

abbreviation place_id :: "place \<Rightarrow> int" where "place_id \<equiv> fst"
abbreviation place_ip :: "place \<Rightarrow> ip_addr" where "place_ip u \<equiv> fst (snd u)"
abbreviation evicted :: "place \<Rightarrow> bool" where "evicted u \<equiv> snd (snd u)"

definition max_unauthorized_conns :: nat where "max_unauthorized_conns = 64"
definition max_unauthorized_conns_per_addr :: nat where "max_unauthorized_conns_per_addr = 16"

fun evict_oldest :: "place list \<Rightarrow> place list" where
  "evict_oldest [] = []"
| "evict_oldest ((i, ip, _) # us) = (i, ip, True) # us"

definition admit_unauthorized :: "int \<Rightarrow> ip_addr \<Rightarrow> place list \<Rightarrow> bool \<times> place list" where
  "admit_unauthorized i ip us =
     (if length (filter (\<lambda>u. place_ip u = ip) us) \<ge> max_unauthorized_conns_per_addr then (False, us)
      else if length us \<ge> max_unauthorized_conns then (False, evict_oldest us)
      else (True, us @ [(i, ip, False)]))"

definition drop_unauthorized :: "int \<Rightarrow> place list \<Rightarrow> place list" where
  "drop_unauthorized i us = filter (\<lambda>u. place_id u \<noteq> i) us"

section \<open>The gate\<close>

record conn =
  c_ip :: ip_addr
  c_check :: "(failure_entry \<times> int) option"

record gate =
  id_count :: int
  unauthorized :: "place list"
  conns :: "int \<rightharpoonup> conn"
  guard :: guard_state

datatype gate_event =
    Arrive socket_addr
  | Leave int
  | Login int int
  | Verdict int bool int
  | Authorize int

datatype gate_out =
    Admitted int | Refused | Told login_out
  | Right_Guess ip_addr | Wrong_Guess ip_addr

definition get_new_id :: "gate \<Rightarrow> int \<times> gate" where
  "get_new_id s = (id_count s + 1, s\<lparr>id_count := id_count s + 1\<rparr>)"

definition arrive :: "socket_addr \<Rightarrow> gate \<Rightarrow> gate \<times> gate_out list" where
  "arrive addr s =
     (let ip = sa_ip (try_into_v4 addr); (i, s1) = get_new_id s;
          (admitted, us) = admit_unauthorized i ip (unauthorized s1);
          s2 = s1\<lparr>unauthorized := us\<rparr> in
      if admitted then (s2\<lparr>conns := (conns s2)(i \<mapsto> \<lparr>c_ip = ip, c_check = None\<rparr>)\<rparr>, [Admitted i])
      else (s2, [Refused]))"

definition leave :: "int \<Rightarrow> gate \<Rightarrow> gate" where
  "leave i s = s\<lparr>unauthorized := drop_unauthorized i (unauthorized s), conns := (conns s)(i := None)\<rparr>"

definition login_check :: "int \<Rightarrow> int \<Rightarrow> conn \<Rightarrow> gate \<Rightarrow> gate \<times> gate_out list" where
  "login_check i now c s =
     (case check_failure_with_scope now (ip_to_string (c_ip c)) 0 Scope_Default (guard s) of
        (failure, res, outs, g) \<Rightarrow>
          if \<not> res then (s\<lparr>guard := g\<rparr>, map Told outs)
          else (s\<lparr>guard := g, conns := (conns s)(i \<mapsto> c\<lparr>c_check := Some failure\<rparr>)\<rparr>, map Told outs))"

definition login_verdict ::
    "int \<Rightarrow> bool \<Rightarrow> int \<Rightarrow> failure_entry \<times> int \<Rightarrow> conn \<Rightarrow> gate \<Rightarrow> gate \<times> gate_out list" where
  "login_verdict i valid now failure c s =
     (let g = update_failure_with_scope now (ip_to_string (c_ip c)) failure valid 0 Scope_Default (guard s);
          s1 = s\<lparr>guard := g, conns := (conns s)(i \<mapsto> c\<lparr>c_check := None\<rparr>)\<rparr> in
      if valid then (s1, [Right_Guess (c_ip c)])
      else (s1, [Wrong_Guess (c_ip c), Told (LoginError ''Wrong Password'')]))"

text \<open>The end of \<open>send_logon_response_and_keep_alive\<close>: the place is given back, and the connection takes no
  further login request.\<close>

definition authorize :: "int \<Rightarrow> conn \<Rightarrow> gate \<Rightarrow> gate" where
  "authorize i c s = (leave i s)\<lparr>guard := clear_id_whitelist_failures (ip_to_string (c_ip c)) (guard s)\<rparr>"

fun gate_step :: "gate_event \<Rightarrow> gate \<Rightarrow> gate \<times> gate_out list" where
  "gate_step (Arrive addr) s = arrive addr s"
| "gate_step (Leave i) s =
     (case conns s i of Some c \<Rightarrow> if c_check c = None then (leave i s, []) else (s, []) | None \<Rightarrow> (s, []))"
| "gate_step (Login i now) s =
     (case conns s i of Some c \<Rightarrow> if c_check c = None then login_check i now c s else (s, []) | None \<Rightarrow> (s, []))"
| "gate_step (Verdict i valid now) s =
     (case conns s i of
        Some c \<Rightarrow> (case c_check c of Some failure \<Rightarrow> login_verdict i valid now failure c s | None \<Rightarrow> (s, []))
      | None \<Rightarrow> (s, []))"
| "gate_step (Authorize i) s =
     (case conns s i of Some c \<Rightarrow> if c_check c = None then (authorize i c s, []) else (s, []) | None \<Rightarrow> (s, []))"

fun gate_run :: "gate_event list \<Rightarrow> gate \<Rightarrow> gate \<times> gate_out list" where
  "gate_run [] s = (s, [])"
| "gate_run (e # es) s =
     (let (s1, outs1) = gate_step e s; (s2, outs2) = gate_run es s1 in (s2, outs1 @ outs2))"

definition gate_init :: "int \<Rightarrow> gate" where
  "gate_init seed = \<lparr>id_count = seed, unauthorized = [], conns = Map.empty, guard = guard_init\<rparr>"

section \<open>The places\<close>

definition places_ok :: "int \<Rightarrow> place list \<Rightarrow> bool" where
  "places_ok n us \<longleftrightarrow>
     distinct (map place_id us) \<and>
     (\<forall>u \<in> set us. place_id u \<le> n) \<and>
     length us \<le> max_unauthorized_conns \<and>
     (\<forall>ip. length (filter (\<lambda>u. place_ip u = ip) us) \<le> max_unauthorized_conns_per_addr) \<and>
     (\<forall>u \<in> set (tl us). \<not> evicted u)"

abbreviation owner :: "place \<Rightarrow> int \<times> ip_addr" where "owner u \<equiv> (place_id u, place_ip u)"

definition held :: "place list \<Rightarrow> (int \<rightharpoonup> conn) \<Rightarrow> bool" where
  "held us cs \<longleftrightarrow> (\<forall>i ip. (i, ip) \<in> set (map owner us) \<longleftrightarrow> map_option c_ip (cs i) = Some ip)"

definition table_ok :: "gate \<Rightarrow> bool" where
  "table_ok s \<longleftrightarrow> places_ok (id_count s) (unauthorized s) \<and> held (unauthorized s) (conns s)"

lemma evict_oldest_simps [simp]:
  "map place_id (evict_oldest us) = map place_id us"
  "map place_ip (evict_oldest us) = map place_ip us"
  "map owner (evict_oldest us) = map owner us"
  "tl (evict_oldest us) = tl us"
  "length (evict_oldest us) = length us"
  by (cases us; auto)+

lemma length_filter_ip: "length (filter (\<lambda>u. place_ip u = ip) us) = length (filter (\<lambda>x. x = ip) (map place_ip us))"
  by (simp add: filter_map comp_def)

lemma places_evict:
  assumes "places_ok n us"
  shows "places_ok n (evict_oldest us)"
proof -
  have "\<forall>u \<in> set (evict_oldest us). place_id u \<le> n"
    using assms by (cases us) (auto simp: places_ok_def)
  then show ?thesis using assms by (simp add: places_ok_def length_filter_ip)
qed

lemma places_push:
  assumes "places_ok n us" "n < i" "length us < max_unauthorized_conns"
    and "length (filter (\<lambda>u. place_ip u = ip) us) < max_unauthorized_conns_per_addr"
  shows "places_ok i (us @ [(i, ip, False)])"
proof -
  have "\<forall>u \<in> set (tl (us @ [(i, ip, False)])). \<not> evicted u"
    using assms(1) by (cases us) (auto simp: places_ok_def)
  then show ?thesis using assms by (fastforce simp: places_ok_def)
qed

lemma places_mono: "places_ok n us \<Longrightarrow> n \<le> m \<Longrightarrow> places_ok m us"
  by (fastforce simp: places_ok_def)

lemma places_admit:
  assumes "places_ok n us" "n < i"
  shows "places_ok i (snd (admit_unauthorized i ip us))"
  using assms places_push [OF assms] places_evict [OF assms(1)] places_mono [of n _ i]
  by (auto simp: admit_unauthorized_def)

lemma set_tl_filter: "set (tl (filter P us)) \<subseteq> set (tl us)"
proof (cases us)
  case (Cons u us')
  have "set (tl (filter P us')) \<subseteq> set us'" by (cases "filter P us'") (auto simp: filter_eq_Cons_iff)
  then show ?thesis using Cons by auto
qed simp

lemma places_drop:
  assumes "places_ok n us"
  shows "places_ok n (drop_unauthorized i us)"
proof -
  have "length (filter (\<lambda>u. place_ip u = ip) (drop_unauthorized i us)) \<le> max_unauthorized_conns_per_addr" for ip
  proof -
    have "filter (\<lambda>u. place_ip u = ip) (drop_unauthorized i us) =
        filter (\<lambda>u. place_id u \<noteq> i) (filter (\<lambda>u. place_ip u = ip) us)"
      by (simp add: drop_unauthorized_def conj_commute)
    then show ?thesis
      using assms length_filter_le [of "\<lambda>u. place_id u \<noteq> i" "filter (\<lambda>u. place_ip u = ip) us"]
      unfolding places_ok_def by (metis (no_types, lifting) le_trans)
  qed
  moreover have "\<forall>u \<in> set (tl (drop_unauthorized i us)). \<not> evicted u"
    using assms set_tl_filter [of "\<lambda>u. place_id u \<noteq> i" us] unfolding places_ok_def drop_unauthorized_def by blast
  moreover have "length (drop_unauthorized i us) \<le> max_unauthorized_conns"
    using assms length_filter_le [of "\<lambda>u. place_id u \<noteq> i" us] unfolding places_ok_def drop_unauthorized_def by linarith
  ultimately show ?thesis
    using assms by (simp add: places_ok_def distinct_map_filter drop_unauthorized_def)
qed

lemma held_evict: "held us cs \<Longrightarrow> held (evict_oldest us) cs"
  unfolding held_def by simp

lemma held_push:
  assumes "held us cs" "cs i = None"
  shows "held (us @ [(i, ip, False)]) (cs(i \<mapsto> \<lparr>c_ip = ip, c_check = f\<rparr>))"
  unfolding held_def
proof (intro allI)
  fix j q
  have "(j, q) \<in> set (map owner us) \<longleftrightarrow> map_option c_ip (cs j) = Some q" using assms(1) by (simp add: held_def del: set_map)
  then show "(j, q) \<in> set (map owner (us @ [(i, ip, False)])) \<longleftrightarrow>
      map_option c_ip ((cs(i \<mapsto> \<lparr>c_ip = ip, c_check = f\<rparr>)) j) = Some q"
    using assms(2) by (cases "j = i") auto
qed

lemma held_drop:
  assumes "held us cs"
  shows "held (drop_unauthorized i us) (cs(i := None))"
  unfolding held_def
proof (intro allI)
  fix j q
  have "(j, q) \<in> set (map owner us) \<longleftrightarrow> map_option c_ip (cs j) = Some q" using assms by (simp add: held_def del: set_map)
  moreover have "(j, q) \<in> set (map owner (drop_unauthorized i us)) \<longleftrightarrow> j \<noteq> i \<and> (j, q) \<in> set (map owner us)"
    by (auto simp: drop_unauthorized_def)
  ultimately show "(j, q) \<in> set (map owner (drop_unauthorized i us)) \<longleftrightarrow> map_option c_ip ((cs(i := None)) j) = Some q"
    by simp
qed

lemma held_same: "held us cs \<Longrightarrow> cs i = Some c \<Longrightarrow> held us (cs(i \<mapsto> c\<lparr>c_check := f\<rparr>))"
  by (simp add: held_def del: set_map)

lemma no_id_above:
  assumes "table_ok s" "id_count s < i"
  shows "conns s i = None"
proof (cases "conns s i")
  case (Some c)
  then have "(i, c_ip c) \<in> set (map owner (unauthorized s))"
    using assms(1) by (simp add: table_ok_def held_def del: set_map)
  then show ?thesis using assms by (auto simp: table_ok_def places_ok_def)
qed

lemma table_arrive:
  assumes "table_ok s"
  shows "table_ok (fst (arrive addr s))"
proof -
  let ?ip = "sa_ip (try_into_v4 addr)" and ?i = "id_count s + 1"
  have "places_ok ?i (snd (admit_unauthorized ?i ?ip (unauthorized s)))"
    using assms by (intro places_admit [of "id_count s"]) (simp_all add: table_ok_def)
  moreover have "conns s ?i = None" using no_id_above [OF assms] by simp
  ultimately show ?thesis using assms
    by (auto simp: table_ok_def arrive_def get_new_id_def admit_unauthorized_def Let_def held_evict held_push split: if_splits)
qed

lemma table_leave: "table_ok s \<Longrightarrow> table_ok (leave i s)"
  by (simp add: table_ok_def leave_def places_drop held_drop)

lemma table_step:
  assumes "table_ok s"
  shows "table_ok (fst (gate_step e s))"
proof (cases e)
  case (Arrive addr)
  then show ?thesis using assms table_arrive by simp
next
  case (Authorize i)
  then show ?thesis using assms table_leave [OF assms, of i]
    by (auto simp: authorize_def table_ok_def split: option.splits)
qed (use assms table_leave [OF assms] in
  \<open>auto simp: table_ok_def login_check_def login_verdict_def Let_def held_same split: option.splits prod.splits if_splits\<close>)

lemma gate_run_Cons:
  "fst (gate_run (e # es) s) = fst (gate_run es (fst (gate_step e s)))"
  "snd (gate_run (e # es) s) = snd (gate_step e s) @ snd (gate_run es (fst (gate_step e s)))"
  by (simp_all split: prod.splits)

lemma table_run: "table_ok s \<Longrightarrow> table_ok (fst (gate_run es s))"
proof (induction es arbitrary: s)
  case (Cons e es)
  then show ?case using table_step [OF Cons.prems] by (simp only: gate_run_Cons)
qed simp

lemma table_init: "table_ok (gate_init seed)"
  by (simp add: table_ok_def gate_init_def places_ok_def held_def)

lemma filter_tl_le: "\<forall>u \<in> set (tl us). \<not> P u \<Longrightarrow> length (filter P us) \<le> 1"
  by (cases us) auto

text \<open>C21. However connections arrive, try to log in, log in and leave, at most 64 are between their
  acceptance and their authorization, at most 16 of them from one address, and at most one of them is on
  its way out to make room. A connection holds a place from its admission until it has authorized or gone,
  so a place is never freed under a connection that is still there.\<close>

theorem unauthorized_bounded:
  "let s = fst (gate_run es (gate_init seed)) in
   length (unauthorized s) \<le> 64 \<and>
   (\<forall>ip. length (filter (\<lambda>u. place_ip u = ip) (unauthorized s)) \<le> 16) \<and>
   length (filter evicted (unauthorized s)) \<le> 1 \<and>
   distinct (map place_id (unauthorized s)) \<and> place_id ` set (unauthorized s) = dom (conns s)"
proof -
  let ?s = "fst (gate_run es (gate_init seed))"
  have ok: "places_ok (id_count ?s) (unauthorized ?s)" and held: "held (unauthorized ?s) (conns ?s)"
    using table_run [OF table_init] by (simp_all add: table_ok_def)
  have "i \<in> place_id ` set (unauthorized ?s) \<longleftrightarrow> (\<exists>ip. (i, ip) \<in> set (map owner (unauthorized ?s)))" for i by force
  then have "place_id ` set (unauthorized ?s) = dom (conns ?s)"
    using held by (auto simp: held_def simp del: set_map)
  moreover have "length (filter evicted (unauthorized ?s)) \<le> 1" using ok by (intro filter_tl_le) (simp add: places_ok_def)
  ultimately show ?thesis
    using ok by (simp add: Let_def places_ok_def max_unauthorized_conns_def max_unauthorized_conns_per_addr_def)
qed

text \<open>An identifier stays within the \<open>i32\<close> of the source for as many arrivals as fit.\<close>

lemma id_count_bound: "id_count (fst (gate_run es s)) \<le> id_count s + int (length es)"
proof (induction es arbitrary: s)
  case (Cons e es)
  have "id_count (fst (gate_step e s)) \<le> id_count s + 1"
    by (cases e) (auto simp: arrive_def get_new_id_def Let_def leave_def login_check_def login_verdict_def
      authorize_def split: option.splits prod.splits)
  then show ?case using Cons.IH [of "fst (gate_step e s)"] unfolding gate_run_Cons by simp
qed simp

section \<open>Addresses as keys\<close>

lemma set_join_with: "set (join_with c xs) \<subseteq> insert c (\<Union> (set ` set xs))"
  by (induction c xs rule: join_with.induct) auto

lemma sep_in_join: "2 \<le> length xs \<Longrightarrow> c \<in> set (join_with c xs)"
  by (induction c xs rule: join_with.induct) auto

lemma show_ipv4_chars:
  assumes "x \<in> set (show_ipv4 a)"
  shows "x = CHR ''.'' \<or> 48 \<le> (of_char x :: nat) \<and> (of_char x :: nat) \<le> 57"
proof -
  have "x = CHR ''.'' \<or> (\<exists>n. x \<in> set (show_nat n))"
    using assms set_join_with [of "CHR ''.''" "map (\<lambda>b. show_nat (unat b)) (ipv4_octets a)"]
    by (auto simp: show_ipv4_def)
  then show ?thesis using show_nat_digits by blast
qed

lemma show_ipv4_plain: "CHR ''/'' \<notin> set (show_ipv4 a)" "CHR '':'' \<notin> set (show_ipv4 a)"
  using show_ipv4_chars [of "CHR ''/''" a] show_ipv4_chars [of "CHR '':''" a] by auto

lemma show_ipv6_colon: "CHR '':'' \<in> set (show_ipv6 a)"
proof -
  have "CHR '':'' \<in> set (show_segments (segments a))"
    unfolding show_segments_def by (rule sep_in_join) (simp add: segments_def)
  moreover obtain start len where "longest_zero_span 0 (segments a) (0, 0) (0, 0) = (start, len)"
    by (cases "longest_zero_span 0 (segments a) (0, 0) (0, 0)")
  moreover have "CHR '':'' \<in> set (''::ffff:'' @ xs)" "CHR '':'' \<in> set (ys @ ''::'' @ zs)" for xs ys zs by simp_all
  ultimately show ?thesis unfolding show_ipv6_def Let_def by (simp only: prod.case split: if_split) blast
qed

lemma show_nat_inj:
  assumes "show_nat m = show_nat n"
  shows "m = n"
proof -
  have "Some m = digits_value 10 0 (show_nat m)" by (simp only: digits_value_show)
  also have "\<dots> = Some n" by (simp only: assms digits_value_show)
  finally show ?thesis by (simp only: option.inject)
qed

lemma split_show_ipv4: "split_on CHR ''.'' (show_ipv4 x) = map (\<lambda>b. show_nat (unat b)) (ipv4_octets x)"
proof -
  have "CHR ''.'' \<notin> set (show_nat n)" for n
    using show_nat_digits [of "CHR ''.''" n] by auto
  moreover have "ipv4_octets x \<noteq> []"
  proof
    assume "ipv4_octets x = []"
    moreover have "length (ipv4_octets x) = 4" by (simp add: ipv4_octets_def)
    ultimately show False by simp
  qed
  ultimately show ?thesis unfolding show_ipv4_def by (intro split_join) auto
qed

lemma show_ipv4_inj:
  assumes "show_ipv4 a = show_ipv4 b"
  shows "a = b"
proof -
  have "map (\<lambda>b. show_nat (unat b)) (ipv4_octets a) = map (\<lambda>b. show_nat (unat b)) (ipv4_octets b)"
    using split_show_ipv4 [of a] split_show_ipv4 [of b] assms by simp
  moreover have "inj (\<lambda>b :: 8 word. show_nat (unat b))"
    by (rule injI) (drule show_nat_inj, simp add: word_unat_eq_iff)
  ultimately have "to_be 4 a = to_be 4 b" by (simp add: inj_map_eq_map ipv4_octets_def)
  then have "(of_be (to_be 4 a) :: 32 word) = of_be (to_be 4 b)" by simp
  then show ?thesis by (simp add: of_be_to_be_full)
qed

lemma ip_string_v4: "ip_to_string ip = show_ipv4 a \<longleftrightarrow> ip = IpV4 a"
proof (cases ip)
  case (IpV4 b)
  then show ?thesis using show_ipv4_inj by auto
next
  case (IpV6 b)
  have "show_ipv6 b \<noteq> show_ipv4 a"
  proof
    assume "show_ipv6 b = show_ipv4 a"
    with show_ipv6_colon [of b] have "CHR '':'' \<in> set (show_ipv4 a)" by (simp only:)
    with show_ipv4_plain(2) [of a] show False by (rule notE)
  qed
  then show ?thesis using IpV6 by simp
qed

section \<open>Wrong guesses\<close>

abbreviation book :: "gate \<Rightarrow> failures" where "book s \<equiv> login_failures (guard s) 0"

definition comparing :: "gate \<Rightarrow> ip_addr \<Rightarrow> int set" where
  "comparing s ip = {i. \<exists>c. conns s i = Some c \<and> c_ip c = ip \<and> c_check c \<noteq> None}"

definition guesses_ok :: "gate \<Rightarrow> bool" where
  "guesses_ok s \<longleftrightarrow> (\<forall>k. 0 \<le> count_of (book s) k) \<and>
     (\<forall>a. count_of (book s) (show_ipv4 a) + int (card (comparing s (IpV4 a))) \<le> 30 + 16)"

lemma checking_card:
  assumes "table_ok s"
  shows "finite (comparing s ip)" "card (comparing s ip) \<le> 16"
proof -
  let ?P = "filter (\<lambda>u. place_ip u = ip) (unauthorized s)"
  have sub: "comparing s ip \<subseteq> place_id ` set ?P"
  proof
    fix i
    assume "i \<in> comparing s ip"
    then have "(i, ip) \<in> set (map owner (unauthorized s))"
      using assms by (auto simp: comparing_def table_ok_def held_def simp del: set_map)
    then show "i \<in> place_id ` set ?P" by force
  qed
  then show "finite (comparing s ip)" by (rule finite_subset) simp
  have "card (comparing s ip) \<le> card (place_id ` set ?P)" using sub by (intro card_mono) simp_all
  also have "\<dots> \<le> length ?P" by (metis card_length length_map set_map)
  also have "\<dots> \<le> 16" using assms by (simp add: table_ok_def places_ok_def max_unauthorized_conns_per_addr_def)
  finally show "card (comparing s ip) \<le> 16" .
qed

lemma checking_upd:
  assumes "conns s' = (conns s)(i := x)"
  shows "comparing s' ip = (case x of
      Some c \<Rightarrow> if c_ip c = ip \<and> c_check c \<noteq> None then insert i (comparing s ip) else comparing s ip - {i}
    | None \<Rightarrow> comparing s ip - {i})"
  using assms by (auto simp: comparing_def split: option.splits)

lemma not_checking: "conns s i = Some c \<Longrightarrow> c_check c = None \<or> c_ip c \<noteq> ip \<Longrightarrow> i \<notin> comparing s ip"
  by (auto simp: comparing_def)

lemma guesses_same:
  assumes "guesses_ok s" "book s' = book s" "\<And>ip. comparing s' ip = comparing s ip"
  shows "guesses_ok s'"
  using assms by (simp add: guesses_ok_def)

lemma guesses_gone:
  assumes "guesses_ok s" "conns s i = Some c" "c_check c = None" "book s' = book s" "conns s' = (conns s)(i := None)"
  shows "guesses_ok s'"
  using assms(1,4) by (rule guesses_same) (simp add: checking_upd [OF assms(5)] not_checking [OF assms(2)] assms(3))

lemma guesses_login:
  assumes "table_ok s" "guesses_ok s" "conns s i = Some c" "c_check c = None"
  shows "guesses_ok (fst (login_check i now c s))"
proof -
  obtain ft res outs where r: "check_failures (book s) (minute_of now) (ip_to_string (c_ip c)) = (ft, res, outs)"
    by (rule prod_cases3)
  let ?s = "fst (login_check i now c s)"
  have bk: "book ?s = book s" by (simp add: login_check_def default_check_pure r)
  show ?thesis
  proof (cases res)
    case False
    then have "conns ?s = conns s" by (simp add: login_check_def default_check_pure r)
    then show ?thesis by (intro guesses_same [OF assms(2) bk]) (simp add: comparing_def)
  next
    case True
    then have cs: "conns ?s = (conns s)(i \<mapsto> c\<lparr>c_check := Some ft\<rparr>)"
      by (simp add: login_check_def default_check_pure r)
    have "table_ok ?s" using table_step [OF assms(1), of "Login i now"] assms(3,4) by simp
    note cap = checking_card(2) [OF this]
    have "count_of (book s) (show_ipv4 a) + int (card (comparing ?s (IpV4 a))) \<le> 30 + 16" for a
    proof (cases "c_ip c = IpV4 a")
      case here: True
      have "fst (snd (check_failures (book s) (minute_of now) (show_ipv4 a)))"
        using r True here by (simp only: ip_to_string.simps fst_conv snd_conv)
      then show ?thesis
        using cap [of "IpV4 a"] by (intro address_book.admitted_within) simp_all
    next
      case False
      then have "i \<notin> comparing s (IpV4 a)" using not_checking [OF assms(3)] by blast
      then have "comparing ?s (IpV4 a) = comparing s (IpV4 a)"
        using checking_upd [OF cs, of "IpV4 a"] False by simp
      then show ?thesis using assms(2) by (simp add: guesses_ok_def)
    qed
    then show ?thesis using assms(2) bk by (simp add: guesses_ok_def)
  qed
qed

lemma guesses_verdict:
  assumes "table_ok s" "guesses_ok s" "conns s i = Some c" "c_check c = Some ft"
  shows "guesses_ok (fst (login_verdict i valid now ft c s))"
proof -
  let ?s = "fst (login_verdict i valid now ft c s)" and ?ip = "ip_to_string (c_ip c)"
  have cs: "conns ?s = (conns s)(i \<mapsto> c\<lparr>c_check := None\<rparr>)" by (simp add: login_verdict_def Let_def)
  have fin: "finite (comparing s ip)" for ip by (rule checking_card(1) [OF assms(1)])
  have less: "int (card (comparing ?s (IpV4 a))) + (if show_ipv4 a = ?ip then 1 else 0) \<le> int (card (comparing s (IpV4 a)))" for a
  proof (cases "c_ip c = IpV4 a")
    case True
    then have "i \<in> comparing s (IpV4 a)" unfolding comparing_def using assms(3,4) by blast
    then have "card (comparing s (IpV4 a)) = Suc (card (comparing s (IpV4 a) - {i}))"
      by (rule card.remove [OF fin])
    then show ?thesis using True checking_upd [OF cs, of "IpV4 a"] by simp
  next
    case False
    then show ?thesis
      using checking_upd [OF cs, of "IpV4 a"] not_checking [OF assms(3), of "IpV4 a"] ip_string_v4 [of "c_ip c" a] by auto
  qed
  have pos: "\<And>k. 0 \<le> count_of (book s) k"
    and old: "\<And>a. count_of (book s) (show_ipv4 a) + int (card (comparing s (IpV4 a))) \<le> 30 + 16"
    using assms(2) by (simp_all add: guesses_ok_def)
  obtain f time where ft: "ft = (f, time)" by (cases ft)
  show ?thesis
  proof (cases valid)
    case True
    then have bk: "book ?s = remove_failure f ?ip (book s)"
      by (simp add: login_verdict_def Let_def update_failure_with_scope_def ft)
    have "int (card (comparing ?s (IpV4 a))) \<le> int (card (comparing s (IpV4 a)))" for a
      using less [of a] by (simp split: if_splits)
    from address_book.forgiven_within [OF pos old this]
    show ?thesis using address_book.forgiving_lowers [OF pos] unfolding guesses_ok_def bk by blast
  next
    case False
    then have bk: "book ?s = add_failure time ?ip (book s)"
      by (simp add: login_verdict_def Let_def update_failure_with_scope_def ft)
    from address_book.failed_within [OF show_ipv4_plain(1) old less]
    show ?thesis using address_book.failing_nonneg [OF pos] unfolding guesses_ok_def bk by blast
  qed
qed

lemma arrive_keeps:
  assumes "table_ok s"
  shows "book (fst (arrive addr s)) = book s" "comparing (fst (arrive addr s)) ip = comparing s ip"
  using no_id_above [OF assms, of "id_count s + 1"]
  by (auto simp: arrive_def get_new_id_def Let_def comparing_def split: prod.splits)

lemma book_authorize: "book (authorize i c s) = book s"
  by (simp add: authorize_def leave_def clear_id_whitelist_failures_def failure_idx_id_whitelist_def)

lemma guesses_step:
  assumes "table_ok s" "guesses_ok s"
  shows "guesses_ok (fst (gate_step e s))"
proof (cases e)
  case (Arrive addr)
  then show ?thesis using guesses_same [OF assms(2)] arrive_keeps [OF assms(1)] by simp
next
  case (Leave i)
  then show ?thesis using assms(2) guesses_gone [OF assms(2), of i _ "leave i s"]
    by (simp add: leave_def split: option.split)
next
  case (Login i now)
  then show ?thesis using assms guesses_login [OF assms, of i] by (simp split: option.split)
next
  case (Verdict i valid now)
  then show ?thesis using assms guesses_verdict [OF assms, of i] by (simp split: option.split)
next
  case (Authorize i)
  have "conns (authorize i c s) = (conns s)(i := None)" for c by (simp add: authorize_def leave_def)
  then show ?thesis using Authorize assms(2) guesses_gone [OF assms(2), of i] book_authorize [of i _ s]
    by (simp split: option.split)
qed

lemma guesses_run:
  assumes "table_ok s" "guesses_ok s"
  shows "guesses_ok (fst (gate_run es s))"
  using assms
proof (induction es arbitrary: s)
  case (Cons e es)
  then show ?case
    using table_step [OF Cons.prems(1)] guesses_step [OF Cons.prems] by (simp only: gate_run_Cons)
qed simp

lemma guesses_init: "guesses_ok (gate_init seed)"
  by (simp add: guesses_ok_def gate_init_def guard_init_def comparing_def)

text \<open>Every wrong guess from an address is in its count until a right one.\<close>

definition wrong_guesses :: "ip_addr \<Rightarrow> gate_out list \<Rightarrow> nat" where
  "wrong_guesses ip outs = length (filter (\<lambda>x. x = Wrong_Guess ip) outs)"

lemma wrong_step:
  assumes "table_ok s" "Right_Guess (IpV4 a) \<notin> set (snd (gate_step e s))"
  shows "count_of (book (fst (gate_step e s))) (show_ipv4 a) =
    count_of (book s) (show_ipv4 a) + int (wrong_guesses (IpV4 a) (snd (gate_step e s)))"
proof (cases e)
  case (Arrive addr)
  then show ?thesis using arrive_keeps(1) [OF assms(1), of addr]
    by (simp add: arrive_def wrong_guesses_def Let_def split: prod.splits)
next
  case (Leave i)
  then show ?thesis by (simp add: leave_def wrong_guesses_def split: option.split)
next
  case (Login i now)
  then show ?thesis
    by (auto simp: login_check_def default_check_pure wrong_guesses_def filter_map comp_def split: option.split prod.splits)
next
  case (Verdict i valid now)
  then show ?thesis using assms(2)
    by (auto simp: login_verdict_def Let_def update_failure_with_scope_def wrong_guesses_def ip_string_v4
      count_add_failure count_remove_failure show_ipv4_plain split: option.splits prod.splits dest: sym)
next
  case (Authorize i)
  then show ?thesis by (simp add: book_authorize wrong_guesses_def split: option.split)
qed

lemma wrong_run:
  assumes "table_ok s" "Right_Guess (IpV4 a) \<notin> set (snd (gate_run es s))"
  shows "count_of (book (fst (gate_run es s))) (show_ipv4 a) =
    count_of (book s) (show_ipv4 a) + int (wrong_guesses (IpV4 a) (snd (gate_run es s)))"
  using assms
proof (induction es arbitrary: s)
  case (Cons e es)
  have "Right_Guess (IpV4 a) \<notin> set (snd (gate_step e s))" "Right_Guess (IpV4 a) \<notin> set (snd (gate_run es (fst (gate_step e s))))"
    using Cons.prems(2) unfolding gate_run_Cons by simp_all
  then show ?case
    using wrong_step [OF Cons.prems(1)] Cons.IH [OF table_step [OF Cons.prems(1)]]
    unfolding gate_run_Cons wrong_guesses_def by simp
qed (simp add: wrong_guesses_def)

text \<open>C20. Whatever has happened before, an IPv4 address that does not log in is wrong at most 46 times: once its
  thirty-first failure is counted no attempt passes the check, and at most 16 attempts, one for each of
  the unauthorized connections that one address may hold, can have passed it before the failures are
  counted.\<close>

theorem wrong_guesses_bounded:
  assumes "gate_run earlier (gate_init seed) = (s, outs)" "gate_run es s = (s', outs')"
    and "Right_Guess (IpV4 a) \<notin> set outs'"
  shows "wrong_guesses (IpV4 a) outs' \<le> 46"
proof -
  have tab: "table_ok s" using table_run [OF table_init, of earlier seed] assms(1) by simp
  have ok: "guesses_ok s" using guesses_run [OF table_init guesses_init, of earlier seed] assms(1) by simp
  have ok': "guesses_ok s'" using guesses_run [OF tab ok, of es] assms(2) by simp
  have "0 \<le> count_of (book s) (show_ipv4 a)" using ok by (simp add: guesses_ok_def)
  moreover have "count_of (book s') (show_ipv4 a) + int (card (comparing s' (IpV4 a))) \<le> 30 + 16"
    using ok' unfolding guesses_ok_def by blast
  moreover have "count_of (book s') (show_ipv4 a) = count_of (book s) (show_ipv4 a) + int (wrong_guesses (IpV4 a) outs')"
    using wrong_run [OF tab, of a es] assms(2,3) by simp
  ultimately show ?thesis by linarith
qed

definition demo_addr :: socket_addr where "demo_addr = SockV4 0x0A000001 4000"

definition demo_key :: string where "demo_key = ''10.0.0.1''"

lemma demo_octets: "ipv4_octets 0x0A000001 = [10, 0, 0, 1]"
  by (simp add: ipv4_octets_def to_be_def to_le_def upt_rec drop_bit_eq_div)

lemma demo_string: "ip_to_string (sa_ip (try_into_v4 demo_addr)) = demo_key"
  by (simp add: demo_addr_def demo_key_def show_ipv4_def demo_octets show_nat_unfold char_of_def bit_0)

lemma demo_prefixes: "get_ipv6_prefixes demo_key = None"
  by (simp add: demo_key_def get_ipv6_prefixes_def str_trim_def is_space_def addr_eval)

definition demo_earlier :: "gate_event list" where
  "demo_earlier = [Arrive demo_addr, Arrive demo_addr, Login 1001 60000, Verdict 1001 False 60000]"

definition demo_later :: "gate_event list" where
  "demo_later = [Login 1001 120000, Login 1002 120000, Verdict 1001 False 120000, Verdict 1002 False 120000]"

lemmas gate_eval =
  arrive_def get_new_id_def admit_unauthorized_def max_unauthorized_conns_def max_unauthorized_conns_per_addr_def
  login_check_def login_verdict_def default_check_pure check_failures_def check_direct_address_def failure_of_def
  update_failure_with_scope_def add_failure_def bump_key_def bump_failure_entry_def minute_of_def gate_init_def guard_init_def

lemma demo_ip: "sa_ip (try_into_v4 demo_addr) = IpV4 0x0A000001" by (simp add: demo_addr_def)

lemma demo_show: "show_ipv4 0x0A000001 = demo_key"
  using demo_string unfolding demo_ip by simp

lemma demo_later_guesses:
  "snd (gate_run demo_later (fst (gate_run demo_earlier (gate_init 1000)))) =
     [Wrong_Guess (IpV4 0x0A000001), Told (LoginError ''Wrong Password''),
      Wrong_Guess (IpV4 0x0A000001), Told (LoginError ''Wrong Password'')]"
  by (simp add: demo_earlier_def demo_later_def gate_eval demo_ip demo_show demo_prefixes Let_def)

text \<open>Two connections of one address pass the check together and are both wrong.\<close>

theorem wrong_guesses_bounded_witness:
  "let s = fst (gate_run demo_earlier (gate_init 1000)); outs = snd (gate_run demo_later s) in
   wrong_guesses (IpV4 0x0A000001) outs = 2 \<and> wrong_guesses (IpV4 0x0A000001) outs \<le> 46"
proof -
  have "Right_Guess (IpV4 0x0A000001) \<notin> set (snd (gate_run demo_later (fst (gate_run demo_earlier (gate_init 1000)))))"
    by (simp add: demo_later_guesses)
  from wrong_guesses_bounded [OF prod.collapse [symmetric] prod.collapse [symmetric] this]
  show ?thesis by (simp add: Let_def demo_later_guesses wrong_guesses_def)
qed

end
