(* ===== verification/Password_Store.thy ===== *)
theory Password_Store
  imports Login_Guard
begin

text \<open>
  How the controlled side keeps its permanent password and checks a login against it:
  \<^item> \<^verbatim>\<open>src/client/libs/hbb_common/src/password_security.rs\<close>: encryption of stored values under a key of the machine;
  \<^item> \<^verbatim>\<open>src/client/libs/hbb_common/src/config/permanent_password.rs\<close>: the storage formats (plain text, \<open>00\<close>: encrypted
    plain text, \<open>01\<close>: encrypted salted hash);
  \<^item> \<^verbatim>\<open>src/client/libs/hbb_common/src/config.rs\<close>: setting, storing, loading and synchronizing the password and its salt;
  \<^item> \<^verbatim>\<open>src/client/src/server/connection.rs\<close>: \<open>validate_password\<close> and what it calls, and the response of the client in
    \<^verbatim>\<open>src/client/src/client.rs\<close>.
  The libsodium secret box, Base64 and SHA-256 are third-party code, the fields of the parameter \<open>crypto\<close>; \<open>crypto_ok\<close>
  states what they document. Random values (nonces, salts, ids) are arguments. The configuration file is the
  last configuration written; the configuration in memory and the file are passed explicitly. The fallback to
  the public key in \<open>symmetric_crypt\<close> is that of the desktop builds.
\<close>

section \<open>Text\<close>

text \<open>\<open>String::from_utf8_lossy\<close>: a malformed sequence, up to where it stops being a prefix of a valid one, becomes
  the replacement character.\<close>

definition continuation :: "u8 \<Rightarrow> bool" where "continuation b \<longleftrightarrow> 0x80 \<le> b \<and> b \<le> 0xBF"

definition utf8_width :: "u8 \<Rightarrow> nat" where
  "utf8_width b =
     (if b < 0x80 then 1 else if b < 0xC2 then 0 else if b < 0xE0 then 2
      else if b < 0xF0 then 3 else if b < 0xF5 then 4 else 0)"

definition second_ok :: "u8 \<Rightarrow> u8 \<Rightarrow> bool" where
  "second_ok b c \<longleftrightarrow> continuation c \<and>
     (b = 0xE0 \<longrightarrow> 0xA0 \<le> c) \<and> (b = 0xED \<longrightarrow> c \<le> 0x9F) \<and> (b = 0xF0 \<longrightarrow> 0x90 \<le> c) \<and> (b = 0xF4 \<longrightarrow> c \<le> 0x8F)"

definition of_bytes :: "bytes \<Rightarrow> string" where "of_bytes bs = map (\<lambda>b. char_of (unat b)) bs"

definition replacement :: string where "replacement = of_bytes [0xEF, 0xBF, 0xBD]"

fun from_utf8_lossy :: "bytes \<Rightarrow> string" where
  "from_utf8_lossy [] = []"
| "from_utf8_lossy (b # bs) =
     (if utf8_width b = 1 then of_bytes [b] @ from_utf8_lossy bs
      else if utf8_width b = 0 then replacement @ from_utf8_lossy bs
      else (case bs of
        [] \<Rightarrow> replacement
      | c # cs \<Rightarrow>
          if \<not> second_ok b c then replacement @ from_utf8_lossy (c # cs)
          else if utf8_width b = 2 then of_bytes [b, c] @ from_utf8_lossy cs
          else (case cs of
            [] \<Rightarrow> replacement
          | d # ds \<Rightarrow>
              if \<not> continuation d then replacement @ from_utf8_lossy (d # ds)
              else if utf8_width b = 3 then of_bytes [b, c, d] @ from_utf8_lossy ds
              else (case ds of
                [] \<Rightarrow> replacement
              | e # es \<Rightarrow>
                  if \<not> continuation e then replacement @ from_utf8_lossy (e # es)
                  else of_bytes [b, c, d, e] @ from_utf8_lossy es))))"

text \<open>\<open>chars().count()\<close> of a string, which is valid UTF-8: its bytes that do not continue a character.\<close>

definition chars_count :: "string \<Rightarrow> nat" where
  "chars_count s = length (filter (\<lambda>c. \<not> continuation (of_char c)) s)"

definition starts_with :: "string \<Rightarrow> string \<Rightarrow> bool" where
  "starts_with s prefix \<longleftrightarrow> take (length prefix) s = prefix"

section \<open>Encryption of stored values\<close>

record crypto =
  seal :: "bytes \<Rightarrow> bytes \<Rightarrow> bytes \<Rightarrow> bytes"
  open_box :: "bytes \<Rightarrow> bytes \<Rightarrow> bytes \<Rightarrow> bytes option"
  b64e :: "bytes \<Rightarrow> string"
  b64d :: "bytes \<Rightarrow> bytes option"
  sha256 :: "bytes \<Rightarrow> bytes"

record machine =
  machine_uuid :: bytes
  existing_pk :: "bytes option"

definition keybytes :: nat where "keybytes = 32"
definition noncebytes :: nat where "noncebytes = 24"
definition macbytes :: nat where "macbytes = 16"

text \<open>What the libraries document: the box opens with the nonce and the key it was sealed with and is longer by the
  authenticator, Base64 is ASCII text that decodes to what was encoded, and a digest has 32 bytes.\<close>

definition crypto_ok :: "crypto \<Rightarrow> bool" where
  "crypto_ok cr \<longleftrightarrow>
     (\<forall>d n k. length n = noncebytes \<longrightarrow> length k = keybytes \<longrightarrow> open_box cr (seal cr d n k) n k = Some d) \<and>
     (\<forall>d n k. length (seal cr d n k) = length d + macbytes) \<and>
     (\<forall>v. b64d cr (as_bytes (b64e cr v)) = Some v) \<and>
     (\<forall>v. \<forall>c \<in> set (b64e cr v). (of_char c :: nat) < 128) \<and>
     (\<forall>v. length v \<le> length (b64e cr v) \<and> length (b64e cr v) \<le> 2 * length v + 2) \<and>
     (\<forall>v. length (sha256 cr v) = 32)"

definition resize :: "nat \<Rightarrow> bytes \<Rightarrow> bytes" where
  "resize n v = take n v @ replicate (n - length v) 0"

definition open_secretbox_payload :: "crypto \<Rightarrow> bytes \<Rightarrow> bytes \<Rightarrow> bytes option" where
  "open_secretbox_payload cr data key =
     (let legacy = open_box cr data (replicate noncebytes 0) key in
      if data \<noteq> [] \<and> hd data = 1 \<and> length data \<ge> 1 + noncebytes + macbytes then
        (case open_box cr (drop (1 + noncebytes) data) (take noncebytes (drop 1 data)) key of
           Some d \<Rightarrow> Some d
         | None \<Rightarrow> legacy)
      else legacy)"

definition symmetric_encrypt :: "crypto \<Rightarrow> machine \<Rightarrow> bytes \<Rightarrow> bytes \<Rightarrow> bytes" where
  "symmetric_encrypt cr mach nonce data = [1] @ nonce @ seal cr data nonce (resize keybytes (machine_uuid mach))"

definition symmetric_decrypt :: "crypto \<Rightarrow> machine \<Rightarrow> bytes \<Rightarrow> bytes option" where
  "symmetric_decrypt cr mach data =
     (case open_secretbox_payload cr data (resize keybytes (machine_uuid mach)) of
        Some d \<Rightarrow> Some d
      | None \<Rightarrow>
          (case existing_pk mach of
             Some pk \<Rightarrow> if pk \<noteq> machine_uuid mach then open_secretbox_payload cr data (resize keybytes pk) else None
           | None \<Rightarrow> None))"

definition encrypt :: "crypto \<Rightarrow> machine \<Rightarrow> bytes \<Rightarrow> bytes \<Rightarrow> string option" where
  "encrypt cr mach nonce v = (if v \<noteq> [] then Some (b64e cr (symmetric_encrypt cr mach nonce v)) else None)"

definition decrypt :: "crypto \<Rightarrow> machine \<Rightarrow> bytes \<Rightarrow> bytes option" where
  "decrypt cr mach v =
     (if v \<noteq> [] then (case b64d cr v of Some d \<Rightarrow> symmetric_decrypt cr mach d | None \<Rightarrow> None) else None)"

definition version_len :: nat where "version_len = 2"

definition is_encrypted :: "crypto \<Rightarrow> bytes \<Rightarrow> bool" where
  "is_encrypted cr v \<longleftrightarrow>
     length v > version_len \<and> take 2 v = as_bytes ''00'' \<and>
     (case b64d cr (drop version_len v) of Some d \<Rightarrow> length d \<ge> macbytes | None \<Rightarrow> False)"

definition encrypt_str_or_original :: "crypto \<Rightarrow> machine \<Rightarrow> bytes \<Rightarrow> string \<Rightarrow> string \<Rightarrow> nat \<Rightarrow> string" where
  "encrypt_str_or_original cr mach nonce s version max_len =
     (if is_encrypted cr (as_bytes s) then s
      else if chars_count s > max_len then []
      else (case (if version = ''00'' then encrypt cr mach nonce (as_bytes s) else None) of
              Some e \<Rightarrow> version @ e
            | None \<Rightarrow> s))"

definition decrypt_str_or_original :: "crypto \<Rightarrow> machine \<Rightarrow> string \<Rightarrow> string \<Rightarrow> string \<times> bool \<times> bool" where
  "decrypt_str_or_original cr mach s current_version =
     (case (if length s > version_len \<and> starts_with s ''00'' then decrypt cr mach (as_bytes (drop version_len s)) else None) of
        Some v \<Rightarrow> (from_utf8_lossy v, True, ''00'' \<noteq> current_version)
      | None \<Rightarrow> (s, False, s \<noteq> [] \<and> \<not> is_encrypted cr (as_bytes s)))"

definition encrypt_vec_or_original :: "crypto \<Rightarrow> machine \<Rightarrow> bytes \<Rightarrow> bytes \<Rightarrow> string \<Rightarrow> nat \<Rightarrow> bytes" where
  "encrypt_vec_or_original cr mach nonce v version max_len =
     (if is_encrypted cr v then v
      else if length v > max_len then []
      else (case (if version = ''00'' then encrypt cr mach nonce v else None) of
              Some e \<Rightarrow> as_bytes version @ as_bytes e
            | None \<Rightarrow> v))"

definition decrypt_vec_or_original :: "crypto \<Rightarrow> machine \<Rightarrow> bytes \<Rightarrow> string \<Rightarrow> bytes \<times> bool \<times> bool" where
  "decrypt_vec_or_original cr mach v current_version =
     (case (if length v > version_len \<and> from_utf8_lossy (take version_len v) = ''00'' then decrypt cr mach (drop version_len v) else None) of
        Some d \<Rightarrow> (d, True, ''00'' \<noteq> current_version)
      | None \<Rightarrow> (v, False, v \<noteq> [] \<and> \<not> is_encrypted cr v))"

section \<open>Formats of the permanent password\<close>

definition encrypt_max_len :: nat where "encrypt_max_len = 128"
definition default_salt_len :: nat where "default_salt_len = 32"

definition compute_permanent_password_h1 :: "crypto \<Rightarrow> string \<Rightarrow> string \<Rightarrow> bytes" where
  "compute_permanent_password_h1 cr password salt = take 32 (sha256 cr (as_bytes password @ as_bytes salt))"

definition encode_permanent_password_storage_from_h1 :: "crypto \<Rightarrow> bytes \<Rightarrow> string" where
  "encode_permanent_password_storage_from_h1 cr h1 = ''00'' @ b64e cr h1"

definition decode_password_h1_after_prefix :: "crypto \<Rightarrow> string \<Rightarrow> string \<Rightarrow> bytes option" where
  "decode_password_h1_after_prefix cr storage prefix =
     (if \<not> starts_with storage prefix then None
      else (case b64d cr (as_bytes (drop (length prefix) storage)) of
              Some v \<Rightarrow> if length v = 32 then Some v else None
            | None \<Rightarrow> None))"

definition decode_permanent_password_h1_from_hashed_storage :: "crypto \<Rightarrow> string \<Rightarrow> bytes option" where
  "decode_permanent_password_h1_from_hashed_storage cr storage = decode_password_h1_after_prefix cr storage ''00''"

definition decode_preset_password_h1_from_storage :: "crypto \<Rightarrow> string \<Rightarrow> bytes option" where
  "decode_preset_password_h1_from_storage cr storage = decode_password_h1_after_prefix cr storage ''00''"

definition encrypt_permanent_password_storage :: "crypto \<Rightarrow> machine \<Rightarrow> bytes \<Rightarrow> string \<Rightarrow> string option" where
  "encrypt_permanent_password_storage cr mach nonce storage =
     (if chars_count storage > encrypt_max_len then None
      else Some (''01'' @ b64e cr (symmetric_encrypt cr mach nonce (as_bytes storage))))"

definition encode_permanent_password_encrypted_storage_from_h1 :: "crypto \<Rightarrow> machine \<Rightarrow> bytes \<Rightarrow> bytes \<Rightarrow> string option" where
  "encode_permanent_password_encrypted_storage_from_h1 cr mach nonce h1 =
     encrypt_permanent_password_storage cr mach nonce (encode_permanent_password_storage_from_h1 cr h1)"

definition decrypt_permanent_password_str_or_original :: "crypto \<Rightarrow> machine \<Rightarrow> string \<Rightarrow> string \<times> bool \<times> bool" where
  "decrypt_permanent_password_str_or_original cr mach storage =
     (case (if length storage > version_len \<and> starts_with storage ''01''
            then Option.bind (b64d cr (as_bytes (drop version_len storage))) (symmetric_decrypt cr mach) else None) of
        Some v \<Rightarrow> (from_utf8_lossy v, True, False)
      | None \<Rightarrow> (storage, False, storage \<noteq> []))"

definition decode_permanent_password_h1_from_storage :: "crypto \<Rightarrow> machine \<Rightarrow> string \<Rightarrow> bytes option" where
  "decode_permanent_password_h1_from_storage cr mach storage =
     (if starts_with storage ''01'' then
        (case decrypt_permanent_password_str_or_original cr mach storage of
           (hashed_storage, decrypted, _) \<Rightarrow>
             if \<not> decrypted then None else decode_permanent_password_h1_from_hashed_storage cr hashed_storage)
      else None)"

definition local_permanent_password_storage_is_usable_for_auth :: "crypto \<Rightarrow> machine \<Rightarrow> string \<Rightarrow> string \<Rightarrow> bool" where
  "local_permanent_password_storage_is_usable_for_auth cr mach storage salt =
     (if storage = [] then False
      else if decode_permanent_password_h1_from_storage cr mach storage \<noteq> None then salt \<noteq> []
      else if starts_with storage ''01'' \<and> fst (snd (decrypt_permanent_password_str_or_original cr mach storage)) then False
      else (case decrypt_str_or_original cr mach storage ''00'' of
              (_, decrypted, looks_like_plaintext) \<Rightarrow>
                \<not> (starts_with storage ''00'' \<and> \<not> decrypted \<and> \<not> looks_like_plaintext)))"

definition preset_permanent_password_storage_is_usable_for_auth :: "crypto \<Rightarrow> string \<Rightarrow> string \<Rightarrow> bool" where
  "preset_permanent_password_storage_is_usable_for_auth cr storage salt =
     (if storage = [] then False
      else if salt = [] then True
      else decode_preset_password_h1_from_storage cr storage \<noteq> None)"

definition preset_permanent_password_storage_matches_plain :: "crypto \<Rightarrow> string \<Rightarrow> string \<Rightarrow> string \<Rightarrow> bool" where
  "preset_permanent_password_storage_matches_plain cr storage salt input =
     (if storage = [] \<or> input = [] then False
      else if salt = [] then storage = input
      else (case decode_preset_password_h1_from_storage cr storage of
              None \<Rightarrow> False
            | Some h1 \<Rightarrow> compute_permanent_password_h1 cr input salt = h1))"

definition password_is_empty_or_not_hashed :: "crypto \<Rightarrow> machine \<Rightarrow> string \<Rightarrow> bool" where
  "password_is_empty_or_not_hashed cr mach storage =
     (if storage = [] then True
      else if decode_permanent_password_h1_from_storage cr mach storage \<noteq> None then False
      else if starts_with storage ''01'' then False
      else (case decrypt_str_or_original cr mach storage ''00'' of
              (_, decrypted, looks_like_plaintext) \<Rightarrow> decrypted \<or> looks_like_plaintext))"

section \<open>The configuration\<close>

record config =
  cfg_id :: string
  enc_id :: string
  cfg_password :: string
  cfg_salt :: string
  key_pair :: "bytes \<times> bytes"
  key_confirmed :: bool
  keys_confirmed :: "string \<rightharpoonup> bool"

text \<open>The result of \<open>validate_or_decrypt_permanent_password_storage\<close> is the configuration and whether it is \<open>Ok\<close>.\<close>

definition validate_or_decrypt_permanent_password_storage :: "crypto \<Rightarrow> machine \<Rightarrow> config \<Rightarrow> config \<times> bool" where
  "validate_or_decrypt_permanent_password_storage cr mach cfg =
     (if cfg_password cfg = [] then (cfg, True)
      else if starts_with (cfg_password cfg) ''00'' then
        (case decrypt_str_or_original cr mach (cfg_password cfg) ''00'' of
           (plain, decrypted, should_store) \<Rightarrow>
             if decrypted then (cfg\<lparr>cfg_password := plain\<rparr>, True) else (cfg, should_store))
      else (case decrypt_permanent_password_str_or_original cr mach (cfg_password cfg) of
              (decrypted_storage, decrypted, _) \<Rightarrow>
                if decrypted then
                  (cfg, cfg_salt cfg \<noteq> [] \<and> decode_permanent_password_h1_from_hashed_storage cr decrypted_storage \<noteq> None)
                else (cfg, True)))"

definition prepare_config_for_store :: "crypto \<Rightarrow> machine \<Rightarrow> config \<Rightarrow> config" where
  "prepare_config_for_store cr mach cfg =
     (case validate_or_decrypt_permanent_password_storage cr mach cfg of
        (cfg', valid) \<Rightarrow> if valid then cfg' else cfg'\<lparr>cfg_password := [], cfg_salt := []\<rparr>)"

definition keep_encrypted_storage_if_plaintext_unchanged ::
    "crypto \<Rightarrow> machine \<Rightarrow> bytes \<Rightarrow> string \<Rightarrow> string \<Rightarrow> string" where
  "keep_encrypted_storage_if_plaintext_unchanged cr mach nonce plain stored =
     (case decrypt_str_or_original cr mach stored ''00'' of
        (stored_plain, encrypted, _) \<Rightarrow>
          if encrypted \<and> stored_plain = plain then stored
          else encrypt_str_or_original cr mach nonce plain ''00'' encrypt_max_len)"

text \<open>\<open>Config::store\<close>: what is written to the file, given what is there.\<close>

definition config_store :: "crypto \<Rightarrow> machine \<Rightarrow> bytes \<times> bytes \<Rightarrow> config \<Rightarrow> config \<Rightarrow> config" where
  "config_store cr mach nonces disk cfg =
     (let c = prepare_config_for_store cr mach cfg;
          c = (if cfg_password c \<noteq> [] \<and> decode_permanent_password_h1_from_storage cr mach (cfg_password c) = None
               then c\<lparr>cfg_password := keep_encrypted_storage_if_plaintext_unchanged cr mach (fst nonces) (cfg_password c) (cfg_password disk)\<rparr>
               else c);
          c = (case decrypt_str_or_original cr mach (enc_id c) ''00'' of
                 (stored_id, encrypted, _) \<Rightarrow>
                   if \<not> encrypted \<or> stored_id \<noteq> cfg_id c
                   then c\<lparr>enc_id := encrypt_str_or_original cr mach (snd nonces) (cfg_id c) ''00'' encrypt_max_len\<rparr>
                   else c)
      in c\<lparr>cfg_id := []\<rparr>)"

text \<open>\<open>Config::load\<close>: the configuration and the file afterwards. \<open>gen\<close> holds the results of \<open>gen_id\<close>.\<close>

fun first_id :: "nat \<Rightarrow> string option list \<Rightarrow> string option" where
  "first_id 0 gen = None"
| "first_id n [] = None"
| "first_id (Suc n) (g # gen) = (case g of Some i \<Rightarrow> Some i | None \<Rightarrow> first_id n gen)"

definition config_load ::
    "crypto \<Rightarrow> machine \<Rightarrow> bytes \<times> bytes \<Rightarrow> string option list \<Rightarrow> config \<Rightarrow> config \<times> config" where
  "config_load cr mach nonces gen disk =
     (let c = fst (validate_or_decrypt_permanent_password_storage cr mach disk);
          (i, encrypted, store2) = decrypt_str_or_original cr mach (enc_id c) ''00'';
          (c, id_valid, store) =
            (if encrypted then (c\<lparr>cfg_id := i\<rparr>, True, store2)
             else if cfg_id c \<noteq> [] \<and> enc_id c = [] \<and> \<not> fst (snd (decrypt_str_or_original cr mach (cfg_id c) ''00''))
             then (c, True, True)
             else (c, False, False));
          (c, store) =
            (if id_valid then (c, store)
             else (case first_id 3 gen of Some i \<Rightarrow> (c\<lparr>cfg_id := i\<rparr>, True) | None \<Rightarrow> (c, store)))
      in (c, if store then config_store cr mach nonces disk c else disk))"

definition ensure_permanent_password_salt :: "string \<Rightarrow> config \<Rightarrow> config" where
  "ensure_permanent_password_salt fresh cfg = (if cfg_salt cfg = [] then cfg\<lparr>cfg_salt := fresh\<rparr> else cfg)"

definition compute_permanent_password_storage_for_update ::
    "crypto \<Rightarrow> machine \<Rightarrow> bytes \<Rightarrow> string \<Rightarrow> string \<Rightarrow> config \<Rightarrow> config \<times> string option" where
  "compute_permanent_password_storage_for_update cr mach nonce fresh password cfg =
     (let c = ensure_permanent_password_salt fresh cfg in
      (c, encode_permanent_password_encrypted_storage_from_h1 cr mach nonce
            (compute_permanent_password_h1 cr password (cfg_salt c))))"

text \<open>The built-in settings: whether the password may be changed, and the preset password with its salt.\<close>

record presets =
  disable_change :: bool
  preset_storage :: string
  preset_salt :: string

record randomness =
  r_nonce :: bytes
  r_store :: "bytes \<times> bytes"
  r_salt :: string

definition set_permanent_password ::
    "crypto \<Rightarrow> machine \<Rightarrow> presets \<Rightarrow> randomness \<Rightarrow> string \<Rightarrow> config \<times> config \<Rightarrow> bool \<times> config \<times> config" where
  "set_permanent_password cr mach ps r password s =
     (case s of (cfg, disk) \<Rightarrow>
        if disable_change ps then (False, cfg, disk)
        else if preset_permanent_password_storage_matches_plain cr (preset_storage ps) (preset_salt ps) password
                \<and> cfg_password cfg = [] then (True, cfg, disk)
        else (case (if password = [] then (cfg, Some [])
                    else compute_permanent_password_storage_for_update cr mach (r_nonce r) (r_salt r) password cfg) of
          (cfg1, None) \<Rightarrow> (False, cfg1, disk)
        | (cfg1, Some stored) \<Rightarrow>
            if stored = cfg_password cfg1 then (True, cfg1, disk)
            else (let cfg2 = cfg1\<lparr>cfg_password := stored\<rparr> in
                  (True, cfg2, config_store cr mach (r_store r) disk cfg2))))"

text \<open>\<open>None\<close> is the error, and otherwise the configuration and whether it changed.\<close>

definition apply_permanent_password_storage_for_sync ::
    "crypto \<Rightarrow> machine \<Rightarrow> string \<Rightarrow> string \<Rightarrow> config \<Rightarrow> (config \<times> bool) option" where
  "apply_permanent_password_storage_for_sync cr mach storage salt cfg =
     (if storage = [] then
        if cfg_password cfg = [] \<and> (salt = [] \<or> cfg_salt cfg = salt) then Some (cfg, False)
        else (let c = cfg\<lparr>cfg_password := []\<rparr> in
              Some (if salt \<noteq> [] then c\<lparr>cfg_salt := salt\<rparr> else c, True))
      else if salt = [] then None
      else if decode_permanent_password_h1_from_storage cr mach storage = None then None
      else if cfg_password cfg = storage \<and> cfg_salt cfg = salt then Some (cfg, False)
      else Some (cfg\<lparr>cfg_password := storage, cfg_salt := salt\<rparr>, True))"

definition set_permanent_password_storage_for_sync ::
    "crypto \<Rightarrow> machine \<Rightarrow> bytes \<times> bytes \<Rightarrow> string \<Rightarrow> string \<Rightarrow> config \<times> config \<Rightarrow> bool option \<times> config \<times> config" where
  "set_permanent_password_storage_for_sync cr mach nonces storage salt s =
     (case s of (cfg, disk) \<Rightarrow>
        (case apply_permanent_password_storage_for_sync cr mach storage salt cfg of
           None \<Rightarrow> (None, cfg, disk)
         | Some (c, changed) \<Rightarrow>
             if \<not> changed then (Some False, c, disk) else (Some True, c, config_store cr mach nonces disk c)))"

definition has_permanent_password :: "crypto \<Rightarrow> machine \<Rightarrow> presets \<Rightarrow> config \<Rightarrow> bool" where
  "has_permanent_password cr mach ps cfg =
     (if cfg_password cfg \<noteq> [] then local_permanent_password_storage_is_usable_for_auth cr mach (cfg_password cfg) (cfg_salt cfg)
      else preset_permanent_password_storage_is_usable_for_auth cr (preset_storage ps) (preset_salt ps))"

definition set_salt ::
    "crypto \<Rightarrow> machine \<Rightarrow> bytes \<times> bytes \<Rightarrow> string \<Rightarrow> config \<times> config \<Rightarrow> config \<times> config" where
  "set_salt cr mach nonces salt s =
     (case s of (cfg, disk) \<Rightarrow>
        if salt = cfg_salt cfg then (cfg, disk)
        else if \<not> password_is_empty_or_not_hashed cr mach (cfg_password cfg) \<and> cfg_salt cfg \<noteq> [] then (cfg, disk)
        else (let c = cfg\<lparr>cfg_salt := salt\<rparr> in (c, config_store cr mach nonces disk c)))"

definition get_salt ::
    "crypto \<Rightarrow> machine \<Rightarrow> randomness \<Rightarrow> config \<times> config \<Rightarrow> string \<times> config \<times> config" where
  "get_salt cr mach r s =
     (if cfg_salt (fst s) = [] then (r_salt r, set_salt cr mach (r_store r) (r_salt r) s) else (cfg_salt (fst s), s))"

definition get_effective_permanent_password_salt ::
    "crypto \<Rightarrow> machine \<Rightarrow> presets \<Rightarrow> randomness \<Rightarrow> config \<times> config \<Rightarrow> string \<times> config \<times> config" where
  "get_effective_permanent_password_salt cr mach ps r s =
     (let cfg = fst s in
      if cfg_password cfg \<noteq> [] then
        if local_permanent_password_storage_is_usable_for_auth cr mach (cfg_password cfg) (cfg_salt cfg) then get_salt cr mach r s
        else ([], s)
      else if preset_salt ps \<noteq> [] then
        if preset_permanent_password_storage_is_usable_for_auth cr (preset_storage ps) (preset_salt ps) then (preset_salt ps, s)
        else ([], s)
      else get_salt cr mach r s)"

section \<open>The check of a login\<close>

datatype verification_method = OnlyUseTemporaryPassword | OnlyUsePermanentPassword | UseBothPasswords

datatype approve_mode = ApproveBoth | ApprovePassword | ApproveClick

definition verification_method :: "string \<Rightarrow> verification_method" where
  "verification_method opt =
     (if opt = ''use-temporary-password'' then OnlyUseTemporaryPassword
      else if opt = ''use-permanent-password'' then OnlyUsePermanentPassword else UseBothPasswords)"

definition temporary_password_length :: "string \<Rightarrow> nat" where
  "temporary_password_length opt = (if opt = ''8'' then 8 else if opt = ''10'' then 10 else 6)"

definition temporary_enabled :: "string \<Rightarrow> bool" where
  "temporary_enabled opt \<longleftrightarrow> verification_method opt \<noteq> OnlyUsePermanentPassword"

definition permanent_enabled :: "string \<Rightarrow> bool" where
  "permanent_enabled opt \<longleftrightarrow> verification_method opt \<noteq> OnlyUseTemporaryPassword"

definition approve_mode :: "string \<Rightarrow> approve_mode" where
  "approve_mode opt = (if opt = ''password'' then ApprovePassword else if opt = ''click'' then ApproveClick else ApproveBoth)"

definition has_valid_password :: "crypto \<Rightarrow> machine \<Rightarrow> presets \<Rightarrow> string \<Rightarrow> string \<Rightarrow> config \<Rightarrow> bool" where
  "has_valid_password cr mach ps opt temporary cfg \<longleftrightarrow>
     temporary_enabled opt \<and> temporary \<noteq> [] \<or> permanent_enabled opt \<and> has_permanent_password cr mach ps cfg"

text \<open>The challenge that a connection sends, and the response in the login request.\<close>

record hash_msg =
  h_salt :: string
  h_challenge :: string

definition verify_h1 :: "crypto \<Rightarrow> hash_msg \<Rightarrow> bytes \<Rightarrow> bytes \<Rightarrow> bool" where
  "verify_h1 cr h h1 response \<longleftrightarrow> sha256 cr (h1 @ as_bytes (h_challenge h)) = response"

definition validate_password_plain :: "crypto \<Rightarrow> hash_msg \<Rightarrow> string \<Rightarrow> bytes \<Rightarrow> bool" where
  "validate_password_plain cr h password response =
     (if password = [] then False
      else verify_h1 cr h (sha256 cr (as_bytes password @ as_bytes (h_salt h))) response)"

definition validate_password_storage :: "crypto \<Rightarrow> machine \<Rightarrow> hash_msg \<Rightarrow> string \<Rightarrow> bytes \<Rightarrow> bool" where
  "validate_password_storage cr mach h storage response =
     (if storage = [] then False
      else (case decode_permanent_password_h1_from_storage cr mach storage of
              Some h1 \<Rightarrow> verify_h1 cr h h1 response
            | None \<Rightarrow> validate_password_plain cr h storage response))"

definition validate_preset_password_storage :: "crypto \<Rightarrow> hash_msg \<Rightarrow> string \<Rightarrow> string \<Rightarrow> bytes \<Rightarrow> bool" where
  "validate_preset_password_storage cr h storage salt response =
     (if salt = [] then validate_password_plain cr h storage response
      else (case decode_preset_password_h1_from_storage cr storage of
              None \<Rightarrow> False
            | Some h1 \<Rightarrow> verify_h1 cr h h1 response))"

definition validate_permanent :: "crypto \<Rightarrow> machine \<Rightarrow> presets \<Rightarrow> hash_msg \<Rightarrow> config \<Rightarrow> bytes \<Rightarrow> bool" where
  "validate_permanent cr mach ps h cfg response =
     (if cfg_password cfg \<noteq> [] then
        local_permanent_password_storage_is_usable_for_auth cr mach (cfg_password cfg) (cfg_salt cfg) \<and>
        validate_password_storage cr mach h (cfg_password cfg) response
      else
        preset_permanent_password_storage_is_usable_for_auth cr (preset_storage ps) (preset_salt ps) \<and>
        validate_preset_password_storage cr h (preset_storage ps) (preset_salt ps) response)"

text \<open>The primary authentication that the audit records, \<open>None\<close> for a wrong password, and the state of the rotation
  of the temporary password.\<close>

datatype primary_auth = TemporaryPassword | PermanentPassword

definition validate_password ::
    "crypto \<Rightarrow> machine \<Rightarrow> presets \<Rightarrow> string \<Rightarrow> hash_msg \<Rightarrow> config \<Rightarrow> bool \<Rightarrow> bytes \<Rightarrow> string \<Rightarrow> temporary_state \<Rightarrow>
       primary_auth option \<times> temporary_state" where
  "validate_password cr mach ps opt h cfg allow_permanent_password response temporary ts =
     (if temporary_enabled opt \<and> validate_password_plain cr h temporary response then
        (Some TemporaryPassword,
         fst (check_update_temporary_password (temporary_enabled opt) temporary True temporary ts))
      else if (permanent_enabled opt \<or> allow_permanent_password) \<and> validate_permanent cr mach ps h cfg response then
        (Some PermanentPassword, ts)
      else (None, ts))"

text \<open>\<open>handle_login_from_ui\<close> of the client: what is sent for a password that the user types.\<close>

definition client_response :: "crypto \<Rightarrow> hash_msg \<Rightarrow> string \<Rightarrow> bytes" where
  "client_response cr h password =
     sha256 cr (sha256 cr (as_bytes password @ as_bytes (h_salt h)) @ as_bytes (h_challenge h))"

section \<open>Encryption undoes decryption\<close>

lemma open_sealed:
  assumes "crypto_ok cr" "length nonce = noncebytes"
  shows "symmetric_decrypt cr mach (symmetric_encrypt cr mach nonce data) = Some data"
proof -
  have key: "length (resize keybytes (machine_uuid mach)) = keybytes" by (simp add: resize_def)
  have "open_box cr (seal cr data nonce (resize keybytes (machine_uuid mach))) nonce (resize keybytes (machine_uuid mach)) = Some data"
    using assms key by (simp add: crypto_ok_def)
  moreover have "length (seal cr data nonce (resize keybytes (machine_uuid mach))) \<ge> macbytes"
    using assms(1) by (simp add: crypto_ok_def)
  ultimately show ?thesis
    using assms(2) by (simp add: symmetric_decrypt_def symmetric_encrypt_def open_secretbox_payload_def Let_def)
qed

lemma lossy_ascii:
  assumes "\<And>c. c \<in> set s \<Longrightarrow> (of_char c :: nat) < 128"
  shows "from_utf8_lossy (as_bytes s) = s"
  using assms
proof (induction s)
  case (Cons c s)
  have "(of_char c :: nat) < 128" using Cons.prems by simp
  then have "utf8_width (of_char c) = 1" and "of_bytes [of_char c] = [c]"
    by (simp_all add: utf8_width_def of_bytes_def word_less_nat_alt unat_of_char)
  then show ?case using Cons by (simp add: as_bytes_def)
qed (simp add: as_bytes_def)

lemma as_bytes_append [simp]: "as_bytes (s @ t) = as_bytes s @ as_bytes t"
  by (simp add: as_bytes_def)

lemma length_as_bytes [simp]: "length (as_bytes s) = length s"
  by (simp add: as_bytes_def)

lemma starts_with_append [simp]: "starts_with (p @ s) p"
  by (simp add: starts_with_def)

lemma starts_with_other: "starts_with s ''01'' \<Longrightarrow> \<not> starts_with s ''00''"
  by (auto simp: starts_with_def)

lemma starts_with_not_Nil: "starts_with s ''01'' \<Longrightarrow> s \<noteq> []"
  by (auto simp: starts_with_def)

lemma b64_ascii: "crypto_ok cr \<Longrightarrow> c \<in> set (b64e cr v) \<Longrightarrow> (of_char c :: nat) < 128"
  unfolding crypto_ok_def by blast

lemma b64_length: "crypto_ok cr \<Longrightarrow> length v \<le> length (b64e cr v) \<and> length (b64e cr v) \<le> 2 * length v + 2"
  unfolding crypto_ok_def by blast

lemma b64_back: "crypto_ok cr \<Longrightarrow> b64d cr (as_bytes (b64e cr v)) = Some v"
  unfolding crypto_ok_def by blast

lemma digest_length: "crypto_ok cr \<Longrightarrow> length (sha256 cr v) = 32"
  unfolding crypto_ok_def by blast

lemma chars_count_le: "chars_count s \<le> length s"
  by (simp add: chars_count_def)

text \<open>A value that was encrypted is recognized as such and decrypts to itself, and is not encrypted twice.\<close>

lemma encrypted_value:
  assumes "crypto_ok cr" "length nonce = noncebytes"
  shows "is_encrypted cr (as_bytes (''00'' @ b64e cr (symmetric_encrypt cr mach nonce v)))"
    and "decrypt cr mach (as_bytes (b64e cr (symmetric_encrypt cr mach nonce v))) = Some v"
proof -
  let ?e = "symmetric_encrypt cr mach nonce v"
  have len: "0 < length ?e" "macbytes \<le> length ?e"
    using assms by (simp_all add: symmetric_encrypt_def crypto_ok_def macbytes_def noncebytes_def)
  then have "0 < length (b64e cr ?e)" using b64_length [OF assms(1), of ?e] by linarith
  then have ne: "b64e cr ?e \<noteq> []" "as_bytes (b64e cr ?e) \<noteq> []" by (auto simp: as_bytes_def)
  show "is_encrypted cr (as_bytes (''00'' @ b64e cr ?e))"
    using len ne(1) b64_back [OF assms(1), of ?e] by (simp add: is_encrypted_def version_len_def as_bytes_def)
  show "decrypt cr mach (as_bytes (b64e cr ?e)) = Some v"
    using ne(2) by (simp add: decrypt_def b64_back [OF assms(1)] open_sealed [OF assms])
qed

lemma encrypt_str_roundtrip:
  fixes mach :: machine
  assumes "crypto_ok cr" "length nonce = noncebytes" "s \<noteq> []" "\<And>c. c \<in> set s \<Longrightarrow> (of_char c :: nat) < 128"
    and "\<not> is_encrypted cr (as_bytes s)" "length s \<le> max_len"
  defines "e \<equiv> encrypt_str_or_original cr mach nonce s ''00'' max_len"
  shows "decrypt_str_or_original cr mach e ''00'' = (s, True, False)"
    and "encrypt_str_or_original cr mach nonce' e ''00'' max_len' = e"
proof -
  let ?b = "b64e cr (symmetric_encrypt cr mach nonce (as_bytes s))"
  have "\<not> max_len < chars_count s" using chars_count_le [of s] assms(6) by linarith
  moreover have "as_bytes s \<noteq> []" using assms(3) by (simp add: as_bytes_def)
  ultimately have e: "e = ''00'' @ ?b" using assms(5) by (simp add: e_def encrypt_str_or_original_def encrypt_def)
  have enc: "is_encrypted cr (as_bytes e)" unfolding e by (rule encrypted_value(1) [OF assms(1,2)])
  then have "length e > version_len" "starts_with e ''00''" by (simp add: is_encrypted_def) (simp add: e starts_with_def)
  moreover have "drop version_len e = ?b" by (simp add: e version_len_def)
  ultimately show "decrypt_str_or_original cr mach e ''00'' = (s, True, False)"
    using lossy_ascii [OF assms(4)] encrypted_value(2) [OF assms(1,2)] by (simp add: decrypt_str_or_original_def)
  show "encrypt_str_or_original cr mach nonce' e ''00'' max_len' = e"
    using enc by (simp add: encrypt_str_or_original_def)
qed

section \<open>The stored hash\<close>

lemma h1_length: "crypto_ok cr \<Longrightarrow> length (compute_permanent_password_h1 cr password salt) = 32"
  by (simp add: compute_permanent_password_h1_def digest_length)

lemma h1_digest: "crypto_ok cr \<Longrightarrow> compute_permanent_password_h1 cr password salt = sha256 cr (as_bytes password @ as_bytes salt)"
  by (simp add: compute_permanent_password_h1_def digest_length)

lemma encoded_hash:
  assumes "crypto_ok cr" "length nonce = noncebytes" "length h1 = 32"
  obtains st where "encode_permanent_password_encrypted_storage_from_h1 cr mach nonce h1 = Some st"
    and "decode_permanent_password_h1_from_storage cr mach st = Some h1"
proof -
  let ?h = "''00'' @ b64e cr h1"
  let ?e = "symmetric_encrypt cr mach nonce (as_bytes ?h)"
  let ?st = "''01'' @ b64e cr ?e"
  have "chars_count ?h \<le> encrypt_max_len"
    using chars_count_le [of ?h] b64_length [OF assms(1), of h1] assms(3) by (simp add: encrypt_max_len_def)
  then have st: "encode_permanent_password_encrypted_storage_from_h1 cr mach nonce h1 = Some ?st"
    unfolding encode_permanent_password_encrypted_storage_from_h1_def encrypt_permanent_password_storage_def
      encode_permanent_password_storage_from_h1_def by simp
  have "0 < length ?e" by (simp add: symmetric_encrypt_def)
  then have "0 < length (b64e cr ?e)" using b64_length [OF assms(1), of ?e] by linarith
  then have long: "version_len < length ?st" by (simp add: version_len_def)
  have "(of_char c :: nat) < 128" if "c \<in> set ?h" for c
    using that b64_ascii [OF assms(1), of c h1] by (auto simp: of_char_def)
  from lossy_ascii [of ?h, OF this] have "from_utf8_lossy (as_bytes ?h) = ?h" .
  moreover have "drop version_len ?st = b64e cr ?e" by (simp add: version_len_def)
  ultimately have "decrypt_permanent_password_str_or_original cr mach ?st = (?h, True, False)"
    unfolding decrypt_permanent_password_str_or_original_def using long starts_with_append [of "''01''" "b64e cr ?e"]
    by (simp only: b64_back [OF assms(1)] open_sealed [OF assms(1,2)] if_True simp_thms bind.bind_lunit option.case)
  then have "decode_permanent_password_h1_from_storage cr mach ?st = Some h1"
    using starts_with_append [of "''01''" "b64e cr ?e"] assms(3) b64_back [OF assms(1), of h1]
    by (simp add: decode_permanent_password_h1_from_storage_def decode_permanent_password_h1_from_hashed_storage_def
      decode_password_h1_after_prefix_def starts_with_def)
  with st show thesis by (rule that)
qed

lemma decoded_storage:
  assumes "decode_permanent_password_h1_from_storage cr mach st = Some h1"
  shows "starts_with st ''01''" "st \<noteq> []" "\<not> starts_with st ''00''"
    and "\<exists>x y. decrypt_permanent_password_str_or_original cr mach st = (x, True, y) \<and>
      decode_permanent_password_h1_from_hashed_storage cr x = Some h1"
proof -
  show st: "starts_with st ''01''"
    using assms by (simp add: decode_permanent_password_h1_from_storage_def split: if_splits)
  then show "st \<noteq> []" "\<not> starts_with st ''00''" by (simp_all add: starts_with_not_Nil starts_with_other)
  show "\<exists>x y. decrypt_permanent_password_str_or_original cr mach st = (x, True, y) \<and>
      decode_permanent_password_h1_from_hashed_storage cr x = Some h1"
    using assms st by (simp add: decode_permanent_password_h1_from_storage_def split: prod.splits if_splits)
qed

lemma hash_validates:
  assumes "decode_permanent_password_h1_from_storage cr mach (cfg_password cfg) = Some h1" "cfg_salt cfg \<noteq> []"
  shows "validate_or_decrypt_permanent_password_storage cr mach cfg = (cfg, True)"
  using decoded_storage [OF assms(1)] assms(2)
  by (auto simp: validate_or_decrypt_permanent_password_storage_def)

text \<open>A stored hash goes through \<open>store\<close> and \<open>load\<close> unchanged, with its salt.\<close>

lemma store_keeps_hash:
  assumes "decode_permanent_password_h1_from_storage cr mach (cfg_password cfg) = Some h1" "cfg_salt cfg \<noteq> []"
  shows "cfg_password (config_store cr mach nonces disk cfg) = cfg_password cfg \<and>
    cfg_salt (config_store cr mach nonces disk cfg) = cfg_salt cfg"
  using assms hash_validates [OF assms]
  by (simp add: config_store_def prepare_config_for_store_def Let_def split: prod.splits)

lemma load_keeps_hash:
  assumes "decode_permanent_password_h1_from_storage cr mach (cfg_password disk) = Some h1" "cfg_salt disk \<noteq> []"
    and "config_load cr mach nonces gen disk = (cfg, disk')"
  shows "cfg_password cfg = cfg_password disk \<and> cfg_salt cfg = cfg_salt disk"
  using assms(3) hash_validates [OF assms(1,2)]
  by (auto simp: config_load_def Let_def split: prod.splits if_splits option.splits)

section \<open>A library that keeps its promises\<close>

text \<open>The hypotheses on the library can hold: two letters for a byte, a fixed authenticator and a padded text meet them.\<close>

fun toy_decode :: "bytes \<Rightarrow> bytes option" where
  "toy_decode [] = Some []"
| "toy_decode [x] = None"
| "toy_decode (x # y # bs) = map_option ((#) ((x - 97) * 16 + (y - 97))) (toy_decode bs)"

definition toy :: crypto where
  "toy = \<lparr>seal = \<lambda>d n k. d @ replicate 16 7,
     open_box = \<lambda>e n k. if drop (length e - 16) e = replicate 16 7 then Some (take (length e - 16) e) else None,
     b64e = \<lambda>v. concat (map (\<lambda>b. [char_of (97 + unat b div 16), char_of (97 + unat b mod 16)]) v),
     b64d = toy_decode, sha256 = resize 32\<rparr>"

lemma toy_letter: "n < 16 \<Longrightarrow> (of_char (char_of (97 + n) :: char) :: u8) = 97 + of_nat n"
proof -
  assume "n < 16"
  then have "(of_char (char_of (97 + n) :: char) :: nat) = 97 + n" by simp
  then have "of_nat (of_char (char_of (97 + n) :: char)) = (of_nat (97 + n) :: u8)" by (simp only:)
  then show ?thesis by (simp only: of_nat_of_char of_nat_add of_nat_numeral)
qed

lemma toy_byte: "(b :: u8) = of_nat (unat b div 16) * 16 + of_nat (unat b mod 16)"
proof -
  have "b = of_nat (unat b div 16 * 16 + unat b mod 16)" by simp
  then show ?thesis by (metis of_nat_add of_nat_mult of_nat_numeral)
qed

lemma toy_decode_encode: "toy_decode (as_bytes (b64e toy v)) = Some v"
proof (induction v)
  case (Cons b v)
  have "unat b < 256" using unsigned_less [of b] by simp
  then have "unat b div 16 < 16" by simp
  then show ?case
    using Cons toy_letter [of "unat b div 16"] toy_letter [of "unat b mod 16"] toy_byte [of b]
    by (simp add: toy_def as_bytes_def)
qed (simp add: toy_def as_bytes_def)

lemma toy_ascii: "c \<in> set (b64e toy v) \<Longrightarrow> (of_char c :: nat) < 128"
proof -
  assume "c \<in> set (b64e toy v)"
  then obtain b :: u8 where c: "c = char_of (97 + unat b div 16) \<or> c = char_of (97 + unat b mod 16)"
    by (auto simp: toy_def)
  have "unat b < 256" using unsigned_less [of b] by simp
  then have "unat b div 16 < 16" by simp
  then show ?thesis using c by auto
qed

lemma toy_ok: "crypto_ok toy"
proof -
  have "length (b64e toy v) = 2 * length v" for v by (induction v) (simp_all add: toy_def)
  then show ?thesis using toy_ascii toy_decode_encode
    by (auto simp: crypto_ok_def macbytes_def) (simp_all add: toy_def resize_def)
qed

definition demo_machine :: machine where "demo_machine = \<lparr>machine_uuid = [1, 2, 3], existing_pk = None\<rparr>"

definition demo_presets :: presets where "demo_presets = \<lparr>disable_change = False, preset_storage = [], preset_salt = []\<rparr>"

definition demo_random :: randomness where
  "demo_random = \<lparr>r_nonce = replicate 24 9, r_store = (replicate 24 8, replicate 24 7), r_salt = ''salt''\<rparr>"

definition demo_config :: "string \<Rightarrow> string \<Rightarrow> config" where
  "demo_config password salt = \<lparr>cfg_id = ''123456789'', enc_id = [], cfg_password = password, cfg_salt = salt,
     key_pair = ([], []), key_confirmed = False, keys_confirmed = Map.empty\<rparr>"

section \<open>From the password that is set to the login\<close>

lemma set_password_stores:
  assumes "crypto_ok cr" "length (r_nonce r) = noncebytes" "password \<noteq> []"
    and "set_permanent_password cr mach ps r password (cfg, disk) = (True, cfg', disk')"
    and "cfg_password cfg' \<noteq> cfg_password cfg"
  shows "decode_permanent_password_h1_from_storage cr mach (cfg_password cfg') =
      Some (compute_permanent_password_h1 cr password (cfg_salt cfg'))"
    and "cfg_salt cfg' = (if cfg_salt cfg = [] then r_salt r else cfg_salt cfg)"
    and "disk' = config_store cr mach (r_store r) disk cfg'"
proof -
  let ?c = "ensure_permanent_password_salt (r_salt r) cfg"
  let ?h1 = "compute_permanent_password_h1 cr password (cfg_salt ?c)"
  obtain st where st: "encode_permanent_password_encrypted_storage_from_h1 cr mach (r_nonce r) ?h1 = Some st"
      "decode_permanent_password_h1_from_storage cr mach st = Some ?h1"
    using encoded_hash [OF assms(1,2) h1_length [OF assms(1)]] by blast
  have "cfg_password ?c = cfg_password cfg" by (simp add: ensure_permanent_password_salt_def)
  then have c: "cfg' = ?c\<lparr>cfg_password := st\<rparr>" "disk' = config_store cr mach (r_store r) disk cfg'"
    using assms(3-5) st(1)
    by (auto simp: set_permanent_password_def compute_permanent_password_storage_for_update_def Let_def split: if_splits)
  then show "decode_permanent_password_h1_from_storage cr mach (cfg_password cfg') =
      Some (compute_permanent_password_h1 cr password (cfg_salt cfg'))"
    and "disk' = config_store cr mach (r_store r) disk cfg'" using st(2) by simp_all
  show "cfg_salt cfg' = (if cfg_salt cfg = [] then r_salt r else cfg_salt cfg)"
    by (simp add: c(1) ensure_permanent_password_salt_def)
qed

text \<open>A password can be set whenever that is not disabled.\<close>

lemma set_password_succeeds:
  assumes "crypto_ok cr" "length (r_nonce r) = noncebytes"
  shows "fst (set_permanent_password cr mach ps r password s) \<longleftrightarrow> \<not> disable_change ps"
proof -
  obtain cfg disk where s: "s = (cfg, disk)" by (cases s)
  let ?h1 = "compute_permanent_password_h1 cr password (cfg_salt (ensure_permanent_password_salt (r_salt r) cfg))"
  obtain st where "encode_permanent_password_encrypted_storage_from_h1 cr mach (r_nonce r) ?h1 = Some st"
    using encoded_hash [OF assms h1_length [OF assms(1)]] by blast
  then show ?thesis
    by (simp add: s set_permanent_password_def compute_permanent_password_storage_for_update_def Let_def)
qed

lemma usable_hash:
  assumes "decode_permanent_password_h1_from_storage cr mach (cfg_password cfg) = Some h1" "cfg_salt cfg \<noteq> []"
  shows "fst (get_effective_permanent_password_salt cr mach ps r (cfg, disk)) = cfg_salt cfg"
    and "validate_permanent cr mach ps h cfg response \<longleftrightarrow> verify_h1 cr h h1 response"
  using decoded_storage(2) [OF assms(1)] assms
  by (simp_all add: get_effective_permanent_password_salt_def get_salt_def Let_def validate_permanent_def
    local_permanent_password_storage_is_usable_for_auth_def validate_password_storage_def)

text \<open>C23. A permanent password that was set and written to the file is the password after the next start: a
  controlled side that has loaded the file offers the salt of the stored hash, and with that salt it accepts as
  the permanent password exactly the response that the client computes from the password, for every challenge. The hash is
  encrypted under the key of the machine, and everything the controlled side needs is in the file.\<close>

theorem permanent_password_roundtrip:
  assumes "crypto_ok cr" "length (r_nonce r) = noncebytes" "password \<noteq> []" "r_salt r \<noteq> []"
    and "set_permanent_password cr mach ps r password (cfg, disk) = (True, cfg', disk')"
    and "cfg_password cfg' \<noteq> cfg_password cfg"
    and "config_load cr mach nonces gen disk' = (loaded, disk'')"
    and "h = \<lparr>h_salt = fst (get_effective_permanent_password_salt cr mach ps r' (loaded, disk'')), h_challenge = challenge\<rparr>"
  shows "validate_permanent cr mach ps h loaded response \<longleftrightarrow> response = client_response cr h password"
proof -
  let ?h1 = "compute_permanent_password_h1 cr password (cfg_salt cfg')"
  note set = set_password_stores [OF assms(1-3,5,6)]
  have salt: "cfg_salt cfg' \<noteq> []" using set(2) assms(4) by simp
  have f: "cfg_password disk' = cfg_password cfg'" "cfg_salt disk' = cfg_salt cfg'"
    using store_keeps_hash [OF set(1) salt, of "r_store r" disk] set(3) by simp_all
  have l: "cfg_password loaded = cfg_password cfg'" "cfg_salt loaded = cfg_salt cfg'"
    using load_keeps_hash [OF _ _ assms(7)] set(1) salt f by simp_all
  have u: "decode_permanent_password_h1_from_storage cr mach (cfg_password loaded) = Some ?h1" "cfg_salt loaded \<noteq> []"
    using set(1) salt l by simp_all
  show ?thesis
    using usable_hash(1) [OF u, of ps r' disk''] usable_hash(2) [OF u, of ps h response] l
    by (auto simp: assms(8) client_response_def verify_h1_def h1_digest [OF assms(1)])
qed

theorem permanent_password_roundtrip_witness:
  "let x = set_permanent_password toy demo_machine demo_presets demo_random ''secret'' (demo_config [] [], demo_config [] []);
       loaded = config_load toy demo_machine (r_store demo_random) [] (snd (snd x));
       h = \<lparr>h_salt = fst (get_effective_permanent_password_salt toy demo_machine demo_presets demo_random loaded),
            h_challenge = ''abcdef''\<rparr> in
   fst x \<and> validate_permanent toy demo_machine demo_presets h (fst loaded) (client_response toy h ''secret'')"
proof -
  let ?x = "set_permanent_password toy demo_machine demo_presets demo_random ''secret'' (demo_config [] [], demo_config [] [])"
  let ?h1 = "compute_permanent_password_h1 toy ''secret'' ''salt''"
  have n: "length (r_nonce demo_random) = noncebytes" by (simp add: demo_random_def noncebytes_def)
  have ok: "fst ?x" by (simp add: set_password_succeeds [OF toy_ok n]) (simp add: demo_presets_def)
  obtain st where st: "encode_permanent_password_encrypted_storage_from_h1 toy demo_machine (r_nonce demo_random) ?h1 = Some st"
      "decode_permanent_password_h1_from_storage toy demo_machine st = Some ?h1"
    by (rule encoded_hash [OF toy_ok n h1_length [OF toy_ok]])
  have "cfg_password (fst (snd ?x)) = st"
    using st(1) decoded_storage(2) [OF st(2)]
    by (simp add: set_permanent_password_def demo_presets_def demo_config_def demo_random_def Let_def
      preset_permanent_password_storage_matches_plain_def compute_permanent_password_storage_for_update_def
      ensure_permanent_password_salt_def)
  then have change: "cfg_password (fst (snd ?x)) \<noteq> cfg_password (demo_config [] [])"
    using decoded_storage(2) [OF st(2)] by (simp add: demo_config_def)
  have x: "?x = (True, fst (snd ?x), snd (snd ?x))" using ok by (simp add: prod_eq_iff)
  have "''secret'' \<noteq> []" "r_salt demo_random \<noteq> []" by (simp_all add: demo_random_def)
  from permanent_password_roundtrip [OF toy_ok n this x change prod.collapse [symmetric] refl]
  show ?thesis using ok by (simp only: Let_def prod.collapse simp_thms)
qed

text \<open>C35. A stored hash that cannot be decrypted, as after a change of the machine's identifier, is accepted as a password in plain
  text: whoever sends the text of the stored value as the password is let in, although the same value counts as a hash when the salt
  is to be changed.\<close>

theorem locked_hash_is_accepted_as_plaintext:
  assumes "starts_with (cfg_password cfg) ''01''" "cfg_salt cfg \<noteq> []"
    and "\<not> fst (snd (decrypt_permanent_password_str_or_original cr mach (cfg_password cfg)))"
    and "h = \<lparr>h_salt = fst (get_effective_permanent_password_salt cr mach ps r (cfg, disk)), h_challenge = challenge\<rparr>"
  shows "validate_permanent cr mach ps h cfg (client_response cr h (cfg_password cfg)) \<and>
    \<not> password_is_empty_or_not_hashed cr mach (cfg_password cfg)"
proof -
  have none: "decode_permanent_password_h1_from_storage cr mach (cfg_password cfg) = None"
    using assms(1,3) by (auto simp: decode_permanent_password_h1_from_storage_def split: prod.splits)
  then have "local_permanent_password_storage_is_usable_for_auth cr mach (cfg_password cfg) (cfg_salt cfg)"
    using starts_with_not_Nil [OF assms(1)] starts_with_other [OF assms(1)] assms(3)
    by (simp add: local_permanent_password_storage_is_usable_for_auth_def split: prod.splits)
  then show ?thesis
    using none assms(1) starts_with_not_Nil [OF assms(1)]
    by (simp add: validate_permanent_def validate_password_storage_def validate_password_plain_def verify_h1_def
      client_response_def password_is_empty_or_not_hashed_def)
qed

theorem locked_hash_is_accepted_as_plaintext_witness:
  "let cfg = demo_config ''01zz'' ''salt'';
       h = \<lparr>h_salt = fst (get_effective_permanent_password_salt toy demo_machine demo_presets demo_random (cfg, cfg)),
            h_challenge = ''abcdef''\<rparr> in
   validate_permanent toy demo_machine demo_presets h cfg (client_response toy h ''01zz'')"
proof -
  let ?cfg = "demo_config ''01zz'' ''salt''"
  have "[b] \<noteq> replicate 16 (7 :: u8)" for b by (auto dest: arg_cong [of _ _ length])
  then have "\<not> fst (snd (decrypt_permanent_password_str_or_original toy demo_machine (cfg_password ?cfg)))"
    by (simp add: demo_config_def decrypt_permanent_password_str_or_original_def toy_def as_bytes_def version_len_def
      starts_with_def symmetric_decrypt_def open_secretbox_payload_def demo_machine_def Let_def noncebytes_def macbytes_def)
  moreover have "starts_with (cfg_password ?cfg) ''01''" "cfg_salt ?cfg \<noteq> []" "cfg_password ?cfg = ''01zz''"
    by (simp_all add: demo_config_def starts_with_def)
  ultimately show ?thesis
    using locked_hash_is_accepted_as_plaintext [of ?cfg toy demo_machine _ demo_presets demo_random ?cfg "''abcdef''", OF _ _ _ refl]
    by (simp only: Let_def simp_thms not_False_eq_True)
qed

text \<open>A synchronized password is a hash that this machine can decrypt, with a salt.\<close>

lemma sync_accepts_only_hashes:
  assumes "apply_permanent_password_storage_for_sync cr mach storage salt cfg = Some (cfg', True)" "storage \<noteq> []"
  shows "cfg_password cfg' = storage \<and> cfg_salt cfg' = salt \<and> salt \<noteq> [] \<and>
    decode_permanent_password_h1_from_storage cr mach (cfg_password cfg') \<noteq> None"
  using assms by (auto simp: apply_permanent_password_storage_for_sync_def split: if_splits)

lemma salt_of_hash_kept:
  assumes "decode_permanent_password_h1_from_storage cr mach (cfg_password cfg) = Some h1" "cfg_salt cfg \<noteq> []"
  shows "set_salt cr mach nonces salt (cfg, disk) = (cfg, disk)"
  using assms decoded_storage(2) [OF assms(1)] by (simp add: set_salt_def password_is_empty_or_not_hashed_def)

end
