(* ===== verification/Session_Scope.thy ===== *)
theory Session_Scope
  imports Pf_Mux
begin

text \<open>
  The scope of a session on the controlled side (\<^verbatim>\<open>src/client/src/server/connection.rs\<close>): the digest of identity and
  scope that the first login request of a connection fixes (\<open>login_scope_digest\<close>, \<open>check_login_scope\<close>), the flags that a
  login request sets and that authorization turns into the type of the session, and the messages and options that a
  session of each type may send (\<open>authorized_message_scope_violation\<close>, \<open>scoped_login_option\<close>). SHA-256 is the parameter
  \<open>sha\<close>. Of a message only what these functions look at is modelled: the member of its union, and the payload where they
  open it. Whether the build is for Windows is a parameter. Switching sides, which authorizes a remote session by a
  token instead of a login request, is not part of the model.
\<close>

section \<open>Messages\<close>

datatype 'a enum_value = Known 'a | Unknown int

datatype bool_option = NotSet | No | Yes

datatype image_quality = QualityNotSet | Low | Balanced | Best

record option_message =
  image_quality :: "image_quality enum_value"
  lock_after_session_end :: "bool_option enum_value"
  show_remote_cursor :: "bool_option enum_value"
  privacy_mode :: "bool_option enum_value"
  block_input :: "bool_option enum_value"
  custom_image_quality :: int
  disable_audio :: "bool_option enum_value"
  disable_clipboard :: "bool_option enum_value"
  enable_file_transfer :: "bool_option enum_value"
  supported_decoding :: "bytes option"
  custom_fps :: int
  disable_keyboard :: "bool_option enum_value"
  follow_remote_cursor :: "bool_option enum_value"
  follow_remote_window :: "bool_option enum_value"
  disable_camera :: "bool_option enum_value"
  terminal_persistent :: "bool_option enum_value"
  show_my_cursor :: "bool_option enum_value"

definition option_message_new :: option_message where
  "option_message_new =
     \<lparr>image_quality = Known QualityNotSet, lock_after_session_end = Known NotSet, show_remote_cursor = Known NotSet,
      privacy_mode = Known NotSet, block_input = Known NotSet, custom_image_quality = 0, disable_audio = Known NotSet,
      disable_clipboard = Known NotSet, enable_file_transfer = Known NotSet, supported_decoding = None, custom_fps = 0,
      disable_keyboard = Known NotSet, follow_remote_cursor = Known NotSet, follow_remote_window = Known NotSet,
      disable_camera = Known NotSet, terminal_persistent = Known NotSet, show_my_cursor = Known NotSet\<rparr>"

datatype misc =
    X_ChatMessage | X_SwitchDisplay | X_PermissionInfo | X_Option option_message | X_AudioFormat | X_CloseReason
  | X_RefreshVideo | X_VideoReceived | X_BackNotification | X_RestartRemoteDevice | X_Uac | X_ForegroundWindowElevated
  | X_StopService | X_ElevationRequest | X_ElevationResponse | X_PortableServiceRunning | X_SwitchSidesRequest
  | X_SwitchBack | X_ChangeResolution | X_PluginRequest | X_PluginFailure | X_FullSpeedFps | X_AutoAdjustFps
  | X_ClientRecordStatus | X_CaptureDisplays | X_RefreshVideoDisplay | X_ToggleVirtualDisplay | X_TogglePrivacyMode
  | X_SupportedEncoding | X_SelectedSid | X_ChangeDisplayResolution | X_MessageQuery | X_FollowCurrentDisplay
  | X_RequestCursorData

datatype cliprdr =
    Clip_Ready | Clip_FormatList | Clip_FormatListResponse | Clip_FormatDataRequest | Clip_FormatDataResponse
  | Clip_FileContentsRequest | Clip_FileContentsResponse | Clip_TryEmpty | Clip_Files

text \<open>The type of a session once it is authorized.\<close>

datatype auth_conn_type = Conn_Remote | Conn_FileTransfer | Conn_PortForward | Conn_ViewCamera | Conn_Terminal

datatype login_union =
    L_FileTransfer string bool bool
  | L_PortForward string "32 word" bool
  | L_ViewCamera
  | L_Terminal string
  | L_Other

record login_request =
  my_id :: string
  lr_union :: "login_union option"
  lr_option :: "option_message option"

datatype message =
    M_SignedId | M_PublicKey | M_TestDelay | M_VideoFrame | M_LoginRequest login_request | M_LoginResponse | M_Hash
  | M_MouseEvent | M_AudioFrame | M_CursorData | M_CursorPosition | M_CursorId | M_KeyEvent | M_Clipboard
  | M_FileAction | M_FileResponse | M_Misc "misc option" | M_Cliprdr "cliprdr option" | M_MessageBox
  | M_SwitchSidesResponse | M_VoiceCallRequest | M_VoiceCallResponse | M_PeerInfo | M_PointerDeviceEvent | M_Auth2fa
  | M_MultiClipboards | M_ScreenshotRequest | M_ScreenshotResponse | M_TerminalAction | M_TerminalResponse
  | M_PortForwardChannel | M_OsLogin

section \<open>The scope of a login request\<close>

definition push_field :: "bytes \<Rightarrow> bytes" where
  "push_field bs = to_le 8 (of_nat (length bs) :: u64) @ bs"

definition bool_byte :: "bool \<Rightarrow> bytes" where "bool_byte b = [if b then 1 else 0]"

definition scope_fields :: "login_request \<Rightarrow> bytes list" where
  "scope_fields lr = as_bytes (my_id lr) #
     (case lr_union lr of
        Some (L_FileTransfer dir show_hidden clipboard_fast) \<Rightarrow>
          [as_bytes ''file_transfer'', as_bytes dir, bool_byte show_hidden, bool_byte clipboard_fast]
      | Some L_ViewCamera \<Rightarrow> [as_bytes ''view_camera'']
      | Some (L_Terminal service_id) \<Rightarrow> [as_bytes ''terminal'', as_bytes service_id]
      | Some (L_PortForward host port multiplex) \<Rightarrow>
          [as_bytes ''port_forward'', as_bytes host, to_le 4 port, bool_byte multiplex]
      | _ \<Rightarrow> [as_bytes ''remote''])"

definition login_scope_digest :: "(bytes \<Rightarrow> bytes) \<Rightarrow> login_request \<Rightarrow> bytes" where
  "login_scope_digest sha lr = sha (concat (map push_field (scope_fields lr)))"

section \<open>A connection before and at its authorization\<close>

record scope_conn =
  login_scope :: "bytes option"
  c_lr :: login_request
  options_in_login :: "option_message option"
  authorized :: bool
  file_transfer :: "(string \<times> bool) option"
  clipboard_fast :: bool
  view_camera :: bool
  terminal :: bool
  c_terminal_persistent :: bool
  terminal_service_id :: string
  port_forward_address :: string
  port_forward_socket :: bool
  port_forward_mux :: "pf_mux option"
  authed_conn_type :: "auth_conn_type option"
  scope_violation_messages :: "string set"

text \<open>\<open>self.lr\<close> is empty before the first login request.\<close>

definition new_scope_conn :: scope_conn where
  "new_scope_conn =
     \<lparr>login_scope = None, c_lr = \<lparr>my_id = [], lr_union = None, lr_option = None\<rparr>, options_in_login = None,
      authorized = False, file_transfer = None, clipboard_fast = False, view_camera = False, terminal = False,
      c_terminal_persistent = False, terminal_service_id = [], port_forward_address = [], port_forward_socket = False, port_forward_mux = None,
      authed_conn_type = None, scope_violation_messages = {}\<rparr>"

definition check_login_scope :: "(bytes \<Rightarrow> bytes) \<Rightarrow> login_request \<Rightarrow> scope_conn \<Rightarrow> bool \<times> scope_conn" where
  "check_login_scope sha lr c =
     (let requested = login_scope_digest sha lr in
      case login_scope c of
        Some initial \<Rightarrow> (initial = requested, c)
      | None \<Rightarrow> (True, c\<lparr>login_scope := Some requested\<rparr>))"

text \<open>The options of an earlier request stay when a request has none.\<close>

definition handle_login_request_without_validation :: "login_request \<Rightarrow> scope_conn \<Rightarrow> scope_conn" where
  "handle_login_request_without_validation lr c =
     c\<lparr>c_lr := lr,
       options_in_login := (case lr_option lr of Some opt \<Rightarrow> Some opt | None \<Rightarrow> options_in_login c)\<rparr>"

definition reset_session_scope_for_login :: "scope_conn \<Rightarrow> scope_conn" where
  "reset_session_scope_for_login c =
     c\<lparr>file_transfer := None, clipboard_fast := False, view_camera := False, terminal := False,
       port_forward_address := [], c_terminal_persistent := False\<rparr>"

text \<open>What the login depends on besides the request: the build, the id whitelist, the permission for the kind of session,
  the other reasons to refuse a terminal, privacy mode, and the checks that follow.\<close>

record login_env =
  windows :: bool
  whitelisted :: bool
  permitted :: bool
  terminal_possible :: bool
  privacy_mode_off :: bool
  rest_passes :: bool

text \<open>The part of \<open>on_message\<close> for a login request up to the check of the password; \<open>None\<close> closes the connection.\<close>

definition set_session_scope :: "login_env \<Rightarrow> login_request \<Rightarrow> scope_conn \<Rightarrow> scope_conn option" where
  "set_session_scope e lr c =
     (case lr_union lr of
        Some (L_FileTransfer dir show_hidden fast) \<Rightarrow>
          if \<not> permitted e then None
          else Some (c\<lparr>clipboard_fast := fast \<and> windows e, file_transfer := Some (dir, show_hidden)\<rparr>)
      | Some L_ViewCamera \<Rightarrow> if \<not> permitted e then None else Some (c\<lparr>view_camera := True\<rparr>)
      | Some (L_Terminal service_id) \<Rightarrow>
          if \<not> permitted e \<or> \<not> terminal_possible e then None
          else Some (c\<lparr>terminal := True,
                       c_terminal_persistent := (case options_in_login c of
                         Some opt \<Rightarrow> terminal_persistent opt = Known Yes | None \<Rightarrow> c_terminal_persistent c),
                       terminal_service_id := service_id\<rparr>)
      | Some (L_PortForward host port multiplex) \<Rightarrow>
          if \<not> permitted e then None
          else Some (c\<lparr>port_forward_address := fst (normalize_port_forward_target host (sint port))\<rparr>)
      | _ \<Rightarrow> if \<not> privacy_mode_off e then None else Some c)"

definition on_login_request :: "(bytes \<Rightarrow> bytes) \<Rightarrow> login_env \<Rightarrow> login_request \<Rightarrow> scope_conn \<Rightarrow> scope_conn option" where
  "on_login_request sha e lr c =
     (if authorized c then Some c
      else (case check_login_scope sha lr c of
        (False, _) \<Rightarrow> None
      | (True, c1) \<Rightarrow>
          (let c2 = reset_session_scope_for_login (handle_login_request_without_validation lr c1) in
           if \<not> whitelisted e then None
           else (case set_session_scope e lr c2 of
             None \<Rightarrow> None
           | Some c3 \<Rightarrow> if rest_passes e then Some c3 else None))))"

definition is_port_forward :: "scope_conn \<Rightarrow> bool" where
  "is_port_forward c \<longleftrightarrow> port_forward_socket c \<or> port_forward_mux c \<noteq> None"

definition connect_port_forward_if_needed :: "bool \<Rightarrow> scope_conn \<Rightarrow> scope_conn option" where
  "connect_port_forward_if_needed connected c =
     (if is_port_forward c then Some c
      else (case lr_union (c_lr c) of
        Some (L_PortForward host port multiplex) \<Rightarrow>
          if multiplex then Some (c\<lparr>port_forward_mux := Some (mux_new (port_forward_address c))\<rparr>)
          else if connected then
            Some (c\<lparr>port_forward_address := fst (normalize_port_forward_target host (sint port)), port_forward_socket := True\<rparr>)
          else None
      | _ \<Rightarrow> Some c))"

definition session_type :: "scope_conn \<Rightarrow> auth_conn_type" where
  "session_type c =
     (if file_transfer c \<noteq> None then Conn_FileTransfer
      else if is_port_forward c then Conn_PortForward
      else if view_camera c then Conn_ViewCamera
      else if terminal c then Conn_Terminal
      else Conn_Remote)"

text \<open>The part of \<open>send_logon_response_and_keep_alive\<close> from the connection of a port forward on. \<open>fast_ok\<close>: the clipboard
  connection belongs to a remote session and is its only one. \<open>trusted_ok\<close>: the trusted device, if one was used, is still
  trusted.\<close>

definition authorize_session :: "bool \<Rightarrow> bool \<Rightarrow> bool \<Rightarrow> scope_conn \<Rightarrow> scope_conn option" where
  "authorize_session connected fast_ok trusted_ok c =
     (if authorized c then Some c
      else (case connect_port_forward_if_needed connected c of
        None \<Rightarrow> None
      | Some c1 \<Rightarrow>
          if clipboard_fast c1 \<and> \<not> fast_ok then None
          else if \<not> trusted_ok then None
          else Some (c1\<lparr>authorized := True, authed_conn_type := Some (session_type c1)\<rparr>)))"

section \<open>What a session may send\<close>

definition is_bool_option_not_set :: "bool_option enum_value \<Rightarrow> bool" where
  "is_bool_option_not_set b \<longleftrightarrow> b = Known NotSet"

definition option_has_non_terminal_login_field :: "option_message \<Rightarrow> bool" where
  "option_has_non_terminal_login_field opt \<longleftrightarrow>
     image_quality opt \<noteq> Known QualityNotSet \<or>
     custom_image_quality opt \<noteq> 0 \<or>
     custom_fps opt \<noteq> 0 \<or>
     supported_decoding opt \<noteq> None \<or>
     \<not> is_bool_option_not_set (lock_after_session_end opt) \<or>
     \<not> is_bool_option_not_set (show_remote_cursor opt) \<or>
     \<not> is_bool_option_not_set (privacy_mode opt) \<or>
     \<not> is_bool_option_not_set (block_input opt) \<or>
     \<not> is_bool_option_not_set (disable_audio opt) \<or>
     \<not> is_bool_option_not_set (disable_clipboard opt) \<or>
     \<not> is_bool_option_not_set (enable_file_transfer opt) \<or>
     \<not> is_bool_option_not_set (disable_keyboard opt) \<or>
     \<not> is_bool_option_not_set (follow_remote_cursor opt) \<or>
     \<not> is_bool_option_not_set (follow_remote_window opt) \<or>
     \<not> is_bool_option_not_set (disable_camera opt) \<or>
     \<not> is_bool_option_not_set (show_my_cursor opt)"

definition option_has_any_field :: "option_message \<Rightarrow> bool" where
  "option_has_any_field opt \<longleftrightarrow>
     option_has_non_terminal_login_field opt \<or> \<not> is_bool_option_not_set (terminal_persistent opt)"

definition option_has_non_view_camera_login_field :: "option_message \<Rightarrow> bool" where
  "option_has_non_view_camera_login_field opt \<longleftrightarrow>
     \<not> (is_bool_option_not_set (lock_after_session_end opt) \<and>
        is_bool_option_not_set (show_remote_cursor opt) \<and>
        is_bool_option_not_set (privacy_mode opt) \<and>
        is_bool_option_not_set (block_input opt) \<and>
        is_bool_option_not_set (disable_clipboard opt) \<and>
        is_bool_option_not_set (enable_file_transfer opt) \<and>
        is_bool_option_not_set (disable_keyboard opt) \<and>
        is_bool_option_not_set (follow_remote_cursor opt) \<and>
        is_bool_option_not_set (follow_remote_window opt) \<and>
        is_bool_option_not_set (disable_camera opt) \<and>
        is_bool_option_not_set (terminal_persistent opt) \<and>
        is_bool_option_not_set (show_my_cursor opt))"

definition then_some :: "bool \<Rightarrow> 'a \<Rightarrow> 'a option" where
  "then_some b x = (if b then Some x else None)"

definition scoped_terminal_login_option :: "option_message \<Rightarrow> option_message option \<times> string option" where
  "scoped_terminal_login_option opt =
     (let (scoped, violation) = (case terminal_persistent opt of
            Known v \<Rightarrow> (option_message_new\<lparr>terminal_persistent := Known v\<rparr>, False)
          | Unknown _ \<Rightarrow> (option_message_new, True));
          violation = (violation \<or> option_has_non_terminal_login_field opt) in
      (then_some (option_has_any_field scoped) scoped, then_some violation ''login.option''))"

definition scoped_view_camera_option :: "option_message \<Rightarrow> option_message option \<times> string option" where
  "scoped_view_camera_option opt =
     (let s = option_message_new;
          s = (case image_quality opt of Known q \<Rightarrow> s\<lparr>image_quality := Known q\<rparr> | Unknown _ \<Rightarrow> s);
          s = (if custom_image_quality opt \<ge> 0 then s\<lparr>custom_image_quality := custom_image_quality opt\<rparr> else s);
          s = (if custom_fps opt \<ge> 0 then s\<lparr>custom_fps := custom_fps opt\<rparr> else s);
          s = s\<lparr>supported_decoding := supported_decoding opt\<rparr>;
          s = (case disable_audio opt of Known v \<Rightarrow> s\<lparr>disable_audio := Known v\<rparr> | Unknown _ \<Rightarrow> s) in
      (then_some (option_has_any_field s) s,
       then_some (option_has_non_view_camera_login_field opt) ''login.option''))"

definition scoped_login_option :: "auth_conn_type \<Rightarrow> option_message \<Rightarrow> option_message option \<times> string option" where
  "scoped_login_option conn_type opt =
     (case conn_type of
        Conn_Remote \<Rightarrow> (Some opt, None)
      | Conn_ViewCamera \<Rightarrow> scoped_view_camera_option opt
      | Conn_Terminal \<Rightarrow> scoped_terminal_login_option opt
      | _ \<Rightarrow> (None, then_some (option_has_any_field opt) ''login.option''))"

definition scoped_update_option_message :: "auth_conn_type option \<Rightarrow> option_message \<Rightarrow> option_message option" where
  "scoped_update_option_message conn_type opt =
     (case conn_type of
        Some Conn_ViewCamera \<Rightarrow> fst (scoped_view_camera_option opt)
      | Some Conn_Terminal \<Rightarrow> fst (scoped_terminal_login_option opt)
      | _ \<Rightarrow> None)"

text \<open>What is handed to \<open>update_options\<close>: of the login, once, and of an option message.\<close>

definition update_scoped_login_options :: "scope_conn \<Rightarrow> option_message option \<times> scope_conn" where
  "update_scoped_login_options c =
     (case options_in_login c of
        None \<Rightarrow> (None, c)
      | Some opt \<Rightarrow>
          (let c1 = c\<lparr>options_in_login := None\<rparr> in
           case authed_conn_type c1 of
             None \<Rightarrow> (None, c1)
           | Some conn_type \<Rightarrow> (fst (scoped_login_option conn_type opt), c1)))"

definition on_option_message :: "option_message \<Rightarrow> scope_conn \<Rightarrow> option_message option" where
  "on_option_message opt c =
     (if authed_conn_type c = Some Conn_Remote then Some opt
      else scoped_update_option_message (authed_conn_type c) opt)"

definition is_supported_decoding_only_option :: "option_message \<Rightarrow> bool" where
  "is_supported_decoding_only_option opt \<longleftrightarrow>
     supported_decoding opt \<noteq> None \<and>
     image_quality opt = Known QualityNotSet \<and>
     custom_image_quality opt = 0 \<and>
     custom_fps opt = 0 \<and>
     is_bool_option_not_set (lock_after_session_end opt) \<and>
     is_bool_option_not_set (show_remote_cursor opt) \<and>
     is_bool_option_not_set (privacy_mode opt) \<and>
     is_bool_option_not_set (block_input opt) \<and>
     is_bool_option_not_set (disable_audio opt) \<and>
     is_bool_option_not_set (disable_clipboard opt) \<and>
     is_bool_option_not_set (enable_file_transfer opt) \<and>
     is_bool_option_not_set (disable_keyboard opt) \<and>
     is_bool_option_not_set (follow_remote_cursor opt) \<and>
     is_bool_option_not_set (follow_remote_window opt) \<and>
     is_bool_option_not_set (disable_camera opt) \<and>
     is_bool_option_not_set (terminal_persistent opt) \<and>
     is_bool_option_not_set (show_my_cursor opt)"

definition is_render_broadcast_noop_compat_message :: "message option \<Rightarrow> bool" where
  "is_render_broadcast_noop_compat_message msg =
     (case msg of
        Some (M_Misc (Some X_RefreshVideo)) \<Rightarrow> True
      | Some (M_Misc (Some X_RefreshVideoDisplay)) \<Rightarrow> True
      | Some (M_Misc (Some (X_Option opt))) \<Rightarrow> is_supported_decoding_only_option opt
      | _ \<Rightarrow> False)"

definition is_text_clipboard_noop_compat_message :: "message option \<Rightarrow> bool" where
  "is_text_clipboard_noop_compat_message msg \<longleftrightarrow> msg = Some M_Clipboard \<or> msg = Some M_MultiClipboards"

definition is_connection_housekeeping_message :: "message option \<Rightarrow> bool" where
  "is_connection_housekeeping_message msg =
     (case msg of
        Some (M_LoginRequest _) \<Rightarrow> True
      | Some M_TestDelay \<Rightarrow> True
      | Some (M_Misc m) \<Rightarrow> m = Some X_CloseReason
      | _ \<Rightarrow> False)"

definition is_file_transfer_scoped_misc :: "bool \<Rightarrow> misc option \<Rightarrow> bool" where
  "is_file_transfer_scoped_misc win m \<longleftrightarrow> win \<and> m = Some X_SelectedSid"

definition is_file_transfer_scoped_message :: "bool \<Rightarrow> message option \<Rightarrow> bool" where
  "is_file_transfer_scoped_message win msg =
     (case msg of
        Some M_FileAction \<Rightarrow> True
      | Some M_FileResponse \<Rightarrow> True
      | Some (M_Misc m) \<Rightarrow> is_file_transfer_scoped_misc win m
      | _ \<Rightarrow> False)"

definition is_clipboard_fast_scoped_message :: "message option \<Rightarrow> bool" where
  "is_clipboard_fast_scoped_message msg \<longleftrightarrow>
     msg = Some (M_Cliprdr (Some Clip_FileContentsRequest)) \<or> msg = Some (M_Cliprdr (Some Clip_FileContentsResponse))"

definition is_port_forward_scoped_message :: "message option \<Rightarrow> bool" where
  "is_port_forward_scoped_message msg \<longleftrightarrow> msg = Some M_PortForwardChannel"

definition is_terminal_scoped_misc :: "misc option \<Rightarrow> bool" where
  "is_terminal_scoped_misc m =
     (case m of
        Some X_ChatMessage \<Rightarrow> True
      | Some (X_Option opt) \<Rightarrow> snd (scoped_terminal_login_option opt) = None
      | _ \<Rightarrow> False)"

definition is_terminal_scoped_message :: "message option \<Rightarrow> bool" where
  "is_terminal_scoped_message msg =
     (case msg of
        Some M_TerminalAction \<Rightarrow> True
      | Some (M_Misc m) \<Rightarrow> is_terminal_scoped_misc m
      | _ \<Rightarrow> False)"

definition is_view_camera_scoped_misc :: "bool \<Rightarrow> misc option \<Rightarrow> bool" where
  "is_view_camera_scoped_misc win m =
     (case m of
        Some (X_Option opt) \<Rightarrow> snd (scoped_view_camera_option opt) = None
      | Some X_SelectedSid \<Rightarrow> win
      | Some x \<Rightarrow> x \<in> {X_SwitchDisplay, X_CaptureDisplays, X_RefreshVideo, X_RefreshVideoDisplay, X_VideoReceived,
          X_ChatMessage, X_AudioFormat, X_ClientRecordStatus, X_MessageQuery, X_TogglePrivacyMode, X_ToggleVirtualDisplay,
          X_ChangeResolution, X_ChangeDisplayResolution}
      | None \<Rightarrow> False)"

definition is_view_camera_scoped_message :: "bool \<Rightarrow> message option \<Rightarrow> bool" where
  "is_view_camera_scoped_message win msg =
     (case msg of
        Some (M_Misc m) \<Rightarrow> is_view_camera_scoped_misc win m
      | Some x \<Rightarrow> x \<in> {M_ScreenshotRequest, M_MouseEvent, M_PointerDeviceEvent, M_KeyEvent, M_AudioFrame,
          M_VoiceCallRequest, M_VoiceCallResponse}
      | None \<Rightarrow> False)"

definition misc_message_family :: "misc option \<Rightarrow> string" where
  "misc_message_family m =
     (case m of
        Some X_ChatMessage \<Rightarrow> ''misc.chat_message''
      | Some X_SwitchDisplay \<Rightarrow> ''misc.switch_display''
      | Some (X_Option _) \<Rightarrow> ''misc.option''
      | Some X_AudioFormat \<Rightarrow> ''misc.audio_format''
      | Some X_CaptureDisplays \<Rightarrow> ''misc.capture_displays''
      | Some X_ClientRecordStatus \<Rightarrow> ''misc.client_record_status''
      | Some X_TogglePrivacyMode \<Rightarrow> ''misc.toggle_privacy_mode''
      | Some X_ToggleVirtualDisplay \<Rightarrow> ''misc.toggle_virtual_display''
      | Some X_SelectedSid \<Rightarrow> ''misc.selected_sid''
      | Some X_ChangeResolution \<Rightarrow> ''misc.change_resolution''
      | Some X_ChangeDisplayResolution \<Rightarrow> ''misc.change_display_resolution''
      | Some X_MessageQuery \<Rightarrow> ''misc.message_query''
      | Some X_FollowCurrentDisplay \<Rightarrow> ''misc.follow_current_display''
      | Some X_SwitchSidesRequest \<Rightarrow> ''misc.switch_sides_request''
      | Some _ \<Rightarrow> ''misc.other''
      | None \<Rightarrow> ''misc.empty'')"

definition message_family :: "message option \<Rightarrow> string" where
  "message_family msg =
     (case msg of
        Some M_MouseEvent \<Rightarrow> ''mouse_event''
      | Some M_AudioFrame \<Rightarrow> ''audio_frame''
      | Some M_PointerDeviceEvent \<Rightarrow> ''pointer_device_event''
      | Some M_KeyEvent \<Rightarrow> ''key_event''
      | Some M_Clipboard \<Rightarrow> ''clipboard''
      | Some M_FileAction \<Rightarrow> ''file_action''
      | Some M_FileResponse \<Rightarrow> ''file_response''
      | Some M_VoiceCallRequest \<Rightarrow> ''voice_call_request''
      | Some M_VoiceCallResponse \<Rightarrow> ''voice_call_response''
      | Some M_MultiClipboards \<Rightarrow> ''multi_clipboards''
      | Some M_ScreenshotRequest \<Rightarrow> ''screenshot_request''
      | Some M_ScreenshotResponse \<Rightarrow> ''screenshot_response''
      | Some M_TerminalAction \<Rightarrow> ''terminal_action''
      | Some M_TerminalResponse \<Rightarrow> ''terminal_response''
      | Some M_PortForwardChannel \<Rightarrow> ''port_forward_channel''
      | Some M_OsLogin \<Rightarrow> ''os_login''
      | Some (M_Misc m) \<Rightarrow> misc_message_family m
      | Some _ \<Rightarrow> ''message.other''
      | None \<Rightarrow> ''empty'')"

definition authorized_message_scope_violation ::
    "bool \<Rightarrow> auth_conn_type \<Rightarrow> message option \<Rightarrow> bool \<Rightarrow> string option" where
  "authorized_message_scope_violation win conn_type msg fast =
     (if is_connection_housekeeping_message msg then None
      else (let noop_compat = (case conn_type of
                  Conn_FileTransfer \<Rightarrow> \<not> fast \<and>
                    (is_render_broadcast_noop_compat_message msg \<or> is_text_clipboard_noop_compat_message msg)
                | Conn_Terminal \<Rightarrow>
                    is_render_broadcast_noop_compat_message msg \<or> is_text_clipboard_noop_compat_message msg
                | Conn_PortForward \<Rightarrow> is_render_broadcast_noop_compat_message msg
                | Conn_ViewCamera \<Rightarrow> is_text_clipboard_noop_compat_message msg
                | _ \<Rightarrow> False) in
        if noop_compat then None
        else (let allowed = (case conn_type of
                  Conn_Remote \<Rightarrow> True
                | Conn_FileTransfer \<Rightarrow>
                    if fast then is_clipboard_fast_scoped_message msg else is_file_transfer_scoped_message win msg
                | Conn_PortForward \<Rightarrow> is_port_forward_scoped_message msg
                | Conn_ViewCamera \<Rightarrow> is_view_camera_scoped_message win msg
                | Conn_Terminal \<Rightarrow> is_terminal_scoped_message msg) in
          then_some (\<not> allowed) (message_family msg))))"

definition authorized_scope_violation :: "bool \<Rightarrow> scope_conn \<Rightarrow> message option \<Rightarrow> string option" where
  "authorized_scope_violation win c msg =
     (case authed_conn_type c of
        None \<Rightarrow> then_some (\<not> is_connection_housekeeping_message msg) ''session.auth_type''
      | Some conn_type \<Rightarrow> authorized_message_scope_violation win conn_type msg (clipboard_fast c))"

text \<open>A message out of scope is reported the first time, and closes the session only where an option says so: the alarm that
  is posted, and the connection unless it is closed.\<close>

definition handle_authorized_scope_violation ::
    "bool \<Rightarrow> bool \<Rightarrow> string \<Rightarrow> scope_conn \<Rightarrow> string option \<times> scope_conn option" where
  "handle_authorized_scope_violation allow_alarm allow_close v c =
     (let is_first = (v \<notin> scope_violation_messages c);
          c1 = c\<lparr>scope_violation_messages := insert v (scope_violation_messages c)\<rparr> in
      (then_some (is_first \<and> allow_alarm) v, then_some (\<not> allow_close) c1))"

text \<open>The head of \<open>on_message\<close>: what happens to a message before the handler of its kind sees it.\<close>

datatype head_result = Head_Close | Head_Ignored | Head_Violation "string option \<times> scope_conn option" | Head_Pass

definition on_message_head :: "bool \<Rightarrow> bool \<Rightarrow> bool \<Rightarrow> message option \<Rightarrow> scope_conn \<Rightarrow> head_result" where
  "on_message_head win allow_alarm allow_close msg c =
     (if msg = Some (M_Misc (Some X_CloseReason)) then Head_Close
      else if \<not> authorized c then Head_Pass
      else (case msg of
        Some (M_LoginRequest _) \<Rightarrow> Head_Ignored
      | _ \<Rightarrow> (case authorized_scope_violation win c msg of
            Some v \<Rightarrow> Head_Violation (handle_authorized_scope_violation allow_alarm allow_close v c)
          | None \<Rightarrow> Head_Pass)))"

section \<open>The encoding of a scope is unambiguous\<close>

declare as_bytes_eq_iff [simp]

lemma to_le_inj:
  assumes "to_le k v = to_le k (w :: 'a::len word)" "8 * k \<ge> LENGTH('a)"
  shows "v = w"
proof -
  have "(of_le (to_le k v) :: 'a word) = of_le (to_le k w)" using assms(1) by simp
  then show ?thesis using assms(2) by (simp add: of_le_to_le_full)
qed

lemma push_field_inj:
  assumes "push_field a @ x = push_field b @ y" "length a < 2 ^ 64" "length b < 2 ^ 64"
  shows "a = b \<and> x = y"
proof -
  have "to_le 8 (of_nat (length a) :: u64) = to_le 8 (of_nat (length b) :: u64)" and eq: "a @ x = b @ y"
    using assms(1) by (simp_all add: push_field_def)
  then have "(of_nat (length a) :: u64) = of_nat (length b)"
    using to_le_inj [of 8 "of_nat (length a) :: u64" "of_nat (length b)"] by simp
  then have "unat (of_nat (length a) :: u64) = unat (of_nat (length b) :: u64)" by simp
  then have "length a = length b" using assms(2,3) by (simp add: unat_of_nat take_bit_nat_eq_self)
  then show ?thesis using eq by simp
qed

lemma concat_push_inj:
  assumes "concat (map push_field fs) = concat (map push_field gs)"
    and "\<And>f. f \<in> set fs \<Longrightarrow> length f < 2 ^ 64" "\<And>g. g \<in> set gs \<Longrightarrow> length g < 2 ^ 64"
  shows "fs = gs"
  using assms
proof (induction fs arbitrary: gs)
  case Nil
  have "push_field g \<noteq> []" for g
  proof -
    have "length (push_field g) = 8 + length g" by (simp add: push_field_def)
    then show ?thesis by auto
  qed
  then show ?case using Nil(1) by (cases gs) auto
next
  case (Cons f fs)
  have "length (push_field f) = 8 + length f" by (simp add: push_field_def)
  then obtain g gs' where gs: "gs = g # gs'" using Cons.prems(1) by (cases gs) auto
  then have "f = g \<and> concat (map push_field fs) = concat (map push_field gs')"
    using Cons.prems by (intro push_field_inj) simp_all
  then show ?case using Cons.IH [of gs'] Cons.prems(2,3) gs by simp
qed

text \<open>Identity and scope of a request; what this build does not know counts as remote.\<close>

definition scope_of :: "login_request \<Rightarrow> string \<times> login_union option" where
  "scope_of lr = (my_id lr, if lr_union lr = Some L_Other then None else lr_union lr)"

lemma bool_byte_eq [simp]: "bool_byte a = bool_byte b \<longleftrightarrow> a = b"
  by (simp add: bool_byte_def)

lemma scope_fields_inj:
  assumes "scope_fields a = scope_fields b"
  shows "scope_of a = scope_of b"
proof -
  have port: "p = q" if "to_le 4 p = to_le 4 (q :: 32 word)" for p q using to_le_inj [OF that] by simp
  show ?thesis using assms
    by (cases "lr_union a"; cases "lr_union b")
      (auto simp: scope_fields_def scope_of_def dest: port split: login_union.splits option.splits if_splits)
qed

definition fits :: "login_request \<Rightarrow> bool" where
  "fits lr \<longleftrightarrow> list_all (\<lambda>f. length f < 2 ^ 64) (scope_fields lr)"

text \<open>The digest has no collision among the requests at hand.\<close>

definition separates :: "(bytes \<Rightarrow> bytes) \<Rightarrow> login_request list \<Rightarrow> bool" where
  "separates sha lrs \<longleftrightarrow>
     (\<forall>a b. a \<in> set lrs \<longrightarrow> b \<in> set lrs \<longrightarrow> login_scope_digest sha a = login_scope_digest sha b \<longrightarrow>
        concat (map push_field (scope_fields a)) = concat (map push_field (scope_fields b)))"

lemma digest_scope:
  assumes "separates sha lrs" "a \<in> set lrs" "b \<in> set lrs" "fits a" "fits b"
    and "login_scope_digest sha a = login_scope_digest sha b"
  shows "scope_of a = scope_of b"
proof -
  have "concat (map push_field (scope_fields a)) = concat (map push_field (scope_fields b))"
    using assms(1,2,3,6) unfolding separates_def by blast
  then have "scope_fields a = scope_fields b"
    using assms(4,5) by (intro concat_push_inj) (auto simp: fits_def list_all_iff)
  then show ?thesis by (rule scope_fields_inj)
qed

section \<open>The session that is authorized is the one that was asked for first\<close>

datatype scope_event = Login_Request login_env login_request | Authorize_Session bool bool bool

fun scope_step :: "(bytes \<Rightarrow> bytes) \<Rightarrow> scope_event \<Rightarrow> scope_conn \<Rightarrow> scope_conn option" where
  "scope_step sha (Login_Request e lr) c = on_login_request sha e lr c"
| "scope_step sha (Authorize_Session connected fast_ok trusted_ok) c = authorize_session connected fast_ok trusted_ok c"

fun scope_run :: "(bytes \<Rightarrow> bytes) \<Rightarrow> scope_event list \<Rightarrow> scope_conn \<Rightarrow> scope_conn option" where
  "scope_run sha [] c = Some c"
| "scope_run sha (ev # evs) c = Option.bind (scope_step sha ev c) (scope_run sha evs)"

fun requests :: "scope_event list \<Rightarrow> login_request list" where
  "requests [] = []"
| "requests (Login_Request e lr # evs) = lr # requests evs"
| "requests (Authorize_Session _ _ _ # evs) = requests evs"

definition kind_of :: "login_request \<Rightarrow> auth_conn_type" where
  "kind_of lr =
     (case lr_union lr of
        Some (L_FileTransfer _ _ _) \<Rightarrow> Conn_FileTransfer
      | Some (L_PortForward _ _ _) \<Rightarrow> Conn_PortForward
      | Some L_ViewCamera \<Rightarrow> Conn_ViewCamera
      | Some (L_Terminal _) \<Rightarrow> Conn_Terminal
      | _ \<Rightarrow> Conn_Remote)"

definition target_of :: "login_request \<Rightarrow> string" where
  "target_of lr =
     (case lr_union lr of
        Some (L_PortForward host port _) \<Rightarrow> fst (normalize_port_forward_target host (sint port)) | _ \<Rightarrow> [])"

definition flags_match :: "login_request \<Rightarrow> scope_conn \<Rightarrow> bool" where
  "flags_match lr c \<longleftrightarrow>
     (file_transfer c \<noteq> None \<longleftrightarrow> kind_of lr = Conn_FileTransfer) \<and>
     (view_camera c \<longleftrightarrow> kind_of lr = Conn_ViewCamera) \<and>
     (terminal c \<longleftrightarrow> kind_of lr = Conn_Terminal) \<and>
     port_forward_address c = target_of lr"

definition scope_inv :: "(bytes \<Rightarrow> bytes) \<Rightarrow> login_request \<Rightarrow> scope_conn \<Rightarrow> bool" where
  "scope_inv sha lr c \<longleftrightarrow>
     login_scope c = Some (login_scope_digest sha lr) \<and> scope_of (c_lr c) = scope_of lr \<and> flags_match lr c \<and>
     (is_port_forward c \<longrightarrow> kind_of lr = Conn_PortForward) \<and>
     (\<forall>m. port_forward_mux c = Some m \<longrightarrow> login_target m = target_of lr) \<and>
     authed_conn_type c = (if authorized c then Some (kind_of lr) else None)"

lemma kind_scope: "scope_of a = scope_of b \<Longrightarrow> kind_of a = kind_of b \<and> target_of a = target_of b"
  by (auto simp: scope_of_def kind_of_def target_of_def split: if_splits option.splits login_union.splits)

lemma set_scope_flags:
  assumes "set_session_scope e lr (reset_session_scope_for_login c) = Some c'"
  shows "flags_match lr c' \<and> login_scope c' = login_scope c \<and> c_lr c' = c_lr c \<and> authorized c' = authorized c \<and>
    authed_conn_type c' = authed_conn_type c \<and>
    port_forward_socket c' = port_forward_socket c \<and> port_forward_mux c' = port_forward_mux c"
  using assms
  by (auto simp: set_session_scope_def reset_session_scope_for_login_def flags_match_def kind_of_def target_of_def
    split: option.splits login_union.splits if_splits)

lemma accepted_login:
  assumes "on_login_request sha e r c = Some c'" "\<not> authorized c"
  obtains c1 where "check_login_scope sha r c = (True, c1)"
    and "set_session_scope e r (reset_session_scope_for_login (handle_login_request_without_validation r c1)) = Some c'"
  using assms by (auto simp: on_login_request_def Let_def split: if_splits option.splits prod.splits bool.splits)

lemma login_inv:
  assumes "scope_inv sha lr c" "on_login_request sha e r c = Some c'"
    and same: "login_scope_digest sha lr = login_scope_digest sha r \<Longrightarrow> scope_of r = scope_of lr"
  shows "scope_inv sha lr c'"
proof (cases "authorized c")
  case True
  then show ?thesis using assms(1,2) by (simp add: on_login_request_def)
next
  case False
  obtain c1 where c1: "check_login_scope sha r c = (True, c1)"
    and c': "set_session_scope e r (reset_session_scope_for_login (handle_login_request_without_validation r c1)) = Some c'"
    using accepted_login [OF assms(2) False] by blast
  have "c1 = c" "scope_of r = scope_of lr"
    using c1 assms(1) same by (simp_all add: check_login_scope_def scope_inv_def Let_def)
  then show ?thesis using set_scope_flags [OF c'] kind_scope [of r lr] assms(1) False
    by (simp add: scope_inv_def flags_match_def is_port_forward_def handle_login_request_without_validation_def)
qed

lemma first_login_inv:
  assumes "on_login_request sha e lr new_scope_conn = Some c"
  shows "scope_inv sha lr c"
proof -
  have new: "\<not> authorized new_scope_conn" by (simp add: new_scope_conn_def)
  obtain c1 where c1: "check_login_scope sha lr new_scope_conn = (True, c1)"
    and c: "set_session_scope e lr (reset_session_scope_for_login (handle_login_request_without_validation lr c1)) = Some c"
    using accepted_login [OF assms new] by blast
  have "c1 = new_scope_conn\<lparr>login_scope := Some (login_scope_digest sha lr)\<rparr>"
    using c1 by (simp add: check_login_scope_def new_scope_conn_def Let_def)
  then show ?thesis using set_scope_flags [OF c]
    by (simp add: scope_inv_def is_port_forward_def handle_login_request_without_validation_def new_scope_conn_def)
qed

lemma connect_inv:
  assumes "scope_inv sha lr c" "\<not> authorized c" "connect_port_forward_if_needed connected c = Some c1"
  shows "scope_inv sha lr c1 \<and> \<not> authorized c1 \<and> (kind_of lr = Conn_PortForward \<longrightarrow> is_port_forward c1)"
proof (cases "is_port_forward c")
  case True
  then show ?thesis using assms by (simp add: connect_port_forward_if_needed_def)
next
  case False
  have kind: "kind_of lr = kind_of (c_lr c)" "target_of lr = target_of (c_lr c)"
    using assms(1) kind_scope [of "c_lr c" lr] by (simp_all add: scope_inv_def)
  show ?thesis
  proof (cases "\<exists>host port multiplex. lr_union (c_lr c) = Some (L_PortForward host port multiplex)")
    case True
    then obtain host port multiplex where u: "lr_union (c_lr c) = Some (L_PortForward host port multiplex)" by blast
    then have "kind_of lr = Conn_PortForward" "target_of lr = fst (normalize_port_forward_target host (sint port))"
      using kind by (simp_all add: kind_of_def target_of_def)
    then show ?thesis using assms False u
      by (auto simp: connect_port_forward_if_needed_def scope_inv_def flags_match_def is_port_forward_def mux_new_def
        split: if_splits)
  next
    case no: False
    then have "c1 = c" using assms(3) False
      by (auto simp: connect_port_forward_if_needed_def split: option.splits login_union.splits)
    moreover have "kind_of lr \<noteq> Conn_PortForward"
      using no kind(1) by (auto simp: kind_of_def split: option.splits login_union.splits)
    ultimately show ?thesis using assms(1,2) by simp
  qed
qed

lemma session_type_kind:
  assumes "scope_inv sha lr c" "kind_of lr = Conn_PortForward \<longrightarrow> is_port_forward c"
  shows "session_type c = kind_of lr"
  using assms by (cases "kind_of lr") (auto simp: session_type_def scope_inv_def flags_match_def)

lemma authorize_inv:
  assumes "scope_inv sha lr c" "authorize_session connected fast_ok trusted_ok c = Some c'"
  shows "scope_inv sha lr c'"
proof (cases "authorized c")
  case True
  then show ?thesis using assms by (simp add: authorize_session_def)
next
  case False
  then obtain c1 where c1: "connect_port_forward_if_needed connected c = Some c1"
      and c': "c' = c1\<lparr>authorized := True, authed_conn_type := Some (session_type c1)\<rparr>"
    using assms(2) by (auto simp: authorize_session_def split: option.splits if_splits)
  note inv = connect_inv [OF assms(1) False c1]
  then have "session_type c1 = kind_of lr" using session_type_kind by blast
  then show ?thesis using inv c' by (simp add: scope_inv_def flags_match_def is_port_forward_def)
qed

lemma scope_run_inv:
  assumes "scope_run sha evs c = Some c'" "scope_inv sha lr c" "separates sha (lr # requests evs)"
    and "list_all fits (lr # requests evs)"
  shows "scope_inv sha lr c'"
  using assms
proof (induction evs arbitrary: c)
  case (Cons ev evs)
  obtain c1 where c1: "scope_step sha ev c = Some c1" "scope_run sha evs c1 = Some c'"
    using Cons.prems(1) by (auto simp: bind_eq_Some_conv)
  have sub: "set (lr # requests evs) \<subseteq> set (lr # requests (ev # evs))" by (cases ev) auto
  then have rest: "separates sha (lr # requests evs)"
    using Cons.prems(3) unfolding separates_def by blast
  have fits: "list_all fits (lr # requests evs)"
    using Cons.prems(4) sub unfolding list_all_iff by blast
  have "scope_inv sha lr c1"
  proof (cases ev)
    case (Login_Request e r)
    have "r \<in> set (lr # requests (ev # evs))" "lr \<in> set (lr # requests (ev # evs))" "fits r" "fits lr"
      using Login_Request Cons.prems(4) by simp_all
    then have "scope_of r = scope_of lr" if "login_scope_digest sha lr = login_scope_digest sha r"
      using digest_scope [OF Cons.prems(3), of r lr] that by simp
    moreover have "on_login_request sha e r c = Some c1" using c1(1) Login_Request by simp
    ultimately show ?thesis using login_inv [OF Cons.prems(2)] by blast
  next
    case (Authorize_Session connected fast_ok trusted_ok)
    then show ?thesis using authorize_inv [OF Cons.prems(2)] c1(1) by simp
  qed
  then show ?case by (rule Cons.IH [OF c1(2) _ rest fits])
qed simp

lemma run_from_start_inv:
  assumes "scope_run sha (Login_Request e lr # evs) new_scope_conn = Some c"
    and "separates sha (lr # requests evs)" "list_all fits (lr # requests evs)"
  shows "scope_inv sha lr c"
proof -
  obtain c1 where "on_login_request sha e lr new_scope_conn = Some c1" "scope_run sha evs c1 = Some c"
    using assms(1) by (auto simp: bind_eq_Some_conv)
  then show ?thesis using scope_run_inv first_login_inv assms(2,3) by blast
qed

text \<open>C18. Approval stays bound to what was asked for first. However often a controller repeats its login request on a
  connection, and whatever it changes in between, a connection that ends up authorized has the session type, the
  identity and, for a tunnel, the target of its first request. The scope is compared through a digest of
  length-prefixed fields, which two different scopes share only if the hash collides on the requests at hand.\<close>

theorem authorized_session_was_asked_first:
  assumes "scope_run sha (Login_Request e lr # evs) new_scope_conn = Some c" "authorized c"
    and "separates sha (lr # requests evs)" "list_all fits (lr # requests evs)"
  shows "authed_conn_type c = Some (kind_of lr) \<and> my_id (c_lr c) = my_id lr \<and> port_forward_address c = target_of lr \<and>
    (\<forall>m. port_forward_mux c = Some m \<longrightarrow> login_target m = target_of lr)"
  using run_from_start_inv [OF assms(1,3,4)] assms(2) by (simp add: scope_inv_def flags_match_def scope_of_def)

definition demo_env :: login_env where
  "demo_env = \<lparr>windows = False, whitelisted = True, permitted = True, terminal_possible = True, privacy_mode_off = True,
     rest_passes = True\<rparr>"

definition demo_login :: login_request where
  "demo_login = \<lparr>my_id = ''42'', lr_union = Some (L_PortForward ''db'' 5432 True), lr_option = None\<rparr>"

definition demo_retry :: scope_event where
  "demo_retry = Login_Request demo_env (demo_login\<lparr>lr_option := Some option_message_new\<rparr>)"

lemmas demo_defs = demo_env_def demo_login_def demo_retry_def

lemmas scope_eval = on_login_request_def check_login_scope_def new_scope_conn_def Let_def login_scope_digest_def scope_fields_def
  handle_login_request_without_validation_def reset_session_scope_for_login_def set_session_scope_def authorize_session_def
  connect_port_forward_if_needed_def is_port_forward_def session_type_def

lemma demo_run:
  "\<exists>c. scope_run (\<lambda>x. x) [Login_Request demo_env demo_login, demo_retry, Authorize_Session True True True] new_scope_conn = Some c \<and>
    authorized c \<and> authed_conn_type c = Some Conn_PortForward"
  by (simp add: scope_eval demo_defs)

lemma demo_scope:
  "separates (\<lambda>x. x) (demo_login # requests [demo_retry, Authorize_Session True True True])"
  "list_all fits (demo_login # requests [demo_retry, Authorize_Session True True True])"
proof -
  show "separates (\<lambda>x. x) (demo_login # requests [demo_retry, Authorize_Session True True True])"
    by (simp add: separates_def login_scope_digest_def)
  have "fits demo_login" "fits (demo_login\<lparr>lr_option := x\<rparr>)" for x
    by (simp_all add: fits_def scope_fields_def demo_login_def as_bytes_def bool_byte_def to_le_def)
  then show "list_all fits (demo_login # requests [demo_retry, Authorize_Session True True True])"
    by (simp add: demo_retry_def)
qed

theorem authorized_session_was_asked_first_witness:
  "\<exists>c. scope_run (\<lambda>x. x) [Login_Request demo_env demo_login, demo_retry, Authorize_Session True True True] new_scope_conn = Some c \<and>
    authed_conn_type c = Some Conn_PortForward \<and> my_id (c_lr c) = ''42''"
proof -
  obtain c where c: "scope_run (\<lambda>x. x) [Login_Request demo_env demo_login, demo_retry, Authorize_Session True True True]
      new_scope_conn = Some c" "authorized c"
    using demo_run by blast
  show ?thesis using authorized_session_was_asked_first [OF c demo_scope] c(1) by (simp add: kind_of_def demo_login_def)
qed

section \<open>A session stays within the kind that was asked for\<close>

text \<open>The options that act on the machine rather than on what the controller sees and hears.\<close>

definition controls_unset :: "option_message \<Rightarrow> bool" where
  "controls_unset opt \<longleftrightarrow>
     lock_after_session_end opt = Known NotSet \<and> privacy_mode opt = Known NotSet \<and> block_input opt = Known NotSet \<and>
     disable_clipboard opt = Known NotSet \<and> enable_file_transfer opt = Known NotSet \<and>
     disable_keyboard opt = Known NotSet \<and> disable_camera opt = Known NotSet \<and>
     show_remote_cursor opt = Known NotSet \<and> follow_remote_cursor opt = Known NotSet \<and>
     follow_remote_window opt = Known NotSet \<and> show_my_cursor opt = Known NotSet"

lemma terminal_option_controls: "fst (scoped_terminal_login_option opt) = Some x \<Longrightarrow> controls_unset x"
  by (cases "terminal_persistent opt")
    (auto simp: scoped_terminal_login_option_def then_some_def controls_unset_def option_message_new_def split: if_splits)

lemma camera_option_controls: "fst (scoped_view_camera_option opt) = Some x \<Longrightarrow> controls_unset x"
  by (cases "image_quality opt"; cases "disable_audio opt")
    (auto simp: scoped_view_camera_option_def then_some_def controls_unset_def option_message_new_def Let_def
      split: if_splits)

lemma login_option_controls:
  assumes "fst (scoped_login_option conn_type opt) = Some x" "conn_type \<noteq> Conn_Remote"
  shows "controls_unset x \<and> conn_type \<in> {Conn_ViewCamera, Conn_Terminal}"
  using assms terminal_option_controls camera_option_controls
  by (cases conn_type) (auto simp: scoped_login_option_def)

lemma update_option_controls:
  assumes "scoped_update_option_message (Some conn_type) opt = Some x"
  shows "controls_unset x \<and> conn_type \<in> {Conn_ViewCamera, Conn_Terminal}"
  using assms terminal_option_controls camera_option_controls
  by (cases conn_type) (auto simp: scoped_update_option_message_def)

text \<open>The kinds of session that have a use for a message. A camera session may send input, which its handlers ignore, and
  broadcasts reach sessions that ignore them.\<close>

definition kinds_for :: "message \<Rightarrow> auth_conn_type set" where
  "kinds_for m =
     (case m of
        M_TestDelay \<Rightarrow> {Conn_Remote, Conn_FileTransfer, Conn_PortForward, Conn_ViewCamera, Conn_Terminal}
      | M_LoginRequest _ \<Rightarrow> {}
      | M_FileAction \<Rightarrow> {Conn_Remote, Conn_FileTransfer}
      | M_FileResponse \<Rightarrow> {Conn_Remote, Conn_FileTransfer}
      | M_Cliprdr _ \<Rightarrow> {Conn_Remote, Conn_FileTransfer}
      | M_PortForwardChannel \<Rightarrow> {Conn_Remote, Conn_PortForward}
      | M_TerminalAction \<Rightarrow> {Conn_Remote, Conn_Terminal}
      | M_Clipboard \<Rightarrow> {Conn_Remote, Conn_FileTransfer, Conn_ViewCamera, Conn_Terminal}
      | M_MultiClipboards \<Rightarrow> {Conn_Remote, Conn_FileTransfer, Conn_ViewCamera, Conn_Terminal}
      | M_Misc (Some X_CloseReason) \<Rightarrow> {}
      | M_Misc (Some X_RefreshVideo) \<Rightarrow> {Conn_Remote, Conn_FileTransfer, Conn_PortForward, Conn_ViewCamera, Conn_Terminal}
      | M_Misc (Some X_RefreshVideoDisplay) \<Rightarrow>
          {Conn_Remote, Conn_FileTransfer, Conn_PortForward, Conn_ViewCamera, Conn_Terminal}
      | M_Misc (Some (X_Option opt)) \<Rightarrow>
          {Conn_Remote, Conn_ViewCamera, Conn_Terminal} \<union>
          (if is_supported_decoding_only_option opt then {Conn_FileTransfer, Conn_PortForward} else {})
      | M_Misc (Some X_ChatMessage) \<Rightarrow> {Conn_Remote, Conn_ViewCamera, Conn_Terminal}
      | M_Misc (Some X_SelectedSid) \<Rightarrow> {Conn_Remote, Conn_FileTransfer, Conn_ViewCamera}
      | M_Misc (Some x) \<Rightarrow> if x \<in> {X_SwitchDisplay, X_CaptureDisplays, X_VideoReceived, X_AudioFormat, X_ClientRecordStatus,
          X_MessageQuery, X_TogglePrivacyMode, X_ToggleVirtualDisplay, X_ChangeResolution, X_ChangeDisplayResolution}
          then {Conn_Remote, Conn_ViewCamera} else {Conn_Remote}
      | _ \<Rightarrow> if m \<in> {M_ScreenshotRequest, M_MouseEvent, M_PointerDeviceEvent, M_KeyEvent, M_AudioFrame,
          M_VoiceCallRequest, M_VoiceCallResponse} then {Conn_Remote, Conn_ViewCamera} else {Conn_Remote})"

lemmas scoped_message_defs = is_connection_housekeeping_message_def is_render_broadcast_noop_compat_message_def
  is_text_clipboard_noop_compat_message_def is_file_transfer_scoped_message_def is_file_transfer_scoped_misc_def
  is_clipboard_fast_scoped_message_def is_port_forward_scoped_message_def is_terminal_scoped_message_def
  is_terminal_scoped_misc_def is_view_camera_scoped_message_def is_view_camera_scoped_misc_def

lemma misc_kinds:
  assumes "authorized_message_scope_violation win k (Some (M_Misc mm)) fast = None" "mm \<noteq> Some X_CloseReason"
  shows "k \<in> kinds_for (M_Misc mm)"
proof (cases mm)
  case None
  then show ?thesis using assms(1)
    by (cases k) (auto simp: authorized_message_scope_violation_def scoped_message_defs kinds_for_def then_some_def Let_def
      split: if_splits)
next
  case (Some x)
  then show ?thesis using assms
    by (cases k; cases x) (simp_all add: authorized_message_scope_violation_def scoped_message_defs kinds_for_def
      then_some_def Let_def split: if_splits)
qed

lemma message_kinds:
  assumes "authorized_message_scope_violation win k (Some m) fast = None" "\<forall>lr. m \<noteq> M_LoginRequest lr"
    and "m \<noteq> M_Misc (Some X_CloseReason)"
  shows "k \<in> kinds_for m"
proof (cases "\<exists>mm. m = M_Misc mm")
  case True
  then show ?thesis using assms misc_kinds by blast
next
  case False
  then show ?thesis using assms
    by (cases k; cases m) (simp_all add: authorized_message_scope_violation_def scoped_message_defs kinds_for_def
      then_some_def Let_def split: if_splits)
qed

lemma head_passes:
  assumes "on_message_head win allow_alarm allow_close (Some m) c = Head_Pass" "authorized c" "authed_conn_type c = Some k"
  shows "k \<in> kinds_for m"
proof -
  have no: "\<forall>lr. m \<noteq> M_LoginRequest lr" "m \<noteq> M_Misc (Some X_CloseReason)"
    using assms(1,2) by (auto simp: on_message_head_def)
  have "authorized_scope_violation win c (Some m) = None"
    using assms(1,2) no by (cases "authorized_scope_violation win c (Some m)"; cases m) (simp_all add: on_message_head_def)
  then show ?thesis using message_kinds no assms(3) by (auto simp: authorized_scope_violation_def)
qed

text \<open>C19. A session does nothing outside the kind of session that was asked for first, whatever requests, options and messages
  the controller sends and in whatever order. Before a session that is not a remote desktop applies options, of its login or
  of a later message, everything that acts on the machine (privacy mode, blocked input, keyboard, clipboard, file transfer,
  locking) has been taken out, and a file transfer or a tunnel applies none. Once authorized, a message reaches its handler
  only if its kind has a use for it: file actions in file transfers, terminal actions in terminals, frames of channels in
  tunnels, input in remote and camera sessions.\<close>

theorem session_confined_to_first_request:
  assumes "scope_run sha (Login_Request e lr # evs) new_scope_conn = Some c"
    and "separates sha (lr # requests evs)" "list_all fits (lr # requests evs)"
  shows "(kind_of lr \<noteq> Conn_Remote \<and> (fst (update_scoped_login_options c) = Some x \<or> on_option_message opt c = Some x) \<longrightarrow>
      controls_unset x \<and> kind_of lr \<in> {Conn_ViewCamera, Conn_Terminal}) \<and>
    (authorized c \<and> on_message_head win allow_alarm allow_close (Some m) c = Head_Pass \<longrightarrow> kind_of lr \<in> kinds_for m)"
proof -
  note inv = run_from_start_inv [OF assms]
  have typed: "authed_conn_type c = (if authorized c then Some (kind_of lr) else None)" using inv by (simp add: scope_inv_def)
  have login: "controls_unset x \<and> kind_of lr \<in> {Conn_ViewCamera, Conn_Terminal}"
    if restricted: "kind_of lr \<noteq> Conn_Remote" and applied: "fst (update_scoped_login_options c) = Some x"
  proof -
    obtain opt' where "fst (scoped_login_option (kind_of lr) opt') = Some x"
      using applied typed by (auto simp: update_scoped_login_options_def Let_def split: option.splits if_splits)
    then show ?thesis using login_option_controls restricted by blast
  qed
  have update: "controls_unset x \<and> kind_of lr \<in> {Conn_ViewCamera, Conn_Terminal}"
    if "kind_of lr \<noteq> Conn_Remote" "on_option_message opt c = Some x"
  proof -
    have "scoped_update_option_message (Some (kind_of lr)) opt = Some x"
      using that typed by (cases "authorized c") (simp_all add: on_option_message_def scoped_update_option_message_def)
    then show ?thesis by (rule update_option_controls)
  qed
  show ?thesis using login update head_passes typed by auto
qed

text \<open>A tunnel passes the frames of its channels on and keeps the options of a retry from being applied.\<close>

theorem session_confined_to_first_request_witness:
  "\<exists>c. scope_run (\<lambda>x. x) [Login_Request demo_env demo_login, demo_retry, Authorize_Session True True True] new_scope_conn = Some c \<and>
    on_message_head False False False (Some M_PortForwardChannel) c = Head_Pass \<and>
    Conn_PortForward \<in> kinds_for M_PortForwardChannel \<and> fst (update_scoped_login_options c) = None"
proof -
  let ?evs = "[Login_Request demo_env demo_login, demo_retry, Authorize_Session True True True]"
  obtain c where c: "scope_run (\<lambda>x. x) ?evs new_scope_conn = Some c" "authorized c" "authed_conn_type c = Some Conn_PortForward"
    using demo_run by blast
  note conf = session_confined_to_first_request [OF c(1) demo_scope]
  have kind: "kind_of demo_login = Conn_PortForward" by (simp add: kind_of_def demo_login_def)
  have pass: "on_message_head False False False (Some M_PortForwardChannel) c = Head_Pass"
    using c(2,3) by (simp add: on_message_head_def authorized_scope_violation_def authorized_message_scope_violation_def
      scoped_message_defs then_some_def)
  then have "Conn_PortForward \<in> kinds_for M_PortForwardChannel"
    using conf [of _ _ False False False M_PortForwardChannel] c(2) kind by simp
  moreover have "fst (update_scoped_login_options c) \<noteq> Some x" for x
    using conf [of x option_message_new False False False M_TestDelay] kind by auto
  then have "fst (update_scoped_login_options c) = None" by (metis option.exhaust)
  ultimately show ?thesis using c(1) pass by blast
qed

end
