(* ===== verification/Spec2Isabelle.thy ===== *)
theory Spec2Isabelle
  imports Bytes_Codec Gateways Rv_Server Rv_Race Relay Pf_Tunnel Login_Gate Password_Store Session_Scope
begin

text \<open>
  Verification of a self-hosted remote-desktop system: the rendezvous server \<open>hbbs\<close> and the relay server
  \<open>hbbr\<close> (\<^verbatim>\<open>src/server\<close>), the tunnels in front of them (VLESS, SSH), and of the client
  (\<^verbatim>\<open>src/client\<close>) its transports, the port-forward multiplexer, and the login of the controlled side.

  \<^bold>\<open>The program.\<close> A controlled side registers its id and key with \<open>hbbs\<close>, over UDP or over an authenticated
  tunnel. A controller asks \<open>hbbs\<close> for it; \<open>hbbs\<close> forwards a punch hole request, and when no direct path is
  found both sides connect to \<open>hbbr\<close> under one session id, which joins the two streams. The controller then logs in
  at the controlled side; a session may be a port-forward tunnel, which carries many TCP connections as channels
  with flow control. All TCP connections use one frame codec. Where only TLS or SSH passes, the gateways carry the
  connections to internal listeners of the servers.

  \<^bold>\<open>The theories.\<close> Paths are below \<^verbatim>\<open>src/\<close>; \<open>hbb_common\<close> is \<^verbatim>\<open>client/libs/hbb_common/src\<close>.
  \<^item> \<open>Prelude\<close>: machine integers, bytes, clock, shared lemmas. \<open>Rust_Str\<close>: the string and address functions of the
    standard library that the code calls.
  \<^item> \<open>Net_Addr\<close>: addresses and \<open>AddrMangle\<close> (\<^verbatim>\<open>server/libs/hbb_common/src/lib.rs\<close>): decoding inverts encoding.
  \<^item> \<open>Bytes_Codec\<close>: \<^verbatim>\<open>hbb_common/bytes_codec.rs\<close>: any fragmentation of encoded frames decodes to the frames.
  \<^item> \<open>Vless_Wire\<close>: request and response of \<^verbatim>\<open>hbb_common/vless.rs\<close> and \<open>read_request\<close> of \<^verbatim>\<open>server/src/vless.rs\<close>: round
    trip, and the reader of the response is sound and complete for every fragmentation.
  \<^item> \<open>Gateways\<close>: \<^verbatim>\<open>server/src/vless.rs\<close>, \<^verbatim>\<open>server/src/ssh.rs\<close> and the settings of \<^verbatim>\<open>hbb_common/vless_reality.rs\<close>:
    a gateway dials only the upstream of a permitted port after authentication (locale \<open>port_gateway\<close>).
  \<^item> \<open>Server_Common\<close>, \<open>Start_Up\<close>: \<^verbatim>\<open>server/src/common.rs\<close>, \<^verbatim>\<open>main.rs\<close>, \<^verbatim>\<open>hbbr.rs\<close> and the listeners: arguments,
    keys, sockets and their reopening; internal listeners are on loopback addresses.
  \<^item> \<open>Peer_Map\<close>: \<^verbatim>\<open>server/src/peer.rs\<close> and \<^verbatim>\<open>database.rs\<close>: memory in front of a table with two keys (locale
    \<open>peer_store\<close>); the store refines a registry from ids to owner and key.
  \<^item> \<open>Rv_State\<close>, \<open>Rv_Register\<close>, \<open>Rv_Punch\<close>, \<open>Rv_Tcp\<close>, \<open>Rv_Console\<close>, \<open>Rv_Server\<close>:
    \<^verbatim>\<open>server/src/rendezvous_server.rs\<close>: messages and state, registration with its limiters (locale \<open>limiter\<close>), connecting
    peers, the messages over TCP, the console, and the connections and main loop as interleaved turns. The lemmas give
    the ownership of ids, who may change a key or an address, every branch of a punch hole request, the ownership of
    write halves and the delivery of queued messages.
  \<^item> \<open>Rv_Race\<close>: the registrations of \<open>hbbs\<close> and the lookups of \<^verbatim>\<open>server/src/peer.rs\<close> again, as tasks that give way at
    every await. The handlers of \<open>Rv_Register\<close> are the uninterrupted runs of these tasks. An id that has an owner
    keeps it on every schedule; two registrations of a free id may both be accepted, and the limiter of one id
    does not hold between registrations that overlap.
  \<^item> \<open>Relay\<close>: \<^verbatim>\<open>server/src/relay_server.rs\<close>: lists, console, pairing of streams as interleaved tasks, and the transfer:
    only streams that asked for one session with a valid key are joined, bytes arrive in order and are charged once.
  \<^item> \<open>Pf_Window\<close>, \<open>Pf_Channel\<close>, \<open>Pf_Flow\<close>, \<open>Pf_Pair\<close>, \<open>Pf_Stream\<close>, \<open>Pf_Exact\<close>, \<open>Pf_Bytes\<close>:
    \<^verbatim>\<open>client/src/port_forward_mux.rs\<close> and the channel task of \<^verbatim>\<open>client/src/server/port_forward_mux.rs\<close>: windows and credit in
    \<open>u32\<close>, the tasks of a channel with one step per await, the two ends joined by the queues of the tunnel. The lemmas give
    the bounds against any peer, that the window is never overrun, that a parked sender is owed credit, and that
    the bytes arrive in order and completely.
  \<^item> \<open>Pf_Mux\<close>, \<open>Pf_Tunnel\<close>: the maps of channels at both ends (locale \<open>demultiplexer\<close>), \<open>TunnelHandle\<close>, \<open>tunnel_loop\<close> and
    the accept loop of \<^verbatim>\<open>client/src/port_forward.rs\<close>: confinement to the target of the login, bounds, allocation of
    ids, one live tunnel per listener.
  \<^item> \<open>Id_Whitelist\<close>, \<open>Login_Guard\<close>, \<open>Login_Gate\<close>: \<^verbatim>\<open>client/src/server/connection.rs\<close> and
    \<^verbatim>\<open>client/src/server/login_failure_check.rs\<close>: the wildcard matcher, the counters of failed logins (locale
    \<open>attempt_counter\<close>), and the unauthorized connections with the two steps of a password attempt.
  \<^item> \<open>Session_Scope\<close>: the same \<^verbatim>\<open>connection.rs\<close> around authorization: the digest that binds a connection to its first login
    request, the type of session that is authorized, and the filters of messages and options for each type: a session
    never leaves the kind that was asked for first.
  \<^item> \<open>Password_Store\<close>: \<^verbatim>\<open>hbb_common/password_security.rs\<close>, \<^verbatim>\<open>hbb_common/config/permanent_password.rs\<close> and the password
    part of \<^verbatim>\<open>hbb_common/config.rs\<close>: what is set is, after a restart, what a login is checked against.
  \<^item> This theory: the gateway in front of the consoles of both servers, and the refinement of the registry.

  \<^bold>\<open>How state and effects are modelled.\<close> State is a record passed through; what is sent, answered or connected is a
  list of outputs; errors are values. Concurrent tasks are step functions with a program point, or step relations, with one step for the
  code between two awaits or under one lock; the invariants hold on every schedule. This is so for the relay, the port
  forward, the login and the registrations of \<open>Rv_Race\<close>. In the other theories on \<open>hbbs\<close> a message is handled in
  one step, though the code awaits locks and the database inside a handler: connections interleave between messages,
  and what is shown there is shown of handlers that run to their end. Sends from a spawned task happen with the
  handler. Integers are
  words where they may wrap; a counter kept as a number is shown to stay within its width. Third-party code is an
  argument (TLS, SSH, the secret box, Base64, SHA-256, UUID parsing, protobuf, floating point, the order of a hash map, random
  values, clock readings), and what the code relies on is a named hypothesis with a concrete instance.

  \<^bold>\<open>Bounds and fuel.\<close> No definition takes fuel. Two loops of the source may not end for all one sees locally, are
  \<open>partial_function\<close>s, and are shown to return: the allocation of channel ids (there is a free id among one more than
  the number of channels) and the wildcard matcher (a lexicographic measure of restart point and position). The other
  loops that do not follow the data, the decoder and the readers of the response header, have termination proofs: each
  turn consumes input. Lists of events and schedules are arbitrary and finite.

  \<^bold>\<open>Not modelled.\<close>
  \<^item> Capture, encoding, playback, input, clipboard, displays, printers, privacy screens and the services that drive
    them (\<^verbatim>\<open>client/libs/scrap\<close>, \<^verbatim>\<open>enigo\<close>, \<^verbatim>\<open>clipboard\<close>, \<^verbatim>\<open>virtual_display\<close>, \<^verbatim>\<open>remote_printer\<close>,
    \<^verbatim>\<open>client/src/server/*_service.rs\<close>): calls of operating systems and codecs.
  \<^item> User interfaces, translations, installers, tray and updater, and the scripts: presentation, foreign calls and I/O.
  \<^item> The session after the login (\<open>Connection::on_message\<close> beyond its filters and the branches above,
    \<^verbatim>\<open>client/src/client.rs\<close>, \<open>io_loop\<close>): it dispatches to the parts above; file transfer and terminals are I/O of the
    platform. Two-factor codes and trusted devices are conditions of a step. Switching sides authorizes a remote session
    by a token that this side has issued, without a login request, and is outside the theorems on the scope.
  \<^item> The key exchange and the encrypted streams (\<^verbatim>\<open>hbb_common/tcp.rs\<close>, \<^verbatim>\<open>tls.rs\<close>, \<^verbatim>\<open>webrtc.rs\<close>, \<^verbatim>\<open>websocket.rs\<close>,
    \<^verbatim>\<open>proxy.rs\<close>, \<^verbatim>\<open>udp.rs\<close>, \<^verbatim>\<open>kcp_stream.rs\<close>): wrappers of cryptographic and network libraries, of which the
    frame codec and the VLESS stream are the parts with logic of their own.
  \<^item> The mediator of the client (\<^verbatim>\<open>client/src/rendezvous_mediator.rs\<close>): the other end of the protocol of
    \<open>hbbs\<close>, driven by timers, name resolution and sockets.
  \<^item> Configuration other than the password, and its file format: serialization by a library.
  \<^item> In the modelled files: log lines, audit reports, waiting for signals, opening of sockets and the database pool.
  \<^item> The bound of 46 wrong guesses is about \<open>validate_password\<close>; \<open>is_recent_session\<close>, which compares a response with the password that
    a recent session of the same session key remembers, runs before the counters and is not part of it.
\<close>

section \<open>The administration consoles\<close>

text \<open>The gateway for VLESS forwards to the public listeners unless it is told otherwise. It connects from
  this host, so the servers take it for their console.\<close>

lemma vless_default_is_console:
  assumes "vless_config_from_env parse_uuid env = Inr c" "map_of env ''VLESS_HBBR'' = None" "map_of env ''VLESS_NAT'' = None"
  shows "vless_upstream c 21117 = Some ''127.0.0.1:21117'' \<and> vless_upstream c 21115 = Some ''127.0.0.1:21115'' \<and>
    handle_connection (SockV4 0x7F000001 port) False False blocklist = Console \<and>
    listener2_admission (SockV4 0x7F000001 port) False = AsConsole"
proof -
  have "vc_hbbr c = ''127.0.0.1:21117''" "vc_nat c = ''127.0.0.1:21115''"
    using assms by (auto simp: vless_config_from_env_def env_value_def)
  then show ?thesis
    by (simp add: vless_upstream_def handle_connection_def listener2_admission_def drop_bit_eq_div Let_def)
qed

section \<open>Properties\<close>

text \<open>C12. The peer store is the registry. On a store whose memory and table agree, with a database that
  answers, looking up and fetching a peer do not change the registry, and the entry that is fetched has
  the identity that the registry has for the id. An update of a free id, or by the UUID that owns it, is
  carried out and is the update of the registry at that id; memory and table agree again, and a restart
  reads the same registry back.\<close>

theorem peer_store_refines_registry:
  assumes "pm_synced pm" "env_ok e pm" "pm_get_or e i pm = (p, pm1)"
    and "uuid \<noteq> []" "registry pm i = None \<or> (\<exists>k. registry pm i = Some (uuid, k))"
  shows "registry (snd (pm_get e i pm)) = registry pm \<and> registry pm1 = registry pm \<and> peer_identity p = registry pm i \<and>
    (\<exists>pm2. pm_update_pk e i p addr uuid pk ip pm1 = (OK, pm2) \<and> pm_synced pm2 \<and>
       registry pm2 = (registry pm)(i \<mapsto> (uuid, pk)) \<and> registry (pm_restart pm2) = registry pm2)"
proof -
  obtain q pm0 where q: "pm_get e i pm = (q, pm0)" by fastforce
  note get = ps.lookup [OF assms(1,2) q] and got = ps.fetch [OF assms(1-3)]
  have p: "peer_identity p = registry pm i" using ps.entry_reg [of pm1 i p] got by auto
  then have "p_uuid p = [] \<or> p_uuid p = uuid" using assms(5) by (auto simp: peer_identity_def split: if_splits)
  from ps.update [of pm1 e i p uuid addr pk ip] this got assms(4)
  obtain pm2 where "pm_update_pk e i p addr uuid pk ip pm1 = (OK, pm2)" "pm_synced pm2"
      "registry pm2 = (registry pm)(i \<mapsto> (uuid, pk))" by auto
  then show ?thesis using get got p q registry_restart by auto
qed

theorem peer_store_refines_registry_witness:
  "\<exists>p pm1 pm2. pm_get_or (plain_env 0 [1]) ''123456'' \<lparr>pm_map = Map.empty, pm_db = []\<rparr> = (p, pm1) \<and>
     pm_update_pk (plain_env 0 [1]) ''123456'' p (SockV4 1 1) [7] [8] [] pm1 = (OK, pm2) \<and>
     registry pm2 ''123456'' = Some ([7], [8])"
proof -
  let ?pm = "\<lparr>pm_map = Map.empty, pm_db = []\<rparr>" and ?e = "plain_env 0 [1]"
  obtain p pm1 where g: "pm_get_or ?e ''123456'' ?pm = (p, pm1)" by fastforce
  have "pm_synced ?pm" "env_ok ?e ?pm" "registry ?pm ''123456'' = None"
    by (simp_all add: pm_synced_def db_wf_def env_ok_def plain_env_def registry_def db_get_peer_def)
  with peer_store_refines_registry [OF this(1,2) g, of "[7]" "SockV4 1 1" "[8]" "[]"] g show ?thesis by auto
qed

end
